(* ===== verification/Radon_Prelude.thy ===== *)
theory Radon_Prelude
  imports Main "HOL-Library.Word" "HOL-Library.AList" "HOL-Library.Multiset"
    "HOL-Library.Char_ord" "HOL-Library.List_Lexorder"
begin

section \<open>Shared vocabulary of the Radon models\<close>

text \<open>
  Go errors as values, the standard-library text functions the code uses
  (\<open>strconv.Atoi\<close>, \<open>strconv.ParseInt\<close>, \<open>strings.Split\<close>, \<open>fmt.Sprintf\<close> of \<open>%d\<close> and \<open>%04d\<close>,
  \<open>strings.ToUpper\<close>/\<open>ToLower\<close> on ASCII), and the generic facts on lists, results and
  association lists that the component theories share.
\<close>

named_theorems res_simps \<open>rewriting of results and their sequencing\<close>
named_theorems text_simps \<open>printing and parsing of numbers and segments\<close>

subsection \<open>Errors as values\<close>

text \<open>
  \<open>GoError fmt\<close> is an error made by \<open>errors.New\<close>/\<open>errors.Errorf\<close>, named by the source's format
  string (its arguments are left out), \<open>SQLError n\<close> one made by \<open>sqldb.NewSQLError\<close> with the
  MySQL error number, \<open>GoPanic why\<close> a run-time panic (nil dereference, index out of range,
  division by zero, \<open>log.Panicf\<close>).
\<close>

datatype go_err = GoError string | SQLError nat | GoPanic string

type_synonym 'a res = "go_err + 'a"

definition rbind :: "'a res \<Rightarrow> ('a \<Rightarrow> 'b res) \<Rightarrow> 'b res" where
  "rbind r f = (case r of Inl e \<Rightarrow> Inl e | Inr x \<Rightarrow> f x)"

lemma rbind_Inl [simp, res_simps]: "rbind (Inl e) f = Inl e"
  by (simp add: rbind_def)

lemma rbind_Inr [simp, res_simps]: "rbind (Inr x) f = f x"
  by (simp add: rbind_def)

lemma rbind_eq_Inr [res_simps]: "rbind r f = Inr y \<longleftrightarrow> (\<exists>x. r = Inr x \<and> f x = Inr y)"
  by (simp add: rbind_def split: sum.split)

lemma rbind_unit [simp]: "rbind x Inr = x"
  by (cases x) simp_all

lemma rbind_assoc: "rbind (rbind x f) g = rbind x (\<lambda>a. rbind (f a) g)"
  by (cases x) simp_all

lemma mset_concat_map: "mset (concat (map f xs)) = (\<Sum>x \<in># mset xs. mset (f x))"
  by (induction xs) simp_all

text \<open>A loop over a list whose body may return early with an error.\<close>

fun fold_res :: "('a \<Rightarrow> 's \<Rightarrow> 's res) \<Rightarrow> 'a list \<Rightarrow> 's \<Rightarrow> 's res" where
  "fold_res f [] s = Inr s"
| "fold_res f (x # xs) s = rbind (f x s) (fold_res f xs)"

lemma fold_res_append:
  "fold_res f (xs @ ys) s = rbind (fold_res f xs s) (fold_res f ys)"
  by (induction xs arbitrary: s) (auto simp: rbind_def split: sum.split)

text \<open>An invariant kept by every body that returns is kept by the loop.\<close>

lemma fold_res_invariant:
  assumes "fold_res f xs s = Inr t" and "P s"
    and "\<And>x s t. x \<in> set xs \<Longrightarrow> P s \<Longrightarrow> f x s = Inr t \<Longrightarrow> P t"
  shows "P t"
  using assms
proof (induction xs arbitrary: s)
  case Nil
  then show ?case by simp
next
  case (Cons x xs)
  from Cons.prems(1) obtain s' where s': "f x s = Inr s'" "fold_res f xs s' = Inr t"
    by (auto simp: rbind_eq_Inr)
  have "P s'" using Cons.prems(3) [of x s s'] Cons.prems(2) s'(1) by simp
  from s'(2) this show ?case
    by (rule Cons.IH) (rule Cons.prems(3), simp_all)
qed

subsection \<open>Decimal numerals\<close>

definition digit_char :: "nat \<Rightarrow> char" where
  "digit_char d = char_of (48 + d)"

fun dec_string :: "nat \<Rightarrow> string" where
  "dec_string n = (if n < 10 then [digit_char n] else dec_string (n div 10) @ [digit_char (n mod 10)])"

declare dec_string.simps [simp del]

text \<open>\<open>fmt.Sprintf("%d", i)\<close> and \<open>fmt.Sprintf("%04d", n)\<close>.\<close>

definition sprintf_d :: "int \<Rightarrow> string" where
  "sprintf_d i = (if i < 0 then CHR ''-'' # dec_string (nat (- i)) else dec_string (nat i))"

definition sprintf_04d :: "nat \<Rightarrow> string" where
  "sprintf_04d n = replicate (4 - length (dec_string n)) (CHR ''0'') @ dec_string n"

text \<open>The digit loop of \<open>strconv.ParseUint\<close> in a given base.\<close>

definition digit_value :: "char \<Rightarrow> nat option" where
  "digit_value c =
     (let n = of_char c in
      if 48 \<le> n \<and> n \<le> 57 then Some (n - 48)
      else if 97 \<le> n \<and> n \<le> 122 then Some (n - 97 + 10)
      else if 65 \<le> n \<and> n \<le> 90 then Some (n - 65 + 10)
      else None)"

fun parse_base :: "nat \<Rightarrow> string \<Rightarrow> nat \<Rightarrow> nat option" where
  "parse_base b [] acc = Some acc"
| "parse_base b (c # cs) acc =
     (case digit_value c of
        None \<Rightarrow> None
      | Some d \<Rightarrow> if b \<le> d then None else parse_base b cs (acc * b + d))"

definition in_int64 :: "int \<Rightarrow> bool" where
  "in_int64 i \<longleftrightarrow> - (2 ^ 63) \<le> i \<and> i < 2 ^ 63"

text \<open>
  \<open>split_sign\<close> takes off one leading sign, as \<open>Atoi\<close> and \<open>ParseInt\<close> do. \<open>go_atoi\<close> is
  \<open>strconv.Atoi\<close>: at least one decimal digit, and the value fits an \<open>int\<close>.
\<close>

definition split_sign :: "string \<Rightarrow> bool \<times> string" where
  "split_sign s =
     (case s of
        [] \<Rightarrow> (False, [])
      | c # cs \<Rightarrow> if c = CHR ''-'' then (True, cs) else if c = CHR ''+'' then (False, cs) else (False, s))"

definition signed_value :: "bool \<Rightarrow> nat option \<Rightarrow> int option" where
  "signed_value neg r =
     (case r of
        None \<Rightarrow> None
      | Some n \<Rightarrow> let i = (if neg then - int n else int n) in if in_int64 i then Some i else None)"

definition go_atoi :: "string \<Rightarrow> int option" where
  "go_atoi s =
     (case split_sign s of (neg, ds) \<Rightarrow>
        if ds = [] then None else signed_value neg (parse_base 10 ds 0))"

text \<open>
  \<open>strconv.ParseInt(s, 0, 64)\<close> as of Go 1.11, the release the repository builds with: a prefix
  \<open>0x\<close> selects base 16, a prefix \<open>0\<close> base 8, anything else base 10.
\<close>

definition parse_uint_base0 :: "string \<Rightarrow> nat option" where
  "parse_uint_base0 s =
     (case s of
        [] \<Rightarrow> None
      | c # cs \<Rightarrow>
          if c \<noteq> CHR ''0'' then parse_base 10 s 0
          else case cs of
                 [] \<Rightarrow> Some 0
               | x # ds \<Rightarrow>
                   if x = CHR ''x'' \<or> x = CHR ''X''
                   then (if ds = [] then None else parse_base 16 ds 0)
                   else parse_base 8 cs 0)"

definition go_parse_int0 :: "string \<Rightarrow> int option" where
  "go_parse_int0 s = (case split_sign s of (neg, ds) \<Rightarrow> signed_value neg (parse_uint_base0 ds))"

lemma digit_value_digit_char [simp, text_simps]: "d < 10 \<Longrightarrow> digit_value (digit_char d) = Some d"
  by (simp add: digit_value_def digit_char_def)

lemma digit_char_neq_sign [simp]:
  "d < 10 \<Longrightarrow> digit_char d \<noteq> CHR ''-''" "d < 10 \<Longrightarrow> digit_char d \<noteq> CHR ''+''"
proof -
  assume d: "d < 10"
  have "digit_value (CHR ''-'') = None" "digit_value (CHR ''+'') = None"
    by (simp_all add: digit_value_def)
  with digit_value_digit_char [OF d]
  show "digit_char d \<noteq> CHR ''-''" "digit_char d \<noteq> CHR ''+''" by auto
qed

lemma dec_string_nonempty [simp]: "dec_string n \<noteq> []"
  by (subst dec_string.simps) simp

lemma set_dec_string: "c \<in> set (dec_string n) \<Longrightarrow> \<exists>d < 10. c = digit_char d"
proof (induction n rule: dec_string.induct)
  case (1 n)
  then show ?case
    by (cases "n < 10") (auto simp: dec_string.simps [of n] intro: exI [of _ "n mod 10"])
qed

lemma dash_notin_dec_string [simp]: "CHR ''-'' \<notin> set (dec_string n)"
  by (metis digit_char_neq_sign(1) set_dec_string)

lemma parse_base_append:
  "parse_base b (xs @ ys) acc =
     (case parse_base b xs acc of None \<Rightarrow> None | Some a \<Rightarrow> parse_base b ys a)"
  by (induction xs arbitrary: acc) (auto split: option.split)

lemma parse_dec_string [simp, text_simps]:
  "parse_base 10 (dec_string n) 0 = Some n"
proof (induction n rule: dec_string.induct)
  case (1 n)
  show ?case
  proof (cases "n < 10")
    case True
    then show ?thesis by (simp add: dec_string.simps [of n])
  next
    case False
    with 1 have "parse_base 10 (dec_string (n div 10)) 0 = Some (n div 10)" by simp
    with False show ?thesis
      by (simp add: dec_string.simps [of n] parse_base_append)
  qed
qed

lemma dec_string_inj: "dec_string m = dec_string n \<longleftrightarrow> m = n"
  by (metis option.inject parse_dec_string)

lemma sprintf_d_inj: "sprintf_d m = sprintf_d n \<longleftrightarrow> m = n"
proof
  assume eq: "sprintf_d m = sprintf_d n"
  have "m < 0 \<longleftrightarrow> n < 0"
    using eq dash_notin_dec_string by (metis list.set_intros(1) sprintf_d_def)
  with eq show "m = n" by (auto simp: sprintf_d_def dec_string_inj nat_eq_iff split: if_splits)
qed simp

lemma split_sign_dec_string [simp, text_simps]: "split_sign (dec_string n) = (False, dec_string n)"
proof (cases "dec_string n")
  case Nil
  then show ?thesis by simp
next
  case (Cons c cs)
  then obtain d where "d < 10" "c = digit_char d"
    using set_dec_string [of c n] by auto
  with Cons show ?thesis by (simp add: split_sign_def)
qed

text \<open>Printing a non-negative \<open>int\<close> and reading it back.\<close>

lemma go_atoi_sprintf_d [text_simps]:
  assumes "0 \<le> i" "i < 2 ^ 63"
  shows "go_atoi (sprintf_d i) = Some i"
  using assms
  by (simp add: go_atoi_def sprintf_d_def signed_value_def in_int64_def)

lemma dash_notin_sprintf_d: "0 \<le> i \<Longrightarrow> CHR ''-'' \<notin> set (sprintf_d i)"
  by (simp add: sprintf_d_def)

text \<open>Go's integer division truncates towards zero and panics on a zero divisor.\<close>

definition go_div :: "int \<Rightarrow> int \<Rightarrow> int res" where
  "go_div a b =
     (if b = 0 then Inl (GoPanic ''integer divide by zero'')
      else Inr (sgn a * sgn b * (\<bar>a\<bar> div \<bar>b\<bar>)))"

lemma go_div_pos [simp]: "0 \<le> a \<Longrightarrow> 0 < b \<Longrightarrow> go_div a b = Inr (a div b)"
  by (cases "a = 0") (simp_all add: go_div_def)

lemma go_div_zero [simp]: "go_div a 0 = Inl (GoPanic ''integer divide by zero'')"
  by (simp add: go_div_def)

subsection \<open>Strings\<close>

text \<open>\<open>strings.Split\<close> with a one-byte separator.\<close>

fun go_split :: "char \<Rightarrow> string \<Rightarrow> string list" where
  "go_split c [] = [[]]"
| "go_split c (x # xs) =
     (if x = c then [] # go_split c xs
      else case go_split c xs of [] \<Rightarrow> [[x]] | y # ys \<Rightarrow> (x # y) # ys)"

lemma go_split_nonempty [simp]: "go_split c s \<noteq> []"
  by (cases s) (auto split: list.split)

lemma go_split_no_sep: "c \<notin> set s \<Longrightarrow> go_split c s = [s]"
  by (induction s) auto

lemma go_split_sep [text_simps]: "c \<notin> set s \<Longrightarrow> go_split c (s @ c # t) = s # go_split c t"
  by (induction s) auto

text \<open>\<open>strings.ToUpper\<close> and \<open>strings.ToLower\<close> on ASCII names.\<close>

definition upper_char :: "char \<Rightarrow> char" where
  "upper_char c = (let n = of_char c :: nat in if 97 \<le> n \<and> n \<le> 122 then char_of (n - 32) else c)"

definition lower_char :: "char \<Rightarrow> char" where
  "lower_char c = (let n = of_char c :: nat in if 65 \<le> n \<and> n \<le> 90 then char_of (n + 32) else c)"

definition to_upper :: "string \<Rightarrow> string" where
  "to_upper = map upper_char"

definition to_lower :: "string \<Rightarrow> string" where
  "to_lower = map lower_char"

text \<open>\<open>strings.EqualFold\<close> and \<open>ColIdent.EqualString\<close> compare lower-cased names.\<close>

definition equal_fold :: "string \<Rightarrow> string \<Rightarrow> bool" where
  "equal_fold s t \<longleftrightarrow> to_lower s = to_lower t"

lemma equal_fold_refl [simp]: "equal_fold s s"
  by (simp add: equal_fold_def)

subsection \<open>Association lists\<close>

text \<open>
  A Go map is an association list with distinct keys: its order is the order in which a
  \<open>range\<close> loop happens to visit it, so a statement for every such list is a statement for every
  iteration order.
\<close>

abbreviation keys :: "('k \<times> 'v) list \<Rightarrow> 'k set" where
  "keys m \<equiv> fst ` set m"

definition distinct_keys :: "('k \<times> 'v) list \<Rightarrow> bool" where
  "distinct_keys m \<longleftrightarrow> distinct (map fst m)"

lemma distinct_keys_Nil [simp]: "distinct_keys []"
  by (simp add: distinct_keys_def)

lemma distinct_keys_update [simp, intro]: "distinct_keys m \<Longrightarrow> distinct_keys (AList.update k v m)"
  by (simp add: distinct_keys_def distinct_update)

lemma distinct_keys_delete [simp, intro]: "distinct_keys m \<Longrightarrow> distinct_keys (AList.delete k m)"
  by (simp add: distinct_keys_def distinct_delete)

lemma map_of_update [simp]: "map_of (AList.update k v m) = (map_of m)(k \<mapsto> v)"
  by (simp add: update_conv')

lemma map_of_delete [simp]: "map_of (AList.delete k m) = (map_of m)(k := None)"
  by (simp add: delete_conv')

lemma map_of_None_keys: "map_of m k = None \<longleftrightarrow> k \<notin> keys m"
  by (simp add: map_of_eq_None_iff)

lemma map_of_in_set: "distinct_keys m \<Longrightarrow> map_of m k = Some v \<longleftrightarrow> (k, v) \<in> set m"
  by (simp add: distinct_keys_def map_of_eq_Some_iff)

lemma keys_update [simp]: "keys (AList.update k v m) = insert k (keys m)"
  using dom_update [of k v m] by simp

lemma keys_delete [simp]: "keys (AList.delete k m) = keys m - {k}"
  using arg_cong [OF delete_keys, of set k m] by simp

lemma keys_map_of: "k \<in> keys m \<longleftrightarrow> (\<exists>v. map_of m k = Some v)"
  using map_of_None_keys [of m k] by auto

lemma map_of_filter_key:
  "map_of (filter (\<lambda>e. P (fst e)) m) k = (if P k then map_of m k else None)"
  by (induction m) auto

subsection \<open>Operations on a state\<close>

text \<open>
  An operation returns its result beside the state it leaves; the state changes made before an
  error stay, as they do in the code.
\<close>

type_synonym ('s, 'a) outcome = "'a res \<times> 's"

definition sbind :: "('s, 'a) outcome \<Rightarrow> ('a \<Rightarrow> 's \<Rightarrow> ('s, 'b) outcome) \<Rightarrow> ('s, 'b) outcome" where
  "sbind m f = (case m of (Inl e, s) \<Rightarrow> (Inl e, s) | (Inr x, s) \<Rightarrow> f x s)"

lemma sbind_Inl [simp, res_simps]: "sbind (Inl e, s) f = (Inl e, s)"
  by (simp add: sbind_def)

lemma sbind_Inr [simp, res_simps]: "sbind (Inr x, s) f = f x s"
  by (simp add: sbind_def)

lemma sbind_eq_Inr [res_simps]:
  "sbind m f = (Inr y, t) \<longleftrightarrow> (\<exists>x s. m = (Inr x, s) \<and> f x s = (Inr y, t))"
  by (auto simp: sbind_def split: prod.split sum.split)

fun sfold :: "('a \<Rightarrow> 's \<Rightarrow> ('s, unit) outcome) \<Rightarrow> 'a list \<Rightarrow> 's \<Rightarrow> ('s, unit) outcome" where
  "sfold f [] s = (Inr (), s)"
| "sfold f (x # xs) s = sbind (f x s) (\<lambda>_. sfold f xs)"

subsection \<open>Text replacement\<close>

text \<open>\<open>strings.Replace(s, old, new, 1)\<close>: the leftmost occurrence; an empty \<open>old\<close> matches at the start.\<close>

fun replace1 :: "string \<Rightarrow> string \<Rightarrow> string \<Rightarrow> string" where
  "replace1 old new s =
     (if take (length old) s = old then new @ drop (length old) s
      else case s of [] \<Rightarrow> [] | c # cs \<Rightarrow> c # replace1 old new cs)"

declare replace1.simps [simp del]

lemma replace1_prefix [simp]: "replace1 old new (old @ rest) = new @ rest"
  by (simp add: replace1.simps)

end
