(* ===== verification/Radon_Config.thy ===== *)
theory Radon_Config
  imports Radon_Prelude
begin

section \<open>Configuration records and SQL literals\<close>

text \<open>
  The tuples of \<open>src/src/config/config.go\<close> that the router and the scatter keep
  (\<open>PartitionConfig\<close>, \<open>TableConfig\<close>, \<open>RouterConfig\<close>, \<open>BackendConfig\<close>), the shard type names of
  \<open>src/src/router/types.go\<close>, and \<open>sqlparser.SQLVal\<close>, the literal a sharding key is compared with.
\<close>

record PartitionConfig =
  pTable :: string
  pSegment :: string
  pBackend :: string
  pListValue :: string

record TableConfig =
  tName :: string
  tSlots :: int
  tBlocks :: int
  tShardType :: string
  tShardKey :: string
  tPartitions :: "PartitionConfig list"
  tAutoIncrement :: "string option"

record RouterConfig =
  rSlots :: int
  rBlocks :: int

definition DefaultRouterConfig :: RouterConfig where
  "DefaultRouterConfig = \<lparr>rSlots = 4096, rBlocks = 64\<rparr>"

definition NormalBackend :: int where
  "NormalBackend = 0"

definition AttachBackend :: int where
  "AttachBackend = 1"

record BackendConfig =
  bName :: string
  bAddress :: string
  bReplica :: string
  bUser :: string
  bPassword :: string
  bDBName :: string
  bCharset :: string
  bMaxConnections :: int
  bRole :: int

subsection \<open>Shard types\<close>

abbreviation MethodTypeHash :: string where "MethodTypeHash \<equiv> ''HASH''"
abbreviation MethodTypeGlobal :: string where "MethodTypeGlobal \<equiv> ''GLOBAL''"
abbreviation MethodTypeSingle :: string where "MethodTypeSingle \<equiv> ''SINGLE''"
abbreviation MethodTypeList :: string where "MethodTypeList \<equiv> ''LIST''"

subsection \<open>SQL literals\<close>

datatype ValType = StrVal | IntVal | FloatVal | HexNum | HexVal | ValArg | StrValWithoutQuote

record SQLVal =
  svType :: ValType
  svVal :: string

end
