(* ===== verification/Radon_Jump.thy ===== *)
theory Radon_Jump
  imports Radon_Prelude
begin

unbundle bit_operations_syntax

section \<open>Jump consistent hashing\<close>

text \<open>
  The bucket function of the hash partitions: \<open>jump.Hash\<close> and \<open>jump.HashString\<close> of the vendored
  package \<open>lithammer/go-jump-consistent-hash\<close>, with \<open>hash/crc64\<close> (polynomial ECMA) as the key
  hasher. Keys are 64-bit words, the number of buckets is a signed 32-bit word. The one
  floating-point expression of the loop is computed on naturals with the roundings of IEEE
  double precision written out: a positive double is a pair of a mantissa and a binary scale.
  The theory shows that the loop ends and that its result is a bucket number.
\<close>

subsection \<open>Rounding to 53 significant bits\<close>

fun bit_length :: "nat \<Rightarrow> nat" where
  "bit_length n = (if n = 0 then 0 else Suc (bit_length (n div 2)))"

declare bit_length.simps [simp del]

text \<open>Round half to even of a quotient.\<close>

definition rne_div :: "nat \<Rightarrow> nat \<Rightarrow> nat" where
  "rne_div p q =
     (let d = p div q; r = p mod q
      in if 2 * r < q \<or> (2 * r = q \<and> even d) then d else Suc d)"

text \<open>An integer product as a double: 53 significant bits are kept.\<close>

definition round53 :: "nat \<Rightarrow> nat" where
  "round53 p = (let s = bit_length p - 53 in rne_div p (2 ^ s) * 2 ^ s)"

text \<open>
  \<open>float64(int64(1)<<31) / float64(m)\<close> for \<open>1 \<le> m \<le> 2 ^ 31\<close>: the mantissa and the number of
  fraction bits \<open>k\<close>, so that the value is \<open>mantissa / 2 ^ k\<close>.
\<close>

definition f64_quot :: "nat \<Rightarrow> nat \<times> nat" where
  "f64_quot m = (let k = 53 - bit_length (2 ^ 31 div m) in (rne_div (2 ^ 31 * 2 ^ k) m, k))"

text \<open>
  \<open>int64(float64(b+1) * (float64(int64(1)<<31) / float64((key>>33)+1)))\<close>.
\<close>

definition jump_step :: "nat \<Rightarrow> 64 word \<Rightarrow> nat" where
  "jump_step b key =
     (case f64_quot (unat (drop_bit 33 key) + 1) of
        (mant, k) \<Rightarrow> round53 ((b + 1) * mant) div 2 ^ k)"

lemma bit_length_lower: "0 < n \<Longrightarrow> 2 ^ (bit_length n - 1) \<le> n"
proof (induction n rule: bit_length.induct)
  case (1 n)
  show ?case
  proof (cases "n div 2 = 0")
    case True
    with 1(2) have "n = 1" by simp
    then show ?thesis by (simp add: bit_length.simps [of "Suc 0"] bit_length.simps [of 0])
  next
    case False
    with 1 have "2 ^ (bit_length (n div 2) - 1) \<le> n div 2" by simp
    moreover have "bit_length (n div 2) \<noteq> 0"
      using False by (subst bit_length.simps) simp
    ultimately have "2 * 2 ^ (bit_length (n div 2) - 1) \<le> n"
      by simp
    then show ?thesis
      using 1(2) \<open>bit_length (n div 2) \<noteq> 0\<close>
      by (simp add: bit_length.simps [of n] power_eq_if)
  qed
qed

lemma rne_div_ge: "p div q \<le> rne_div p q"
  by (simp add: rne_div_def Let_def)

text \<open>Rounding never falls below an integer multiple of the scale that the product has passed.\<close>

lemma round53_ge:
  assumes "c * 2 ^ k \<le> p" and "c \<le> 2 ^ 52"
  shows "c * 2 ^ k \<le> round53 p"
proof -
  define s where "s = bit_length p - 53"
  have r: "p div 2 ^ s * 2 ^ s \<le> round53 p"
    unfolding round53_def Let_def s_def [symmetric] by (rule mult_le_mono1 [OF rne_div_ge])
  show ?thesis
  proof (cases "s \<le> k")
    case True
    then have e: "(2::nat) ^ k = 2 ^ (k - s) * 2 ^ s" by (simp flip: power_add)
    with assms(1) have "c * 2 ^ (k - s) * 2 ^ s \<le> p" by (simp add: mult.assoc)
    then have "c * 2 ^ (k - s) \<le> p div 2 ^ s" by (simp add: less_eq_div_iff_mult_less_eq)
    then have "c * 2 ^ (k - s) * 2 ^ s \<le> p div 2 ^ s * 2 ^ s" by (rule mult_le_mono1)
    also have "\<dots> \<le> round53 p" by (rule r)
    finally show ?thesis by (simp only: e mult.assoc)
  next
    case False
    then have "s + 52 = bit_length p - 1" "0 < p"
      by (auto simp: s_def bit_length.simps [of p] split: if_splits)
    then have "2 ^ (s + 52) \<le> p" using bit_length_lower [of p] by simp
    then have "2 ^ 52 \<le> p div 2 ^ s"
      by (simp add: less_eq_div_iff_mult_less_eq power_add mult.commute)
    then have "2 ^ 52 * 2 ^ s \<le> round53 p" using r mult_le_mono1 order_trans by blast
    moreover have "c * 2 ^ k \<le> 2 ^ 52 * 2 ^ s"
      using assms(2) False by (intro mult_le_mono) (auto intro: power_increasing)
    ultimately show ?thesis by linarith
  qed
qed

lemma f64_quot_ge:
  assumes "0 < m" "m \<le> 2 ^ 31" "f64_quot m = (mant, k)"
  shows "2 ^ k \<le> mant"
proof -
  have "2 ^ k * m \<le> 2 ^ k * 2 ^ 31" using assms(2) by (rule mult_le_mono2)
  then have "2 ^ k \<le> 2 ^ 31 * 2 ^ k div m"
    using assms(1) by (simp add: less_eq_div_iff_mult_less_eq mult.commute)
  then show ?thesis
    using assms(3) rne_div_ge order_trans by (fastforce simp: f64_quot_def Let_def)
qed

lemma key_high_bits: "unat (drop_bit 33 (key :: 64 word)) + 1 \<le> 2 ^ 31"
proof -
  have "unat key < 2 ^ 64" using unsigned_less [of key, where 'a = nat] by simp
  then have "unat key div 2 ^ 33 < 2 ^ 31" by (simp add: less_mult_imp_div_less)
  then show ?thesis by (simp only: unat_drop_bit_eq drop_bit_nat_def)
qed

text \<open>The step of the loop goes strictly up.\<close>

lemma jump_step_gt:
  assumes "b < 2 ^ 31"
  shows "b < jump_step b key"
proof -
  obtain mant k where q: "f64_quot (unat (drop_bit 33 key) + 1) = (mant, k)"
    by fastforce
  have "2 ^ k \<le> mant"
    using q key_high_bits by (rule_tac f64_quot_ge [OF _ _ q]) auto
  then have "(b + 1) * 2 ^ k \<le> (b + 1) * mant" by (rule mult_le_mono2)
  then have "(b + 1) * 2 ^ k \<le> round53 ((b + 1) * mant)"
    using assms by (intro round53_ge) auto
  then have "b + 1 \<le> round53 ((b + 1) * mant) div 2 ^ k"
    by (simp add: less_eq_div_iff_mult_less_eq)
  with q show ?thesis by (simp add: jump_step_def)
qed

subsection \<open>The loop\<close>

function jump_loop :: "32 word \<Rightarrow> 64 word \<Rightarrow> nat \<Rightarrow> nat \<Rightarrow> nat" where
  "jump_loop buckets key b j =
     (if int j < sint buckets
      then let key' = key * 2862933555777941757 + 1
           in jump_loop buckets key' j (jump_step j key')
      else b)"
  by pat_completeness auto
termination
proof (relation "measure (\<lambda>(buckets, key, b, j). nat (sint buckets - int j))", goal_cases)
  case 1
  show ?case by simp
next
  case (2 buckets key b j key')
  have "sint buckets < 2 ^ 31" using sint_lt [of buckets] by simp
  with 2 have "int j < 2 ^ 31" by (rule_tac less_trans) simp_all
  then have "j < 2 ^ 31" by simp
  then have "j < jump_step j key'" by (rule jump_step_gt)
  with 2 show ?case by simp
qed

declare jump_loop.simps [simp del]

definition jump_hash :: "64 word \<Rightarrow> 32 word \<Rightarrow> int" where
  "jump_hash key buckets =
     int (jump_loop (if sint buckets \<le> 0 then 1 else buckets) key 0 0)"

lemma jump_loop_range:
  "int j < sint buckets \<or> int b < sint buckets \<Longrightarrow> int (jump_loop buckets key b j) < sint buckets"
proof (induction buckets key b j rule: jump_loop.induct)
  case (1 buckets key b j)
  then show ?case
    by (cases "int j < sint buckets") (simp_all add: jump_loop.simps [of buckets key b j] Let_def)
qed

lemma jump_hash_range:
  assumes "0 < sint buckets"
  shows "0 \<le> jump_hash key buckets \<and> jump_hash key buckets < sint buckets"
  using assms jump_loop_range [of 0 buckets 0 key] by (simp add: jump_hash_def)

text \<open>The loop with a bound on the number of turns: \<open>None\<close> when it is still running after them.\<close>

fun jump_turns :: "nat \<Rightarrow> 32 word \<Rightarrow> 64 word \<Rightarrow> nat \<Rightarrow> nat \<Rightarrow> nat option" where
  "jump_turns 0 buckets key b j = (if int j < sint buckets then None else Some b)"
| "jump_turns (Suc n) buckets key b j =
     (if int j < sint buckets
      then let key' = key * 2862933555777941757 + 1
           in jump_turns n buckets key' j (jump_step j key')
      else Some b)"

lemma jump_turns_loop:
  "nat (sint buckets - int j) \<le> n \<Longrightarrow> jump_turns n buckets key b j = Some (jump_loop buckets key b j)"
proof (induction n buckets key b j rule: jump_turns.induct)
  case (1 buckets key b j)
  then show ?case by (simp add: jump_loop.simps [of buckets key b j])
next
  case (2 n buckets key b j)
  show ?case
  proof (cases "int j < sint buckets")
    case True
    have "int j < 2 ^ 31" using True sint_lt [of buckets] by (simp add: less_trans)
    then have "j < 2 ^ 31" by simp
    from jump_step_gt [OF this, of "key * 2862933555777941757 + 1"] "2.prems" True
    have "nat (sint buckets - int (jump_step j (key * 2862933555777941757 + 1))) \<le> n" by linarith
    from "2.IH" [OF True refl this] True show ?thesis by (simp add: jump_loop.simps [of buckets key b j] Let_def)
  qed (simp add: jump_loop.simps [of buckets key b j])
qed

text \<open>C34: The loop of the jump hash ends for every key and every number of buckets, after at most one turn for each
  bucket, and the bucket it ends with is one of them: the rounding of the floating-point product never lets the
  position stand still.
\<close>

theorem jump_hash_terminates:
  "let n = (if sint buckets \<le> 0 then 1 else buckets)
   in \<exists>b. jump_turns (nat (sint n)) n key 0 0 = Some b \<and> int b < sint n \<and> jump_hash key buckets = int b"
proof -
  define n where "n = (if sint buckets \<le> 0 then 1 else buckets)"
  have "0 < sint n" by (simp add: n_def)
  then have "int (jump_loop n key 0 0) < sint n" by (intro jump_loop_range) simp
  with jump_turns_loop [of n 0 "nat (sint n)" key 0] show ?thesis
    unfolding n_def [symmetric] by (simp add: jump_hash_def flip: n_def)
qed

text \<open>What makes the hash consistent: one bucket more either keeps the bucket of a key or moves it to the new one.\<close>

lemma jump_loop_consistent:
  assumes "sint more = sint buckets + 1" "int b < sint buckets \<or> int j < sint buckets"
  shows "jump_loop more key b j = jump_loop buckets key b j \<or> int (jump_loop more key b j) = sint buckets"
  using assms
proof (induction buckets key b j rule: jump_loop.induct)
  case (1 buckets key b j)
  show ?case
  proof (cases "int j < sint buckets")
    case True
    then have "int j < sint more" using "1.prems"(1) by simp
    with True "1.IH" [OF True refl "1.prems"(1)] show ?thesis
      by (simp add: jump_loop.simps [of buckets key b j] jump_loop.simps [of more key b j] Let_def)
  next
    case False
    let ?key = "key * 2862933555777941757 + 1"
    have "jump_loop more ?key j (jump_step j ?key) = j" if "int j < sint more"
    proof -
      have "int j < 2 ^ 31" using that sint_lt [of more] by (simp add: less_trans)
      then have "j < jump_step j ?key" by (intro jump_step_gt) simp
      with False "1.prems" have "\<not> int (jump_step j ?key) < sint more" by linarith
      then show ?thesis by (simp add: jump_loop.simps [of more ?key j])
    qed
    with False "1.prems" show ?thesis
      by (auto simp: jump_loop.simps [of buckets key b j] jump_loop.simps [of more key b j] Let_def)
  qed
qed

lemma jump_hash_consistent:
  assumes "0 < sint buckets" "sint more = sint buckets + 1"
  shows "jump_hash key more = jump_hash key buckets \<or> jump_hash key more = sint buckets"
  using jump_loop_consistent [OF assms(2), of 0 0 key] assms by (simp add: jump_hash_def)

subsection \<open>CRC-64 of a string key\<close>

definition crc64_ECMA :: "64 word" where
  "crc64_ECMA = 0xC96C5795D7870F42"

definition crc64_bit :: "64 word \<Rightarrow> 64 word" where
  "crc64_bit crc = (if crc AND 1 = 1 then drop_bit 1 crc XOR crc64_ECMA else drop_bit 1 crc)"

definition crc64_entry :: "64 word \<Rightarrow> 64 word" where
  "crc64_entry i =
     crc64_bit (crc64_bit (crc64_bit (crc64_bit (crc64_bit (crc64_bit (crc64_bit (crc64_bit i)))))))"

definition crc64_byte :: "64 word \<Rightarrow> char \<Rightarrow> 64 word" where
  "crc64_byte crc c = crc64_entry ((crc XOR word_of_nat (of_char c)) AND 0xFF) XOR drop_bit 8 crc"

definition crc64 :: "string \<Rightarrow> 64 word" where
  "crc64 s = NOT (foldl crc64_byte (NOT 0) s)"

definition jump_hash_string :: "string \<Rightarrow> 32 word \<Rightarrow> int" where
  "jump_hash_string key buckets = jump_hash (crc64 key) buckets"

subsection \<open>Evaluation\<close>

lemma bit_length_eval:
  "bit_length 0 = 0" "bit_length (Suc 0) = 1"
  "bit_length (numeral w) = Suc (bit_length (numeral w div 2))"
  by (simp_all add: bit_length.simps [of 0] bit_length.simps [of "Suc 0"]
      bit_length.simps [of "numeral w"])

lemma jump_loop_eval:
  "int j < sint buckets \<Longrightarrow>
     jump_loop buckets key b j =
       jump_loop buckets (key * 2862933555777941757 + 1) j
         (jump_step j (key * 2862933555777941757 + 1))"
  "\<not> int j < sint buckets \<Longrightarrow> jump_loop buckets key b j = b"
  by (simp_all add: jump_loop.simps [of buckets key b j] Let_def)

lemmas jump_eval =
  bit_length_eval jump_loop_eval jump_step_def f64_quot_def round53_def rne_div_def jump_hash_def

end
