(* ===== verification/Radon_Partition.thy ===== *)
theory Radon_Partition
  imports Radon_Config Radon_Jump
begin

section \<open>Partition methods of the router\<close>

text \<open>
  \<open>src/src/router/partition.go\<close>, \<open>hash.go\<close>, \<open>list.go\<close>, \<open>global.go\<close> and \<open>single.go\<close>: a table's
  segments, and for each of the four partition methods the operations \<open>Build\<close>, \<open>Lookup\<close>,
  \<open>GetIndex\<close>, \<open>GetSegments\<close> and \<open>GetSegment\<close> of the interface \<open>Partition\<close>. The interface is
  the locale \<open>partition_method\<close>; \<open>sharded_method\<close> extends it with what a method promises that routes
  by a key. All four methods are interpretations of the first, hash and list of the second.

  A \<open>KeyRange\<close> value holds the pointer of a range object: the router compares ranges by
  identity. Its first component is the position of the partition that allocated the object, so
  two ranges of one table are the same object iff they are equal.
\<close>

subsection \<open>Segments\<close>

datatype KeyRange =
    NilRange
  | HashRange nat int int
  | ListRange nat string
  | GlobalRange nat string
  | SingleRange nat string

record Segment =
  sTable :: string
  sBackend :: string
  sRange :: KeyRange
  sListValue :: string

text \<open>The zero value of the struct, which a map read of a missing key returns.\<close>

definition zero_Segment :: Segment where
  "zero_Segment = \<lparr>sTable = [], sBackend = [], sRange = NilRange, sListValue = []\<rparr>"

fun KeyRange_String :: "KeyRange \<Rightarrow> string res" where
  "KeyRange_String NilRange = Inl (GoPanic ''nil KeyRange'')"
| "KeyRange_String (HashRange _ s e) = Inr (''['' @ sprintf_d s @ ''-'' @ sprintf_d e @ '')'')"
| "KeyRange_String (ListRange _ str) = Inr str"
| "KeyRange_String (GlobalRange _ str) = Inr str"
| "KeyRange_String (SingleRange _ str) = Inr str"

text \<open>\<open>Less\<close>: a hash range asserts that the other range is one too; the others answer false.\<close>

fun KeyRange_Less :: "KeyRange \<Rightarrow> KeyRange \<Rightarrow> bool res" where
  "KeyRange_Less NilRange _ = Inl (GoPanic ''nil KeyRange'')"
| "KeyRange_Less (HashRange _ s _) (HashRange _ s' _) = Inr (s < s')"
| "KeyRange_Less (HashRange _ _ _) _ = Inl (GoPanic ''interface conversion'')"
| "KeyRange_Less _ _ = Inr False"

definition Segments_Less :: "Segment \<Rightarrow> Segment \<Rightarrow> bool res" where
  "Segments_Less a b = KeyRange_Less (sRange a) (sRange b)"

fun range_start :: "KeyRange \<Rightarrow> int" where
  "range_start (HashRange _ s _) = s"
| "range_start _ = 0"

text \<open>The slots of a hash range, \<open>[start, end)\<close>.\<close>

fun range_slots :: "KeyRange \<Rightarrow> int set" where
  "range_slots (HashRange _ s e) = {s..<e}"
| "range_slots _ = {}"

subsection \<open>Hash\<close>

record hash =
  hSlots :: int
  hTyp :: string
  hConf :: TableConfig
  hPartitions :: "(int \<times> Segment) list"
  hSegments :: "Segment list"

definition NewHash :: "int \<Rightarrow> TableConfig \<Rightarrow> hash" where
  "NewHash slots conf =
     \<lparr>hSlots = slots, hTyp = MethodTypeHash, hConf = conf, hPartitions = [], hSegments = []\<rparr>"

text \<open>The text of a segment, \<open>"start-end"\<close>, with the checks of the loop body.\<close>

definition parse_segment :: "string \<Rightarrow> (int \<times> int) res" where
  "parse_segment seg =
     (case go_split (CHR ''-'') seg of
        [s, e] \<Rightarrow>
          (case go_atoi s of
             None \<Rightarrow> Inl (GoError ''hash.partition.segment.malformed[%v].start.can.not.parser.to.int'')
           | Some start \<Rightarrow>
               (case go_atoi e of
                  None \<Rightarrow> Inl (GoError ''hash.partition.segment.malformed[%v].end.can.not.parser.to.int'')
                | Some end \<Rightarrow>
                    if end \<le> start
                    then Inl (GoError ''hash.partition.segment.malformed[%v].start[%v]>=end[%v]'')
                    else Inr (start, end)))
      | _ \<Rightarrow> Inl (GoError ''hash.partition.segment.malformed[%v]''))"

text \<open>\<open>for i := start; i < end; i++\<close>, over the number of slots left.\<close>

fun bitmap :: "nat \<Rightarrow> int \<Rightarrow> Segment \<Rightarrow> (int \<times> Segment) list \<Rightarrow> (int \<times> Segment) list res" where
  "bitmap 0 i seg m = Inr m"
| "bitmap (Suc n) i seg m =
     (case map_of m i of
        Some _ \<Rightarrow> Inl (GoError ''hash.partition.segment[%v].overlapped[%v]'')
      | None \<Rightarrow> bitmap n (i + 1) seg ((i, seg) # m))"

definition Hash_build_part :: "nat \<times> PartitionConfig \<Rightarrow> hash \<Rightarrow> hash res" where
  "Hash_build_part = (\<lambda>(k, part) h.
     rbind (parse_segment (pSegment part)) (\<lambda>(start, end).
       let partition = \<lparr>sTable = pTable part, sBackend = pBackend part,
                        sRange = HashRange k start end, sListValue = []\<rparr>
       in rbind (bitmap (nat (end - start)) start partition (hPartitions h)) (\<lambda>m.
            Inr (h\<lparr>hPartitions := m, hSegments := hSegments h @ [partition]\<rparr>))))"

text \<open>
  \<open>Build\<close>. The receiver is a fresh object that its only caller drops when an error comes back.
  Starts are pairwise different once every partition is in, so the unstable \<open>sort.Sort\<close> has one
  result.
\<close>

definition Hash_Build :: "hash \<Rightarrow> hash res" where
  "Hash_Build h =
     rbind (fold_res Hash_build_part (enumerate 0 (tPartitions (hConf h))) h) (\<lambda>h'.
       if int (length (hPartitions h')) \<noteq> hSlots h'
       then Inl (GoError ''hash.partition.last.segment[%v].upper.bound.must.be[%v]'')
       else Inr (h'\<lparr>hSegments := sort_key (range_start \<circ> sRange) (hSegments h')\<rparr>))"

definition Hash_Clear :: "hash \<Rightarrow> hash" where
  "Hash_Clear h = h\<lparr>hPartitions := []\<rparr>"

text \<open>
  \<open>GetIndex\<close>. The parameter \<open>pf\<close> is \<open>uint64(strconv.ParseFloat(s, 64))\<close>: the conversion of a
  double to \<open>uint64\<close> is left to the implementation by the language where the value does not fit.
\<close>

type_synonym float_conv = "string \<Rightarrow> 64 word option"

definition Hash_GetIndex :: "float_conv \<Rightarrow> hash \<Rightarrow> SQLVal \<Rightarrow> int res" where
  "Hash_GetIndex pf h sqlval =
     (case svType sqlval of
        IntVal \<Rightarrow>
          (case go_parse_int0 (svVal sqlval) of
             None \<Rightarrow> Inl (GoError ''hash.getindex.val.key.parser.uint64.error:[%v]'')
           | Some u \<Rightarrow> Inr (jump_hash (word_of_int u) (word_of_int (hSlots h))))
      | FloatVal \<Rightarrow>
          (case pf (svVal sqlval) of
             None \<Rightarrow> Inl (GoError ''hash.getindex.val.key.parser.float.error:[%v]'')
           | Some u \<Rightarrow> Inr (jump_hash u (word_of_int (hSlots h))))
      | StrVal \<Rightarrow> Inr (jump_hash_string (svVal sqlval) (word_of_int (hSlots h)))
      | _ \<Rightarrow> Inl (GoError ''hash.unsupported.key.type:[%v]''))"

definition hash_slot :: "hash \<Rightarrow> int \<Rightarrow> Segment" where
  "hash_slot h idx = (case map_of (hPartitions h) idx of None \<Rightarrow> zero_Segment | Some s \<Rightarrow> s)"

definition Hash_Lookup ::
  "float_conv \<Rightarrow> hash \<Rightarrow> SQLVal option \<Rightarrow> SQLVal option \<Rightarrow> Segment list res" where
  "Hash_Lookup pf h start end =
     (case (start, end) of
        (Some s, Some e) \<Rightarrow>
          if svType s \<noteq> svType e
          then Inl (GoError ''hash.lookup.key.type.must.be.same:[%v!=%v]'')
          else if svVal s = svVal e
          then rbind (Hash_GetIndex pf h s) (\<lambda>idx. Inr [hash_slot h idx])
          else Inr (hSegments h)
      | _ \<Rightarrow> Inr (hSegments h))"

definition Hash_GetSegment :: "hash \<Rightarrow> int \<Rightarrow> Segment res" where
  "Hash_GetSegment h index =
     (if index < 0 \<or> hSlots h \<le> index
      then Inl (GoError ''hash.getsegment.index.[%d].out.of.range'')
      else Inr (hash_slot h index))"

subsection \<open>List\<close>

record list_method =
  lTyp :: string
  lConf :: TableConfig
  lSegments :: "Segment list"

definition NewList :: "TableConfig \<Rightarrow> list_method" where
  "NewList conf = \<lparr>lTyp = MethodTypeList, lConf = conf, lSegments = []\<rparr>"

definition List_Build :: "list_method \<Rightarrow> list_method res" where
  "List_Build l =
     Inr (l\<lparr>lSegments := lSegments l @
       map (\<lambda>(k, part). \<lparr>sTable = pTable part, sBackend = pBackend part,
                          sRange = ListRange k [], sListValue = pListValue part\<rparr>)
         (enumerate 0 (tPartitions (lConf l)))\<rparr>)"

text \<open>The first position of the segment list whose value is the literal's text.\<close>

fun find_list_value :: "string \<Rightarrow> Segment list \<Rightarrow> int \<Rightarrow> int option" where
  "find_list_value v [] i = None"
| "find_list_value v (s # ss) i = (if sListValue s = v then Some i else find_list_value v ss (i + 1))"

definition List_GetIndex :: "list_method \<Rightarrow> SQLVal \<Rightarrow> int res" where
  "List_GetIndex l sqlval =
     (case find_list_value (svVal sqlval) (lSegments l) 0 of
        None \<Rightarrow> Inl (GoError ''Table has no partition for value %v'')
      | Some idx \<Rightarrow> Inr idx)"

text \<open>A slice read, which panics outside the slice.\<close>

definition slice_get :: "'a list \<Rightarrow> int \<Rightarrow> 'a res" where
  "slice_get xs i =
     (if 0 \<le> i \<and> i < int (length xs) then Inr (xs ! nat i) else Inl (GoPanic ''index out of range''))"

definition List_Lookup ::
  "list_method \<Rightarrow> SQLVal option \<Rightarrow> SQLVal option \<Rightarrow> Segment list res" where
  "List_Lookup l start end =
     (case (start, end) of
        (Some s, Some e) \<Rightarrow>
          if svType s \<noteq> svType e
          then Inl (GoError ''list.lookup.key.type.must.be.same:[%v!=%v]'')
          else if svVal s = svVal e
          then rbind (List_GetIndex l s) (\<lambda>idx. rbind (slice_get (lSegments l) idx) (\<lambda>seg. Inr [seg]))
          else Inr (lSegments l)
      | _ \<Rightarrow> Inr (lSegments l))"

definition List_GetSegment :: "list_method \<Rightarrow> int \<Rightarrow> Segment res" where
  "List_GetSegment l index =
     (if int (length (lSegments l)) \<le> index
      then Inl (GoError ''single.getsegment.index.[%d].out.of.range'')
      else slice_get (lSegments l) index)"

subsection \<open>Global and single\<close>

record global_method =
  gTyp :: string
  gConf :: "TableConfig option"
  gSegments :: "Segment list"

definition NewGlobal :: "TableConfig option \<Rightarrow> global_method" where
  "NewGlobal conf = \<lparr>gTyp = MethodTypeGlobal, gConf = conf, gSegments = []\<rparr>"

definition Global_Build :: "global_method \<Rightarrow> global_method res" where
  "Global_Build g =
     (case gConf g of
        None \<Rightarrow> Inl (GoError ''table.config..can't.be.nil'')
      | Some conf \<Rightarrow>
          Inr (g\<lparr>gSegments := gSegments g @
            map (\<lambda>(k, part). \<lparr>sTable = pTable part, sBackend = pBackend part,
                               sRange = GlobalRange k [], sListValue = []\<rparr>)
              (enumerate 0 (tPartitions conf))\<rparr>))"

definition Global_Lookup ::
  "global_method \<Rightarrow> SQLVal option \<Rightarrow> SQLVal option \<Rightarrow> Segment list res" where
  "Global_Lookup g start end = Inr (gSegments g)"

definition Global_GetIndex :: "global_method \<Rightarrow> SQLVal \<Rightarrow> int res" where
  "Global_GetIndex g sqlval = Inr (- 1)"

definition Global_GetSegment :: "global_method \<Rightarrow> int \<Rightarrow> Segment res" where
  "Global_GetSegment g index =
     (if index < 0 \<or> int (length (gSegments g)) \<le> index
      then Inl (GoError ''global.getsegment.index.[%d].out.of.range'')
      else slice_get (gSegments g) index)"

record single_method =
  siTyp :: string
  siConf :: "TableConfig option"
  siSegments :: "Segment list"

definition NewSingle :: "TableConfig option \<Rightarrow> single_method" where
  "NewSingle conf = \<lparr>siTyp = MethodTypeSingle, siConf = conf, siSegments = []\<rparr>"

definition Single_Build :: "single_method \<Rightarrow> single_method res" where
  "Single_Build s =
     (case siConf s of
        None \<Rightarrow> Inl (GoError ''table.config..can't.be.nil'')
      | Some conf \<Rightarrow>
          Inr (s\<lparr>siSegments := siSegments s @
            map (\<lambda>(k, part). \<lparr>sTable = pTable part, sBackend = pBackend part,
                               sRange = SingleRange k [], sListValue = []\<rparr>)
              (enumerate 0 (tPartitions conf))\<rparr>))"

definition Single_Lookup ::
  "single_method \<Rightarrow> SQLVal option \<Rightarrow> SQLVal option \<Rightarrow> Segment list res" where
  "Single_Lookup s start end = Inr (siSegments s)"

definition Single_GetIndex :: "single_method \<Rightarrow> SQLVal \<Rightarrow> int res" where
  "Single_GetIndex s sqlval = Inr 0"

definition Single_GetSegment :: "single_method \<Rightarrow> int \<Rightarrow> Segment res" where
  "Single_GetSegment s index =
     (if int (length (siSegments s)) \<le> index
      then Inl (GoError ''single.getsegment.index.[%d].out.of.range'')
      else slice_get (siSegments s) index)"

subsection \<open>The interface value\<close>

datatype Partition =
    PHash hash
  | PGlobal global_method
  | PSingle single_method
  | PList list_method

fun Partition_Type :: "Partition \<Rightarrow> string" where
  "Partition_Type (PHash h) = hTyp h"
| "Partition_Type (PGlobal g) = gTyp g"
| "Partition_Type (PSingle s) = siTyp s"
| "Partition_Type (PList l) = lTyp l"

fun Partition_Lookup ::
  "float_conv \<Rightarrow> Partition \<Rightarrow> SQLVal option \<Rightarrow> SQLVal option \<Rightarrow> Segment list res" where
  "Partition_Lookup pf (PHash h) s e = Hash_Lookup pf h s e"
| "Partition_Lookup pf (PGlobal g) s e = Global_Lookup g s e"
| "Partition_Lookup pf (PSingle x) s e = Single_Lookup x s e"
| "Partition_Lookup pf (PList l) s e = List_Lookup l s e"

fun Partition_GetIndex :: "float_conv \<Rightarrow> Partition \<Rightarrow> SQLVal \<Rightarrow> int res" where
  "Partition_GetIndex pf (PHash h) v = Hash_GetIndex pf h v"
| "Partition_GetIndex pf (PGlobal g) v = Global_GetIndex g v"
| "Partition_GetIndex pf (PSingle x) v = Single_GetIndex x v"
| "Partition_GetIndex pf (PList l) v = List_GetIndex l v"

fun Partition_GetSegments :: "Partition \<Rightarrow> Segment list" where
  "Partition_GetSegments (PHash h) = hSegments h"
| "Partition_GetSegments (PGlobal g) = gSegments g"
| "Partition_GetSegments (PSingle x) = siSegments x"
| "Partition_GetSegments (PList l) = lSegments l"

fun Partition_GetSegment :: "Partition \<Rightarrow> int \<Rightarrow> Segment res" where
  "Partition_GetSegment (PHash h) i = Hash_GetSegment h i"
| "Partition_GetSegment (PGlobal g) i = Global_GetSegment g i"
| "Partition_GetSegment (PSingle x) i = Single_GetSegment x i"
| "Partition_GetSegment (PList l) i = List_GetSegment l i"

subsection \<open>The slot table a successful Build leaves\<close>

text \<open>
  \<open>build_inv\<close> ties the slot table to the segments built so far: a slot is assigned to a segment
  exactly when it lies in its range, no slot twice, and different segments have different range
  objects.
\<close>

definition build_inv :: "hash \<Rightarrow> bool" where
  "build_inv h \<longleftrightarrow>
     distinct_keys (hPartitions h) \<and>
     (\<forall>i s. (i, s) \<in> set (hPartitions h) \<longleftrightarrow> s \<in> set (hSegments h) \<and> i \<in> range_slots (sRange s)) \<and>
     (\<forall>s \<in> set (hSegments h). \<exists>k a b. sRange s = HashRange k a b \<and> 0 \<le> a \<and> a < b) \<and>
     inj_on sRange (set (hSegments h)) \<and> distinct (hSegments h)"

lemma go_atoi_nonneg:
  assumes "CHR ''-'' \<notin> set s" "go_atoi s = Some i"
  shows "0 \<le> i"
proof -
  have "\<not> fst (split_sign s)" using assms(1) by (auto simp: split_sign_def split: list.splits)
  with assms(2) show ?thesis
    by (auto simp: go_atoi_def signed_value_def Let_def split: prod.splits option.splits if_splits)
qed

lemma go_split_pieces: "t \<in> set (go_split c s) \<Longrightarrow> c \<notin> set t"
proof (induction s arbitrary: t)
  case Nil
  then show ?case by simp
next
  case (Cons x xs)
  then show ?case by (cases "go_split c xs") (auto split: if_splits)
qed

lemma parse_segment_bounds:
  assumes "parse_segment seg = Inr (a, b)"
  shows "0 \<le> a \<and> a < b"
proof -
  obtain s e where se: "go_split (CHR ''-'') seg = [s, e]" "go_atoi s = Some a" "go_atoi e = Some b"
      "a < b"
    using assms
    by (auto simp: parse_segment_def split: list.splits option.splits if_splits)
  have "CHR ''-'' \<notin> set s" using se(1) go_split_pieces [of s "CHR ''-''" seg] by simp
  with se show ?thesis using go_atoi_nonneg by blast
qed

lemma bitmap_result:
  assumes "bitmap n i seg m = Inr m'"
  shows "set m' = set m \<union> {i..<i + int n} \<times> {seg}
    \<and> (distinct_keys m \<longrightarrow> distinct_keys m') \<and> keys m \<inter> {i..<i + int n} = {}"
  using assms
proof (induction n i seg m rule: bitmap.induct)
  case (1 i seg m)
  then show ?case by simp
next
  case (2 n i seg m)
  then have none: "map_of m i = None" and rec: "bitmap n (i + 1) seg ((i, seg) # m) = Inr m'"
    by (auto split: option.splits)
  have split: "{i..<i + int (Suc n)} = insert i {i + 1..<i + 1 + int n}" by auto
  from none have notin: "i \<notin> keys m" by (simp add: map_of_None_keys)
  then have "distinct_keys m \<longrightarrow> distinct_keys ((i, seg) # m)"
    by (simp add: distinct_keys_def)
  with "2.IH" [OF none rec] notin show ?case
    unfolding split by auto
qed

lemma Hash_build_part_result:
  assumes "Hash_build_part (k, part) h = Inr h'"
  obtains a b seg m where
    "parse_segment (pSegment part) = Inr (a, b)"
    "sTable seg = pTable part" "sBackend seg = pBackend part" "sRange seg = HashRange k a b"
    "bitmap (nat (b - a)) a seg (hPartitions h) = Inr m"
    "h' = h\<lparr>hPartitions := m, hSegments := hSegments h @ [seg]\<rparr>"
proof -
  let ?seg = "\<lambda>a b. \<lparr>sTable = pTable part, sBackend = pBackend part, sRange = HashRange k a b,
                     sListValue = []\<rparr>"
  from assms obtain a b m where "parse_segment (pSegment part) = Inr (a, b)"
    "bitmap (nat (b - a)) a (?seg a b) (hPartitions h) = Inr m"
    "h' = h\<lparr>hPartitions := m, hSegments := hSegments h @ [?seg a b]\<rparr>"
    by (auto simp: Hash_build_part_def rbind_eq_Inr Let_def)
  then show thesis by (intro that [of a b "?seg a b" m]) simp_all
qed

lemma Hash_build_part_inv:
  assumes "Hash_build_part (k, part) h = Inr h'" and inv: "build_inv h"
  shows "build_inv h'"
proof -
  from assms(1) obtain a b seg m where p: "parse_segment (pSegment part) = Inr (a, b)"
    and seg: "sRange seg = HashRange k a b"
    and m: "bitmap (nat (b - a)) a seg (hPartitions h) = Inr m"
    and h': "h' = h\<lparr>hPartitions := m, hSegments := hSegments h @ [seg]\<rparr>"
    by (elim Hash_build_part_result)
  from p have ab: "0 \<le> a" "a < b" using parse_segment_bounds by blast+
  then have "a + int (nat (b - a)) = b" by simp
  with bitmap_result [OF m] have set_m: "set m = set (hPartitions h) \<union> {a..<b} \<times> {seg}"
    and d: "distinct_keys (hPartitions h) \<longrightarrow> distinct_keys m"
    and fresh: "keys (hPartitions h) \<inter> {a..<b} = {}" by simp_all
  have new_range: "sRange s \<noteq> sRange seg" if "s \<in> set (hSegments h)" for s
  proof
    assume "sRange s = sRange seg"
    with that inv ab seg have "(a, s) \<in> set (hPartitions h)" by (auto simp: build_inv_def)
    with fresh ab show False by force
  qed
  then have "seg \<notin> set (hSegments h)" by blast
  then show ?thesis
    using inv ab set_m d seg new_range
    by (auto simp: h' build_inv_def inj_on_insert image_iff)
qed

lemma fold_build_inv:
  "fold_res Hash_build_part ps h = Inr h' \<Longrightarrow> build_inv h \<Longrightarrow> build_inv h'"
  by (rule fold_res_invariant [where P = build_inv]) (auto intro: Hash_build_part_inv)

lemma fold_build_conf:
  assumes "fold_res Hash_build_part ps h = Inr h'"
  shows "hSlots h' = hSlots h \<and> hConf h' = hConf h \<and> hTyp h' = hTyp h"
  using assms
  by (rule fold_res_invariant [where P = "\<lambda>x. hSlots x = hSlots h \<and> hConf x = hConf h \<and> hTyp x = hTyp h"])
    (auto elim!: Hash_build_part_result)

lemma build_inv_NewHash: "build_inv (NewHash slots conf)"
  by (simp add: build_inv_def NewHash_def)

lemma Hash_Build_result:
  assumes "Hash_Build (NewHash slots conf) = Inr h"
  shows "build_inv h \<and> hSlots h = slots \<and> hTyp h = MethodTypeHash \<and> hConf h = conf
    \<and> int (length (hPartitions h)) = slots \<and> sorted (map (range_start \<circ> sRange) (hSegments h))"
proof -
  from assms obtain h' where f:
      "fold_res Hash_build_part (enumerate 0 (tPartitions conf)) (NewHash slots conf) = Inr h'"
    and len: "int (length (hPartitions h')) = hSlots h'"
    and h: "h = h'\<lparr>hSegments := sort_key (range_start \<circ> sRange) (hSegments h')\<rparr>"
    by (auto simp: Hash_Build_def rbind_eq_Inr NewHash_def split: if_splits)
  have "build_inv h'" by (rule fold_build_inv [OF f build_inv_NewHash])
  then have "build_inv h" by (simp add: h build_inv_def)
  with fold_build_conf [OF f] len show ?thesis
    by (simp add: h NewHash_def)
qed

text \<open>
  \<open>Build\<close> checks the number of slots, not where they lie. A table whose segments stay below the slot
  count is fully assigned: \<open>hash_inv\<close>.
\<close>

definition hash_inv :: "hash \<Rightarrow> bool" where
  "hash_inv h \<longleftrightarrow>
     0 < hSlots h \<and> hSlots h < 2 ^ 31 \<and> build_inv h \<and> keys (hPartitions h) = {0..<hSlots h}"

lemma build_inv_keys_nonneg: "build_inv h \<Longrightarrow> i \<in> keys (hPartitions h) \<Longrightarrow> 0 \<le> i"
  by (fastforce simp: build_inv_def)

lemma build_inv_keys:
  assumes "build_inv h"
  shows "i \<in> keys (hPartitions h) \<longleftrightarrow> (\<exists>s \<in> set (hSegments h). i \<in> range_slots (sRange s))"
proof -
  have "i \<in> keys (hPartitions h) \<longleftrightarrow> (\<exists>s. (i, s) \<in> set (hPartitions h))" by force
  also have "\<dots> \<longleftrightarrow> (\<exists>s \<in> set (hSegments h). i \<in> range_slots (sRange s))"
    using assms by (auto simp: build_inv_def)
  finally show ?thesis .
qed

lemma Hash_Build_hash_inv:
  assumes "Hash_Build (NewHash slots conf) = Inr h" and "0 < slots" "slots < 2 ^ 31"
    and "\<forall>s \<in> set (hSegments h). range_slots (sRange s) \<subseteq> {..<slots}"
  shows "hash_inv h"
proof -
  note res = Hash_Build_result [OF assms(1)]
  have sub: "keys (hPartitions h) \<subseteq> {0..<slots}"
  proof
    fix i assume "i \<in> keys (hPartitions h)"
    with res have "0 \<le> i" "\<exists>s \<in> set (hSegments h). i \<in> range_slots (sRange s)"
      using build_inv_keys_nonneg build_inv_keys by blast+
    with assms(4) show "i \<in> {0..<slots}" by auto
  qed
  have "card (keys (hPartitions h)) = length (hPartitions h)"
    using res distinct_card [of "map fst (hPartitions h)"] by (simp add: build_inv_def distinct_keys_def)
  moreover have "nat slots = length (hPartitions h)" using res by auto
  ultimately have "card (keys (hPartitions h)) = card {0..<slots}" by simp
  with sub have "keys (hPartitions h) = {0..<slots}" by (simp add: card_subset_eq)
  with res assms(2,3) show ?thesis by (simp add: hash_inv_def)
qed

lemma hash_slot_correct:
  assumes "hash_inv h" "0 \<le> i" "i < hSlots h"
  shows "hash_slot h i \<in> set (hSegments h) \<and> i \<in> range_slots (sRange (hash_slot h i))"
proof -
  from assms have "i \<in> keys (hPartitions h)" by (simp add: hash_inv_def)
  then obtain s where s: "map_of (hPartitions h) i = Some s"
    by (metis map_of_None_keys option.exhaust)
  with assms(1) have "(i, s) \<in> set (hPartitions h)"
    by (simp add: hash_inv_def build_inv_def map_of_in_set)
  with assms(1) s show ?thesis by (auto simp: hash_inv_def build_inv_def hash_slot_def)
qed

lemma hash_slot_unique:
  assumes "hash_inv h" "s \<in> set (hSegments h)" "i \<in> range_slots (sRange s)"
  shows "hash_slot h i = s"
proof -
  from assms have "(i, s) \<in> set (hPartitions h)" by (auto simp: hash_inv_def build_inv_def)
  with assms(1) have "map_of (hPartitions h) i = Some s"
    by (simp add: hash_inv_def build_inv_def map_of_in_set)
  then show ?thesis by (simp add: hash_slot_def)
qed

lemma sint_slots:
  assumes "0 < n" "n < 2 ^ 31"
  shows "sint (word_of_int n :: 32 word) = n"
  using assms by (simp add: signed_of_int signed_take_bit_int_eq_self)

lemma Hash_GetIndex_range:
  assumes "hash_inv h" "Hash_GetIndex pf h v = Inr i"
  shows "0 \<le> i \<and> i < hSlots h"
proof -
  have s: "sint (word_of_int (hSlots h) :: 32 word) = hSlots h"
    using assms(1) by (intro sint_slots) (simp_all add: hash_inv_def)
  have "0 < sint (word_of_int (hSlots h) :: 32 word)"
    using assms(1) unfolding s by (simp add: hash_inv_def)
  note jump_hash_range [OF this, unfolded s]
  with assms(2) show ?thesis
    by (auto simp: Hash_GetIndex_def jump_hash_string_def split: ValType.splits option.splits)
qed

subsection \<open>Segments by position: the other three methods\<close>

definition indexed_by :: "(nat \<Rightarrow> string \<Rightarrow> KeyRange) \<Rightarrow> Segment list \<Rightarrow> bool" where
  "indexed_by mk segs \<longleftrightarrow> (\<forall>i < length segs. sRange (segs ! i) = mk i [])"

definition list_inv :: "list_method \<Rightarrow> bool" where
  "list_inv l \<longleftrightarrow> indexed_by ListRange (lSegments l)"

definition global_inv :: "global_method \<Rightarrow> bool" where
  "global_inv g \<longleftrightarrow> indexed_by GlobalRange (gSegments g)"

definition single_inv :: "single_method \<Rightarrow> bool" where
  "single_inv s \<longleftrightarrow> indexed_by SingleRange (siSegments s)"

lemma indexed_by_inj:
  assumes "indexed_by mk segs" and "\<And>i j. mk i [] = mk j [] \<Longrightarrow> i = j"
  shows "inj_on sRange (set segs)"
proof (rule inj_onI)
  fix s t assume "s \<in> set segs" "t \<in> set segs" "sRange s = sRange t"
  then obtain i j where "i < length segs" "j < length segs" "s = segs ! i" "t = segs ! j"
    by (auto simp: in_set_conv_nth)
  with assms \<open>sRange s = sRange t\<close> show "s = t" by (auto simp: indexed_by_def)
qed

lemma indexed_by_map_enumerate:
  assumes "\<And>k part. sRange (f (k, part)) = mk k []"
  shows "indexed_by mk (map f (enumerate 0 ps))"
  using assms by (simp add: indexed_by_def nth_enumerate_eq)

lemma List_Build_inv: "List_Build (NewList conf) = Inr l \<Longrightarrow> list_inv l"
  by (auto simp: List_Build_def NewList_def list_inv_def intro!: indexed_by_map_enumerate)

lemma Global_Build_inv: "Global_Build (NewGlobal conf) = Inr g \<Longrightarrow> global_inv g"
  by (auto simp: Global_Build_def NewGlobal_def global_inv_def
      intro!: indexed_by_map_enumerate split: option.splits)

lemma Single_Build_inv: "Single_Build (NewSingle conf) = Inr s \<Longrightarrow> single_inv s"
  by (auto simp: Single_Build_def NewSingle_def single_inv_def
      intro!: indexed_by_map_enumerate split: option.splits)

lemma find_list_value_bounds:
  "find_list_value v ss i = Some j \<Longrightarrow>
     i \<le> j \<and> j < i + int (length ss) \<and> sListValue (ss ! nat (j - i)) = v"
proof (induction ss arbitrary: i)
  case Nil
  then show ?case by simp
next
  case (Cons s ss)
  show ?case
  proof (cases "sListValue s = v")
    case True
    with Cons.prems show ?thesis by simp
  next
    case False
    with Cons have "i + 1 \<le> j \<and> j < i + 1 + int (length ss) \<and> sListValue (ss ! nat (j - (i + 1))) = v"
      by simp
    moreover from this have "nat (j - i) = Suc (nat (j - (i + 1)))" by arith
    ultimately show ?thesis by simp
  qed
qed

lemma find_list_value_exists: "s \<in> set ss \<Longrightarrow> \<exists>j. find_list_value (sListValue s) ss i = Some j"
  by (induction ss arbitrary: i) auto

lemma List_GetIndex_segment:
  assumes "List_GetIndex l v = Inr i"
  shows "\<exists>s \<in> set (lSegments l). slice_get (lSegments l) i = Inr s \<and> sListValue s = svVal v
    \<and> i < int (length (lSegments l))"
  using assms find_list_value_bounds [of "svVal v" "lSegments l" 0 i]
  by (auto simp: List_GetIndex_def slice_get_def split: option.splits)

lemma slice_get_in_set: "slice_get xs i = Inr x \<Longrightarrow> x \<in> set xs"
  by (auto simp: slice_get_def split: if_splits)

subsection \<open>The interface Partition\<close>

text \<open>
  What the router relies on for every method: an open interval returns all segments, whatever is
  returned is one of the table's segments, and a range object belongs to one segment.
\<close>

locale partition_method =
  fixes inv :: "'p \<Rightarrow> bool"
    and lookup :: "'p \<Rightarrow> SQLVal option \<Rightarrow> SQLVal option \<Rightarrow> Segment list res"
    and get_index :: "'p \<Rightarrow> SQLVal \<Rightarrow> int res"
    and get_segments :: "'p \<Rightarrow> Segment list"
    and get_segment :: "'p \<Rightarrow> int \<Rightarrow> Segment res"
  assumes lookup_open: "inv p \<Longrightarrow> s = None \<or> e = None \<Longrightarrow> lookup p s e = Inr (get_segments p)"
    and lookup_sub: "inv p \<Longrightarrow> lookup p s e = Inr segs \<Longrightarrow> set segs \<subseteq> set (get_segments p)"
    and get_segment_in: "inv p \<Longrightarrow> get_segment p i = Inr seg \<Longrightarrow> seg \<in> set (get_segments p)"
    and range_inj: "inv p \<Longrightarrow> inj_on sRange (set (get_segments p))"

text \<open>
  A method that routes by key: the lookup of one value is the segment of its index, and an index
  the method computes always has a segment.
\<close>

locale sharded_method = partition_method +
  assumes lookup_value:
      "inv p \<Longrightarrow> lookup p (Some v) (Some v) =
        rbind (get_index p v) (\<lambda>i. rbind (get_segment p i) (\<lambda>seg. Inr [seg]))"
    and index_has_segment: "inv p \<Longrightarrow> get_index p v = Inr i \<Longrightarrow> \<exists>seg. get_segment p i = Inr seg"
begin

lemma lookup_value_single:
  assumes "inv p" "lookup p (Some v) (Some v) = Inr segs"
  shows "\<exists>i seg. get_index p v = Inr i \<and> get_segment p i = Inr seg \<and> segs = [seg]
    \<and> seg \<in> set (get_segments p)"
  using assms get_segment_in by (fastforce simp: lookup_value rbind_eq_Inr)

lemma lookup_value_total:
  assumes "inv p" "get_index p v = Inr i"
  shows "\<exists>seg. lookup p (Some v) (Some v) = Inr [seg] \<and> get_segment p i = Inr seg"
  using assms index_has_segment [OF assms] by (auto simp: lookup_value)

end

interpretation hash_m: sharded_method hash_inv "Hash_Lookup pf" "Hash_GetIndex pf" hSegments
  Hash_GetSegment for pf
proof (unfold_locales, goal_cases)
  case (1 p s e)
  then show ?case by (auto simp: Hash_Lookup_def split: option.split)
next
  case (2 p s e segs)
  then show ?case
    using Hash_GetIndex_range [OF 2(1)] hash_slot_correct [OF 2(1)]
    by (auto simp: Hash_Lookup_def rbind_eq_Inr split: option.splits if_splits)
next
  case (3 p i seg)
  then show ?case
    using hash_slot_correct [OF 3(1)] by (auto simp: Hash_GetSegment_def split: if_splits)
next
  case (4 p)
  then show ?case by (simp add: hash_inv_def build_inv_def)
next
  case (5 p v)
  then show ?case
    by (cases "Hash_GetIndex pf p v")
      (auto simp: Hash_Lookup_def Hash_GetSegment_def dest: Hash_GetIndex_range)
next
  case (6 p v i)
  from Hash_GetIndex_range [OF this] show ?case by (simp add: Hash_GetSegment_def)
qed

interpretation list_m: sharded_method list_inv List_Lookup List_GetIndex lSegments List_GetSegment
proof (unfold_locales, goal_cases)
  case (1 p s e)
  then show ?case by (auto simp: List_Lookup_def split: option.split)
next
  case (2 p s e segs)
  then show ?case
    by (auto simp: List_Lookup_def rbind_eq_Inr split: option.splits if_splits dest: slice_get_in_set)
next
  case (3 p i seg)
  then show ?case by (auto simp: List_GetSegment_def dest: slice_get_in_set split: if_splits)
next
  case (4 p)
  then show ?case by (auto simp: list_inv_def intro: indexed_by_inj)
next
  case (5 p v)
  then show ?case
    by (cases "List_GetIndex p v")
      (auto simp: List_Lookup_def List_GetSegment_def dest: List_GetIndex_segment)
next
  case (6 p v i)
  from List_GetIndex_segment [OF 6(2)] show ?case by (auto simp: List_GetSegment_def)
qed

interpretation global_m: partition_method global_inv Global_Lookup Global_GetIndex gSegments
  Global_GetSegment
  by unfold_locales
    (auto simp: Global_Lookup_def Global_GetSegment_def global_inv_def
      dest: slice_get_in_set split: if_splits intro: indexed_by_inj)

interpretation single_m: partition_method single_inv Single_Lookup Single_GetIndex siSegments
  Single_GetSegment
  by unfold_locales
    (auto simp: Single_Lookup_def Single_GetSegment_def single_inv_def
      dest: slice_get_in_set split: if_splits intro: indexed_by_inj)

text \<open>The interface value dispatches to the four methods and keeps the contract.\<close>

fun Partition_inv :: "Partition \<Rightarrow> bool" where
  "Partition_inv (PHash h) = hash_inv h"
| "Partition_inv (PGlobal g) = global_inv g"
| "Partition_inv (PSingle s) = single_inv s"
| "Partition_inv (PList l) = list_inv l"

interpretation part_m: partition_method Partition_inv "Partition_Lookup pf" "Partition_GetIndex pf"
  Partition_GetSegments Partition_GetSegment for pf
proof (unfold_locales, goal_cases)
  case (1 p s e)
  then show ?case
    using hash_m.lookup_open list_m.lookup_open global_m.lookup_open single_m.lookup_open
    by (cases p) simp_all
next
  case (2 p s e segs)
  then show ?case
    using hash_m.lookup_sub list_m.lookup_sub global_m.lookup_sub single_m.lookup_sub
    by (cases p) simp_all
next
  case (3 p i seg)
  then show ?case
    using hash_m.get_segment_in list_m.get_segment_in global_m.get_segment_in single_m.get_segment_in
    by (cases p) simp_all
next
  case (4 p)
  then show ?case
    using hash_m.range_inj list_m.range_inj global_m.range_inj single_m.range_inj
    by (cases p) simp_all
qed

text \<open>The two sharded methods together, as the planner sees them.\<close>

fun Sharded_inv :: "Partition \<Rightarrow> bool" where
  "Sharded_inv (PHash h) = hash_inv h"
| "Sharded_inv (PList l) = list_inv l"
| "Sharded_inv _ = False"

lemma Sharded_inv_Partition_inv: "Sharded_inv p \<Longrightarrow> Partition_inv p"
  by (cases p) simp_all

interpretation shard_m: sharded_method Sharded_inv "Partition_Lookup pf" "Partition_GetIndex pf"
  Partition_GetSegments Partition_GetSegment for pf
proof (unfold_locales, goal_cases)
  case (1 p s e)
  then show ?case by (metis Sharded_inv_Partition_inv part_m.lookup_open)
next
  case (2 p s e segs)
  then show ?case by (metis Sharded_inv_Partition_inv part_m.lookup_sub)
next
  case (3 p i seg)
  then show ?case by (metis Sharded_inv_Partition_inv part_m.get_segment_in)
next
  case (4 p)
  then show ?case by (metis Sharded_inv_Partition_inv part_m.range_inj)
next
  case (5 p v)
  then show ?case
    using hash_m.lookup_value list_m.lookup_value by (cases p) simp_all
next
  case (6 p v i)
  then show ?case
    using hash_m.index_has_segment list_m.index_has_segment by (cases p) simp_all
qed

subsection \<open>Properties\<close>

text \<open>C16: once \<open>Build\<close> accepts a hash table whose segments stay below the slot count (which \<open>Build\<close> does
  not check), exactly one segment of the table, by its position, holds the slot that the jump
  consistent hash gives an integer key, and looking up the key returns that segment.\<close>

theorem Hash_Lookup_routes:
  assumes "Hash_Build (NewHash slots conf) = Inr h" "0 < slots" "slots < 2 ^ 31"
    and "\<forall>s \<in> set (hSegments h). range_slots (sRange s) \<subseteq> {..<slots}"
    and "svType v = IntVal" "go_parse_int0 (svVal v) = Some u"
  defines "slot \<equiv> jump_hash (word_of_int u) (word_of_int slots)"
  shows "\<exists>i < length (hSegments h).
      (\<forall>j < length (hSegments h). slot \<in> range_slots (sRange (hSegments h ! j)) \<longleftrightarrow> j = i)
    \<and> Hash_Lookup pf h (Some v) (Some v) = Inr [hSegments h ! i]"
proof -
  have inv: "hash_inv h" using Hash_Build_hash_inv assms(1-4) by blast
  have "hSlots h = slots" using Hash_Build_result [OF assms(1)] by simp
  then have idx: "Hash_GetIndex pf h v = Inr slot" using assms(5,6) by (simp add: Hash_GetIndex_def slot_def)
  from Hash_GetIndex_range [OF inv idx] hash_slot_correct [OF inv]
  have c: "hash_slot h slot \<in> set (hSegments h)" "slot \<in> range_slots (sRange (hash_slot h slot))" by blast+
  then obtain i where i: "i < length (hSegments h)" "hSegments h ! i = hash_slot h slot"
    by (auto simp: in_set_conv_nth)
  have "distinct (hSegments h)" using inv by (simp add: hash_inv_def build_inv_def)
  then have "slot \<in> range_slots (sRange (hSegments h ! j)) \<longleftrightarrow> j = i" if "j < length (hSegments h)" for j
    using hash_slot_unique [OF inv nth_mem [OF that], of slot] i c(2) that nth_eq_iff_index_eq by metis
  moreover have "Hash_Lookup pf h (Some v) (Some v) = Inr [hSegments h ! i]"
    by (simp add: Hash_Lookup_def idx i(2))
  ultimately show ?thesis using i(1) by blast
qed

text \<open>A table of two slots and two segments.\<close>

definition two_slots :: TableConfig where
  "two_slots = \<lparr>tName = ''t'', tSlots = 2, tBlocks = 1, tShardType = MethodTypeHash, tShardKey = ''id'',
     tPartitions = [\<lparr>pTable = ''t_0000'', pSegment = ''0-1'', pBackend = ''b1'', pListValue = []\<rparr>,
                    \<lparr>pTable = ''t_0001'', pSegment = ''1-2'', pBackend = ''b2'', pListValue = []\<rparr>],
     tAutoIncrement = None\<rparr>"

definition two_slots_built :: hash where
  "two_slots_built =
     (let s0 = \<lparr>sTable = ''t_0000'', sBackend = ''b1'', sRange = HashRange 0 0 1, sListValue = []\<rparr>;
          s1 = \<lparr>sTable = ''t_0001'', sBackend = ''b2'', sRange = HashRange 1 1 2, sListValue = []\<rparr>
      in \<lparr>hSlots = 2, hTyp = MethodTypeHash, hConf = two_slots,
          hPartitions = [(1, s1), (0, s0)], hSegments = [s0, s1]\<rparr>)"

lemma parse_segment_two: "parse_segment ''0-1'' = Inr (0, 1)" "parse_segment ''1-2'' = Inr (1, 2)"
  by (simp_all add: parse_segment_def go_atoi_def split_sign_def signed_value_def digit_value_def in_int64_def)

lemma Hash_Build_two_slots: "Hash_Build (NewHash 2 two_slots) = Inr two_slots_built"
  by (simp add: Hash_Build_def NewHash_def two_slots_def Hash_build_part_def parse_segment_two
      two_slots_built_def Let_def eval_nat_numeral)

lemma two_slots_below:
  "\<forall>s \<in> set (hSegments two_slots_built). range_slots (sRange s) \<subseteq> {..<2}"
  by (auto simp: two_slots_built_def Let_def)

lemma go_parse_int0_7: "go_parse_int0 ''7'' = Some 7"
  by (simp add: go_parse_int0_def parse_uint_base0_def split_sign_def signed_value_def digit_value_def
      in_int64_def)

lemma Hash_Lookup_routes_witness:
  "length (hSegments two_slots_built) = 2
   \<and> (\<exists>i < length (hSegments two_slots_built).
      (\<forall>j < length (hSegments two_slots_built).
         jump_hash (word_of_int 7) (word_of_int 2) \<in> range_slots (sRange (hSegments two_slots_built ! j)) \<longleftrightarrow> j = i)
      \<and> Hash_Lookup (\<lambda>_. None) two_slots_built (Some \<lparr>svType = IntVal, svVal = ''7''\<rparr>)
          (Some \<lparr>svType = IntVal, svVal = ''7''\<rparr>) = Inr [hSegments two_slots_built ! i])"
proof
  show "length (hSegments two_slots_built) = 2" by (simp add: two_slots_built_def Let_def)
qed (rule Hash_Lookup_routes [OF Hash_Build_two_slots _ _ two_slots_below]; simp add: go_parse_int0_7)

text \<open>\<open>Build\<close> counts the assigned slots and never looks at where the segments lie: the one segment
  \<open>1-5\<close> is accepted for four slots, slot 0 then belongs to no segment, and reading it gives the zero
  segment, with no table and no backend.\<close>

theorem Hash_Build_accepts_gap:
  "\<exists>h. Hash_Build (NewHash 4 (two_slots\<lparr>tPartitions :=
        [\<lparr>pTable = ''t_0000'', pSegment = ''1-5'', pBackend = ''b1'', pListValue = []\<rparr>]\<rparr>)) = Inr h
    \<and> Hash_GetSegment h 0 = Inr zero_Segment"
proof -
  have "parse_segment ''1-5'' = Inr (1, 5)"
    by (simp add: parse_segment_def go_atoi_def split_sign_def signed_value_def digit_value_def in_int64_def)
  then show ?thesis
    by (simp add: Hash_Build_def NewHash_def two_slots_def Hash_build_part_def Let_def eval_nat_numeral
        Hash_GetSegment_def hash_slot_def)
qed

end
