(* ===== verification/Radon_Sql.thy ===== *)
theory Radon_Sql
  imports Radon_Config
begin

section \<open>SQL expressions\<close>

text \<open>
  The expression nodes of \<open>sqlparser/ast.go\<close> that routing and planning look at, with the source's
  constructors. Nodes that the modelled code never inspects (\<open>IntervalExpr\<close>, \<open>CollateExpr\<close>,
  \<open>GroupConcatExpr\<close>, \<open>ValuesFuncExpr\<close>, \<open>ConvertExpr\<close>, \<open>ConvertUsingExpr\<close>, \<open>MatchExpr\<close>,
  \<open>CaseExpr\<close>, \<open>Default\<close>) are \<open>OtherExpr\<close> with their kind and their sub-expressions; a \<open>Subquery\<close>
  keeps its text and the expressions inside it.
\<close>

record TableName =
  tnName :: string
  tnQualifier :: string

record ColName =
  cnName :: string
  cnQualifier :: TableName

datatype expr =
    AndExpr expr expr
  | OrExpr expr expr
  | NotExpr expr
  | ParenExpr expr
  | ComparisonExpr string expr expr "expr option"
  | RangeCond string expr expr expr
  | IsExpr string expr
  | ExistsExpr expr
  | SQLValE SQLVal
  | NullVal
  | BoolVal bool
  | ColNameE ColName
  | ValTuple "expr list"
  | Subquery string "expr list"
  | ListArg string
  | BinaryExpr string expr expr
  | UnaryExpr string expr
  | FuncExpr string string bool "expr list"
  | OtherExpr string "expr list"

abbreviation EqualStr :: string where "EqualStr \<equiv> ''=''"
abbreviation LessThanStr :: string where "LessThanStr \<equiv> ''<''"
abbreviation GreaterThanStr :: string where "GreaterThanStr \<equiv> ''>''"
abbreviation LessEqualStr :: string where "LessEqualStr \<equiv> ''<=''"
abbreviation GreaterEqualStr :: string where "GreaterEqualStr \<equiv> ''>=''"
abbreviation NotEqualStr :: string where "NotEqualStr \<equiv> ''!=''"
abbreviation NullSafeEqualStr :: string where "NullSafeEqualStr \<equiv> ''<=>''"
abbreviation InStr :: string where "InStr \<equiv> ''in''"

text \<open>\<open>ColName.Equal\<close>: the column name ignores case, the qualifier does not.\<close>

definition ColName_Equal :: "ColName \<Rightarrow> ColName \<Rightarrow> bool" where
  "ColName_Equal a b \<longleftrightarrow> equal_fold (cnName a) (cnName b) \<and> cnQualifier a = cnQualifier b"

text \<open>One partition of a \<open>PARTITION BY LIST\<close> clause.\<close>

record PartitionDefinition =
  pdBackend :: string
  pdRow :: "expr list"

end
