(* ===== verification/Radon_Compute.thy ===== *)
theory Radon_Compute
  imports Radon_Partition Radon_Sql
begin

section \<open>Placing a new table on the backends\<close>

text \<open>
  \<open>src/src/router/compute.go\<close>: \<open>HashUniform\<close>, \<open>GlobalUniform\<close>, \<open>SingleUniform\<close>,
  \<open>listMergePartition\<close> and \<open>ListUniform\<close> compute the table configuration of a new table. The main
  result is that a configuration \<open>HashUniform\<close> returns with at least one block for each backend
  builds: its segments tile the slots.
\<close>

definition partitionNums :: "int list" where
  "partitionNums = [8, 16, 32, 64]"

text \<open>The size of a block: the configured one, or the slots divided by the requested number.\<close>

definition uniform_blocks :: "RouterConfig \<Rightarrow> SQLVal option \<Rightarrow> int res" where
  "uniform_blocks conf partitionNum =
     (case partitionNum of
        None \<Rightarrow> Inr (rBlocks conf)
      | Some v \<Rightarrow>
          (case go_atoi (svVal v) of
             None \<Rightarrow> Inl (GoError ''strconv.Atoi'')
           | Some num \<Rightarrow>
               if num \<in> set partitionNums then go_div (rSlots conf) num
               else Inl (GoError ''number.of.partitions.must.be.one.of.the.list.[8, 16, 32, 64]'')))"

definition part_bounds :: "int \<Rightarrow> int \<Rightarrow> int \<Rightarrow> int \<Rightarrow> int \<Rightarrow> int \<Rightarrow> int \<Rightarrow> int \<times> int" where
  "part_bounds slots blocks nums slotsPerShard tablesPerShard s i =
     (let step = s * slotsPerShard
      in (i * blocks + step,
          if i = tablesPerShard - 1
          then (if s = nums - 1 then slots else step + slotsPerShard)
          else (i + 1) * blocks + step))"

definition hash_part ::
  "string \<Rightarrow> string list \<Rightarrow> int \<Rightarrow> int \<Rightarrow> int \<Rightarrow> int \<Rightarrow> nat \<Rightarrow> nat \<Rightarrow> PartitionConfig" where
  "hash_part table backends slots blocks slotsPerShard tablesPerShard s i =
     (case part_bounds slots blocks (int (length backends)) slotsPerShard tablesPerShard (int s) (int i) of
        (mn, mx) \<Rightarrow>
          \<lparr>pTable = table @ ''_'' @ sprintf_04d (s * nat tablesPerShard + i),
           pSegment = sprintf_d mn @ ''-'' @ sprintf_d mx,
           pBackend = backends ! s,
           pListValue = []\<rparr>)"

definition HashUniform ::
  "RouterConfig \<Rightarrow> string \<Rightarrow> string \<Rightarrow> string list \<Rightarrow> SQLVal option \<Rightarrow> TableConfig res" where
  "HashUniform conf table shardkey backends partitionNum =
     (if table = [] then Inl (GoError ''table.cant.be.null'')
      else if shardkey = [] then Inl (GoError ''shard.key.cant.be.null'')
      else
        let slots = rSlots conf in
        rbind (uniform_blocks conf partitionNum) (\<lambda>blocks.
        let nums = int (length backends) in
        if nums = 0 then Inl (GoError ''router.compute.backends.is.null'')
        else if slots \<le> nums then Inl (GoError ''router.compute.backends[%d].too.many:[max:%d]'')
        else
          let backends = sort backends in
          rbind (go_div slots nums) (\<lambda>slotsPerShard.
          rbind (go_div slotsPerShard blocks) (\<lambda>tablesPerShard.
            Inr \<lparr>tName = table, tSlots = slots, tBlocks = blocks,
                 tShardType = MethodTypeHash, tShardKey = shardkey,
                 tPartitions =
                   concat (map (\<lambda>s. map (hash_part table backends slots blocks slotsPerShard tablesPerShard s)
                                      [0..<nat tablesPerShard])
                     [0..<length backends]),
                 tAutoIncrement = None\<rparr>))))"

definition GlobalUniform :: "string \<Rightarrow> string list \<Rightarrow> TableConfig res" where
  "GlobalUniform table backends =
     (if table = [] then Inl (GoError ''table.cant.be.null'')
      else if backends = [] then Inl (GoError ''router.compute.backends.is.null'')
      else Inr \<lparr>tName = table, tSlots = 0, tBlocks = 0, tShardType = MethodTypeGlobal, tShardKey = [],
                tPartitions = map (\<lambda>b. \<lparr>pTable = table, pSegment = [], pBackend = b, pListValue = []\<rparr>) backends,
                tAutoIncrement = None\<rparr>)"

definition SingleUniform :: "string \<Rightarrow> string list \<Rightarrow> TableConfig res" where
  "SingleUniform table backends =
     (if table = [] then Inl (GoError ''table.cant.be.null'')
      else case backends of
             [] \<Rightarrow> Inl (GoError ''router.compute.backends.is.null'')
           | b # _ \<Rightarrow>
               Inr \<lparr>tName = table, tSlots = 0, tBlocks = 0, tShardType = MethodTypeSingle, tShardKey = [],
                    tPartitions = [\<lparr>pTable = table, pSegment = [], pBackend = b, pListValue = []\<rparr>],
                    tAutoIncrement = None\<rparr>)"

text \<open>
  \<open>listMergePartition\<close>: the map from list value to backend. A row element that is not a literal
  fails the type assertion.
\<close>

definition merge_value :: "string \<Rightarrow> expr \<Rightarrow> (string \<times> string) list \<Rightarrow> (string \<times> string) list res" where
  "merge_value backend e m =
     (case e of
        SQLValE v \<Rightarrow>
          (case map_of m (svVal v) of
             None \<Rightarrow> Inr (m @ [(svVal v, backend)])
           | Some b \<Rightarrow>
               if b \<noteq> backend then Inl (GoError ''partition.list.different.backend.with.same.values'')
               else Inr m)
      | _ \<Rightarrow> Inl (GoPanic ''interface conversion''))"

definition listMergePartition :: "PartitionDefinition list \<Rightarrow> (string \<times> string) list res" where
  "listMergePartition defs =
     fold_res (\<lambda>onePart. fold_res (merge_value (pdBackend onePart)) (pdRow onePart)) defs []"

text \<open>
  \<open>ListUniform\<close> numbers the partitions in the order in which \<open>range listMap\<close> visits them:
  \<open>visit\<close> is that order, any permutation of the map's entries.
\<close>

definition ListUniform ::
  "((string \<times> string) list \<Rightarrow> (string \<times> string) list) \<Rightarrow>
     string \<Rightarrow> string \<Rightarrow> PartitionDefinition list \<Rightarrow> TableConfig res" where
  "ListUniform visit table shardkey partitionDef =
     (if table = [] then Inl (GoError ''table.cant.be.null'')
      else if shardkey = [] then Inl (GoError ''shard.key.cant.be.null'')
      else rbind (listMergePartition partitionDef) (\<lambda>listMap.
        if listMap = [] then Inl (GoError ''router.compute.partition.list.is.null'')
        else Inr \<lparr>tName = table, tSlots = 0, tBlocks = 0, tShardType = MethodTypeList, tShardKey = shardkey,
                  tPartitions =
                    map (\<lambda>(i, listValue, backend).
                           \<lparr>pTable = table @ ''_'' @ sprintf_04d i, pSegment = [], pBackend = backend,
                            pListValue = listValue\<rparr>)
                      (enumerate 0 (visit listMap)),
                  tAutoIncrement = None\<rparr>))"

subsection \<open>Consecutive segments build\<close>

text \<open>\<open>chain a bs c\<close>: the intervals \<open>bs\<close> are not empty and follow each other from \<open>a\<close> to \<open>c\<close>.\<close>

fun chain :: "int \<Rightarrow> (int \<times> int) list \<Rightarrow> int \<Rightarrow> bool" where
  "chain a [] c \<longleftrightarrow> a = c"
| "chain a ((s, e) # bs) c \<longleftrightarrow> s = a \<and> s < e \<and> chain e bs c"

lemma chain_append: "chain a xs b \<Longrightarrow> chain b ys c \<Longrightarrow> chain a (xs @ ys) c"
  by (induction a xs b rule: chain.induct) auto

lemma chain_le: "chain a bs c \<Longrightarrow> a \<le> c"
  by (induction a bs c rule: chain.induct) auto

lemma chain_map_upt:
  assumes "\<And>i. i < n \<Longrightarrow> fst (f i) = g i \<and> snd (f i) = g (Suc i) \<and> g i < g (Suc i)"
  shows "chain (g 0) (map f [0..<n]) (g n)"
  using assms
proof (induction n)
  case 0
  then show ?case by simp
next
  case (Suc n)
  then have "chain (g 0) (map f [0..<n]) (g n)" by simp
  moreover have "chain (g n) [f n] (g (Suc n))" using Suc.prems [of n] by (cases "f n") simp
  ultimately show ?case using chain_append by fastforce
qed

lemma bitmap_succeeds:
  "keys m \<inter> {i..<i + int n} = {} \<Longrightarrow> \<exists>m'. bitmap n i seg m = Inr m'"
proof (induction n i seg m rule: bitmap.induct)
  case (1 i seg m)
  then show ?case by simp
next
  case (2 n i seg m)
  then have "map_of m i = None" by (auto simp: map_of_None_keys)
  moreover have "keys ((i, seg) # m) \<inter> {i + 1..<i + 1 + int n} = {}" using 2(2) by auto
  ultimately show ?case using 2(1) by simp
qed

text \<open>A chain of segments is filled in without overlap, slot after slot.\<close>

lemma build_chain:
  assumes "chain a bs c" and "list_all2 (\<lambda>(k, p) b. parse_segment (pSegment p) = Inr b) ps bs"
    and "0 \<le> a" and "keys (hPartitions h) = {0..<a}"
    and "\<forall>s \<in> set (hSegments h). range_slots (sRange s) \<subseteq> {..<c}"
  shows "\<exists>h'. fold_res Hash_build_part ps h = Inr h' \<and> keys (hPartitions h') = {0..<c}
    \<and> (\<forall>s \<in> set (hSegments h'). range_slots (sRange s) \<subseteq> {..<c})"
  using assms
proof (induction a bs c arbitrary: ps h rule: chain.induct)
  case (1 a c)
  then show ?case by auto
next
  case (2 a s e bs c)
  from "2.prems"(1) have se: "s = a" "s < e" "chain e bs c" by auto
  from "2.prems"(2) obtain k p ps' where ps: "ps = (k, p) # ps'"
    and parse: "parse_segment (pSegment p) = Inr (s, e)"
    and rest: "list_all2 (\<lambda>(k, p) b. parse_segment (pSegment p) = Inr b) ps' bs"
    by (auto simp: list_all2_Cons2)
  let ?seg = "\<lparr>sTable = pTable p, sBackend = pBackend p, sRange = HashRange k s e, sListValue = []\<rparr>"
  have "s + int (nat (e - s)) = e" using se by simp
  then have "keys (hPartitions h) \<inter> {s..<s + int (nat (e - s))} = {}"
    using "2.prems"(4) se by auto
  then obtain m where m: "bitmap (nat (e - s)) s ?seg (hPartitions h) = Inr m"
    using bitmap_succeeds by blast
  have "keys m = keys (hPartitions h) \<union> {s..<e}"
    using bitmap_result [OF m] \<open>s + int (nat (e - s)) = e\<close> by force
  then have keys_m: "keys m = {0..<e}" using "2.prems"(3,4) se by auto
  let ?h = "h\<lparr>hPartitions := m, hSegments := hSegments h @ [?seg]\<rparr>"
  have step: "Hash_build_part (k, p) h = Inr ?h"
    using parse m by (simp add: Hash_build_part_def)
  have "{s..<e} \<subseteq> {..<c}" using chain_le [OF se(3)] by auto
  then have "\<exists>h'. fold_res Hash_build_part ps' ?h = Inr h' \<and> keys (hPartitions h') = {0..<c}
    \<and> (\<forall>s \<in> set (hSegments h'). range_slots (sRange s) \<subseteq> {..<c})"
    using "2.IH" [OF se(3) rest, of ?h] "2.prems"(3,5) se keys_m by auto
  then show ?case by (simp add: ps step)
qed

lemma Hash_Build_chain:
  assumes "chain 0 bs slots" "list_all2 (\<lambda>p b. parse_segment (pSegment p) = Inr b) (tPartitions conf) bs"
    and "0 < slots" "slots < 2 ^ 31"
  shows "\<exists>h. Hash_Build (NewHash slots conf) = Inr h \<and> hash_inv h"
proof -
  have "list_all2 (\<lambda>(k, p) b. parse_segment (pSegment p) = Inr b) (enumerate 0 (tPartitions conf)) bs"
    using assms(2) by (simp add: list_all2_conv_all_nth nth_enumerate_eq)
  from build_chain [OF assms(1) this, of "NewHash slots conf"]
  obtain h' where f: "fold_res Hash_build_part (enumerate 0 (tPartitions conf)) (NewHash slots conf) = Inr h'"
    and k: "keys (hPartitions h') = {0..<slots}"
    and r: "\<forall>s \<in> set (hSegments h'). range_slots (sRange s) \<subseteq> {..<slots}"
    by (auto simp: NewHash_def)
  have "distinct (map fst (hPartitions h'))"
    using fold_build_inv [OF f build_inv_NewHash] by (simp add: build_inv_def distinct_keys_def)
  from distinct_card [OF this] k have "int (length (hPartitions h')) = slots"
    using assms(3) by simp
  with f fold_build_conf [OF f]
  have b: "Hash_Build (NewHash slots conf) =
      Inr (h'\<lparr>hSegments := sort_key (range_start \<circ> sRange) (hSegments h')\<rparr>)"
    by (simp add: Hash_Build_def NewHash_def)
  then show ?thesis using Hash_Build_hash_inv [OF b assms(3,4)] r by simp
qed

subsection \<open>HashUniform\<close>

lemma parse_segment_sprintf:
  assumes "0 \<le> a" "a < b" "b < 2 ^ 63"
  shows "parse_segment (sprintf_d a @ ''-'' @ sprintf_d b) = Inr (a, b)"
proof -
  have "go_split (CHR ''-'') (sprintf_d a @ CHR ''-'' # sprintf_d b) = [sprintf_d a, sprintf_d b]"
    using assms by (simp add: go_split_sep go_split_no_sep dash_notin_sprintf_d)
  with assms show ?thesis by (simp add: parse_segment_def go_atoi_sprintf_d)
qed

text \<open>The bounds of one backend's tables are a chain from its first slot to its last.\<close>

lemma part_bounds_chain:
  assumes "0 < blocks" "1 \<le> tps" "tps * blocks \<le> sps"
    and "hi = (if s = nums - 1 then slots else s * sps + sps)" "s * sps + sps \<le> hi"
  shows "chain (s * sps) (map (\<lambda>i. part_bounds slots blocks nums sps tps s (int i)) [0..<nat tps]) hi"
proof -
  let ?f = "\<lambda>i. part_bounds slots blocks nums sps tps s (int i)"
  let ?g = "\<lambda>i. if i = nat tps then hi else int i * blocks + s * sps"
  have "chain (?g 0) (map ?f [0..<nat tps]) (?g (nat tps))"
  proof (rule chain_map_upt)
    fix i assume i: "i < nat tps"
    have mono: "int i * blocks \<le> (tps - 1) * blocks" using i assms(1) by (intro mult_right_mono) auto
    show "fst (?f i) = ?g i \<and> snd (?f i) = ?g (Suc i) \<and> ?g i < ?g (Suc i)"
    proof (cases "int i = tps - 1")
      case True
      then have "Suc i = nat tps" by simp
      moreover have "(tps - 1) * blocks < tps * blocks" using assms(1) by simp
      ultimately show ?thesis
        using True i mono assms(3-5) by (auto simp: part_bounds_def Let_def)
    next
      case False
      then have "Suc i \<noteq> nat tps" using i by linarith
      then show ?thesis
        using False i assms(1) by (auto simp: part_bounds_def Let_def algebra_simps)
    qed
  qed
  then show ?thesis using assms(2) by (simp split: if_splits)
qed

lemma chain_concat_upt:
  assumes "\<And>s. s < n \<Longrightarrow> chain (g s) (f s) (g (Suc s))"
  shows "chain (g 0) (concat (map f [0..<n])) (g n)"
  using assms by (induction n) (auto intro: chain_append)

text \<open>All shards together: a chain from slot 0 to the last slot.\<close>

lemma all_bounds_chain:
  assumes "0 < nums" "0 < blocks" "blocks \<le> slots div int nums"
  defines "sps \<equiv> slots div int nums" and "tps \<equiv> slots div int nums div blocks"
  shows "chain 0 (concat (map (\<lambda>s. map (\<lambda>i. part_bounds slots blocks (int nums) sps tps (int s) (int i))
    [0..<nat tps]) [0..<nums])) slots"
proof -
  let ?g = "\<lambda>s. if s = nums then slots else int s * sps"
  have "0 < tps" using assms(1-3) by (simp add: tps_def pos_imp_zdiv_pos_iff)
  then have tps: "1 \<le> tps" by simp
  have fits: "tps * blocks \<le> sps"
    using pos_mod_sign [OF assms(2), of sps] div_mult_mod_eq [of sps blocks]
    unfolding tps_def sps_def by linarith
  have total: "int nums * sps \<le> slots"
    using pos_mod_sign [of "int nums" slots] mult_div_mod_eq [of "int nums" slots] assms(1)
    unfolding sps_def by linarith
  have "chain (?g 0) (concat (map (\<lambda>s. map (\<lambda>i. part_bounds slots blocks (int nums) sps tps (int s) (int i))
    [0..<nat tps]) [0..<nums])) (?g nums)"
  proof (rule chain_concat_upt)
    fix s assume s: "s < nums"
    have "(int s + 1) * sps \<le> int nums * sps"
      using s assms(2,3) by (intro mult_right_mono) (auto simp: sps_def)
    then have "chain (int s * sps) (map (\<lambda>i. part_bounds slots blocks (int nums) sps tps (int s) (int i))
        [0..<nat tps]) (?g (Suc s))"
      using s total
      by (intro part_bounds_chain [OF assms(2) tps fits]) (auto simp: algebra_simps)
    then show "chain (?g s) (map (\<lambda>i. part_bounds slots blocks (int nums) sps tps (int s) (int i))
        [0..<nat tps]) (?g (Suc s))"
      using s by simp
  qed
  then show ?thesis using assms(1) by simp
qed

lemma chain_bounds: "chain a bs c \<Longrightarrow> (x, y) \<in> set bs \<Longrightarrow> a \<le> x \<and> x < y \<and> y \<le> c"
  by (induction a bs c rule: chain.induct) (auto dest: chain_le)

lemma HashUniform_result:
  assumes "table \<noteq> []" "shardkey \<noteq> []" "uniform_blocks conf partitionNum = Inr blocks"
    and "0 < blocks" "backends \<noteq> []" "int (length backends) < rSlots conf"
  defines "sps \<equiv> rSlots conf div int (length backends)"
  shows "HashUniform conf table shardkey backends partitionNum =
    Inr \<lparr>tName = table, tSlots = rSlots conf, tBlocks = blocks, tShardType = MethodTypeHash,
         tShardKey = shardkey,
         tPartitions = concat (map (\<lambda>s. map (hash_part table (sort backends) (rSlots conf) blocks sps
             (sps div blocks) s) [0..<nat (sps div blocks)]) [0..<length backends]),
         tAutoIncrement = None\<rparr>"
proof -
  have "0 < int (length backends)" using assms(5) by simp
  then have "0 \<le> sps" using assms(6) by (simp add: sps_def pos_imp_zdiv_nonneg_iff)
  with assms \<open>0 < int (length backends)\<close> show ?thesis
    by (simp add: HashUniform_def Let_def)
qed

lemma list_all2_concat_map:
  assumes "\<And>x. x \<in> set xs \<Longrightarrow> list_all2 P (f x) (g x)"
  shows "list_all2 P (concat (map f xs)) (concat (map g xs))"
  using assms by (induction xs) (auto intro: list_all2_appendI)

text \<open>The configuration of \<open>HashUniform\<close>, its segments printed and read back, is a chain.\<close>

lemma HashUniform_chain:
  assumes "table \<noteq> []" "shardkey \<noteq> []" "uniform_blocks conf partitionNum = Inr blocks"
    and "0 < blocks" "backends \<noteq> []" "int (length backends) < rSlots conf"
    and "blocks \<le> rSlots conf div int (length backends)" "rSlots conf < 2 ^ 31"
  shows "\<exists>tc bs. HashUniform conf table shardkey backends partitionNum = Inr tc
    \<and> tSlots tc = rSlots conf \<and> tShardType tc = MethodTypeHash
    \<and> chain 0 bs (rSlots conf)
    \<and> list_all2 (\<lambda>p b. parse_segment (pSegment p) = Inr b) (tPartitions tc) bs"
proof -
  define sps where "sps = rSlots conf div int (length backends)"
  define tps where "tps = sps div blocks"
  let ?B = "\<lambda>s i. part_bounds (rSlots conf) blocks (int (length backends)) sps tps (int s) (int i)"
  let ?P = "hash_part table (sort backends) (rSlots conf) blocks sps tps"
  let ?bs = "concat (map (\<lambda>s. map (?B s) [0..<nat tps]) [0..<length backends])"
  have chain: "chain 0 ?bs (rSlots conf)"
    unfolding tps_def sps_def using assms(4,5,7) by (intro all_bounds_chain) auto
  have "parse_segment (pSegment (?P s i)) = Inr (?B s i)"
    if "s < length backends" "i < nat tps" for s i
  proof -
    have "(?B s i) \<in> set ?bs" using that by force
    moreover obtain a b where ab: "?B s i = (a, b)" by fastforce
    ultimately have "0 \<le> a" "a < b" "b \<le> rSlots conf" using chain_bounds [OF chain] by auto
    then have "parse_segment (sprintf_d a @ ''-'' @ sprintf_d b) = Inr (a, b)"
      using assms(8) by (intro parse_segment_sprintf) auto
    with ab show ?thesis by (simp add: hash_part_def)
  qed
  then have "list_all2 (\<lambda>p b. parse_segment (pSegment p) = Inr b)
      (concat (map (\<lambda>s. map (?P s) [0..<nat tps]) [0..<length backends])) ?bs"
    by (intro list_all2_concat_map) (auto simp: list_all2_conv_all_nth)
  with chain HashUniform_result [OF assms(1-6)] show ?thesis
    unfolding tps_def sps_def by auto
qed

text \<open>C15: a hash table placed by \<open>HashUniform\<close> with at least one block for each backend builds, and
  its segments tile the slots: every slot lies in exactly one segment, and that segment is what the
  slot table holds.\<close>

theorem HashUniform_builds:
  assumes "table \<noteq> []" "shardkey \<noteq> []" "uniform_blocks conf partitionNum = Inr blocks"
    and "0 < blocks" "backends \<noteq> []" "int (length backends) < rSlots conf"
    and "blocks \<le> rSlots conf div int (length backends)" "rSlots conf < 2 ^ 31"
  shows "\<exists>tc h. HashUniform conf table shardkey backends partitionNum = Inr tc
    \<and> Hash_Build (NewHash (tSlots tc) tc) = Inr h
    \<and> (\<forall>i \<in> {0..<rSlots conf}. \<exists>!s. s \<in> set (hSegments h) \<and> i \<in> range_slots (sRange s))
    \<and> (\<forall>i \<in> {0..<rSlots conf}. i \<in> range_slots (sRange (hash_slot h i)))"
proof -
  from HashUniform_chain [OF assms] obtain tc bs where
    tc: "HashUniform conf table shardkey backends partitionNum = Inr tc" "tSlots tc = rSlots conf"
    and chain: "chain 0 bs (rSlots conf)"
      "list_all2 (\<lambda>p b. parse_segment (pSegment p) = Inr b) (tPartitions tc) bs"
    by blast
  have "0 < rSlots conf" using assms(6) by linarith
  from Hash_Build_chain [OF chain this assms(8)] obtain h where
    h: "Hash_Build (NewHash (rSlots conf) tc) = Inr h" "hash_inv h" by blast
  have slots: "hSlots h = rSlots conf" using Hash_Build_result [OF h(1)] by simp
  have "\<exists>!s. s \<in> set (hSegments h) \<and> i \<in> range_slots (sRange s)"
    if "i \<in> {0..<rSlots conf}" for i
    using hash_slot_correct [OF h(2), of i] hash_slot_unique [OF h(2), of _ i] that slots by auto
  moreover have "i \<in> range_slots (sRange (hash_slot h i))" if "i \<in> {0..<rSlots conf}" for i
    using hash_slot_correct [OF h(2), of i] that slots by auto
  ultimately show ?thesis using tc h(1) by auto
qed

lemma HashUniform_builds_witness:
  "\<exists>tc h. HashUniform DefaultRouterConfig ''t'' ''id'' [''backend2'', ''backend1''] None = Inr tc
    \<and> Hash_Build (NewHash (tSlots tc) tc) = Inr h
    \<and> (\<forall>i \<in> {0..<4096}. \<exists>!s. s \<in> set (hSegments h) \<and> i \<in> range_slots (sRange s))
    \<and> (\<forall>i \<in> {0..<4096}. i \<in> range_slots (sRange (hash_slot h i)))"
  using HashUniform_builds [of "''t''" "''id''" DefaultRouterConfig None 64 "[''backend2'', ''backend1'']"]
  by (simp add: DefaultRouterConfig_def uniform_blocks_def)

end
