(* ===== verification/Radon_Router.thy ===== *)
theory Radon_Router
  imports Radon_Compute
begin

section \<open>The router in memory\<close>

text \<open>
  \<open>src/src/router/router.go\<close> and \<open>acl.go\<close>: databases, their tables, and the calls the planner makes.
  A \<open>*config.TableConfig\<close> is an address of \<open>roHeap\<close>, since \<open>RenameTable\<close> and the rule shift write to a
  configuration that a table of the router keeps pointing to. A table whose \<open>Build\<close> failed has no
  partition (\<open>None\<close>, the nil interface).
\<close>

record Table =
  tbName :: string
  tbShardKey :: string
  tbPartition :: "Partition option"
  tbConfig :: nat

record Schema =
  scDB :: string
  scTables :: "(string \<times> Table) list"

record Router =
  roConf :: RouterConfig
  roSchemas :: "(string \<times> Schema) list"
  roHeap :: "TableConfig list"

abbreviation ER_NO_DB_ERROR :: go_err where "ER_NO_DB_ERROR \<equiv> SQLError 1046"
abbreviation ER_BAD_DB_ERROR :: go_err where "ER_BAD_DB_ERROR \<equiv> SQLError 1049"
abbreviation ER_TOO_LONG_IDENT :: go_err where "ER_TOO_LONG_IDENT \<equiv> SQLError 1059"
abbreviation ER_NO_SUCH_TABLE :: go_err where "ER_NO_SUCH_TABLE \<equiv> SQLError 1146"
abbreviation ER_SPECIFIC_ACCESS_DENIED_ERROR :: go_err where
  "ER_SPECIFIC_ACCESS_DENIED_ERROR \<equiv> SQLError 1227"

definition NewRouter :: "RouterConfig \<Rightarrow> Router" where
  "NewRouter conf = \<lparr>roConf = conf, roSchemas = [], roHeap = []\<rparr>"

definition checkDatabase :: "string \<Rightarrow> Router \<Rightarrow> unit res" where
  "checkDatabase db r =
     (if db = [] then Inl ER_NO_DB_ERROR
      else if map_of (roSchemas r) db = None then Inl ER_BAD_DB_ERROR
      else Inr ())"

text \<open>The tables of a database; a database that is not there has none.\<close>

definition tables_of :: "Router \<Rightarrow> string \<Rightarrow> (string \<times> Table) list" where
  "tables_of r db = (case map_of (roSchemas r) db of None \<Rightarrow> [] | Some sc \<Rightarrow> scTables sc)"

definition set_tables :: "string \<Rightarrow> (string \<times> Table) list \<Rightarrow> Router \<Rightarrow> Router" where
  "set_tables db tbls r =
     (case map_of (roSchemas r) db of
        None \<Rightarrow> r
      | Some sc \<Rightarrow> r\<lparr>roSchemas := AList.update db (sc\<lparr>scTables := tbls\<rparr>) (roSchemas r)\<rparr>)"

text \<open>The \<open>switch tbl.ShardType\<close> of \<open>addTable\<close>.\<close>

definition build_partition :: "RouterConfig \<Rightarrow> TableConfig \<Rightarrow> Partition res" where
  "build_partition conf tbl =
     (if tShardType tbl = MethodTypeHash then
        rbind (Hash_Build (NewHash (if tSlots tbl = 0 then rSlots conf else tSlots tbl) tbl)) (\<lambda>h. Inr (PHash h))
      else if tShardType tbl = MethodTypeGlobal then
        rbind (Global_Build (NewGlobal (Some tbl))) (\<lambda>g. Inr (PGlobal g))
      else if tShardType tbl = MethodTypeSingle then
        rbind (Single_Build (NewSingle (Some tbl))) (\<lambda>s. Inr (PSingle s))
      else if tShardType tbl = MethodTypeList then
        rbind (List_Build (NewList tbl)) (\<lambda>l. Inr (PList l))
      else Inl (GoError ''router.unsupport.shardtype:[%v]''))"

text \<open>\<open>addTable\<close> enters the table before it builds the partition: after a failed build the entry stays.\<close>

definition addTable :: "string \<Rightarrow> nat option \<Rightarrow> Router \<Rightarrow> (Router, unit) outcome" where
  "addTable db tbl r =
     (case checkDatabase db r of
        Inl e \<Rightarrow> (Inl e, r)
      | Inr _ \<Rightarrow>
          (case tbl of
             None \<Rightarrow> (Inl (GoError ''table.config..can't.be.nil''), r)
           | Some a \<Rightarrow>
               let c = roHeap r ! a in
               if map_of (tables_of r db) (tName c) \<noteq> None
               then (Inl (GoError ''router.add.db[%v].table[%v].exists''), r)
               else
                 let table = \<lparr>tbName = tName c, tbShardKey = tShardKey c, tbPartition = None, tbConfig = a\<rparr>;
                     r1 = set_tables db (AList.update (tName c) table (tables_of r db)) r
                 in (case build_partition (roConf r) c of
                       Inl e \<Rightarrow> (Inl e, r1)
                     | Inr p \<Rightarrow>
                         (Inr (), set_tables db
                            (AList.update (tName c) (table\<lparr>tbPartition := Some p\<rparr>) (tables_of r1 db)) r1))))"

definition removeTable :: "string \<Rightarrow> string \<Rightarrow> Router \<Rightarrow> (Router, unit) outcome" where
  "removeTable db table r =
     (if map_of (roSchemas r) db = None then (Inl (GoError ''router.can.not.find.db[%v]''), r)
      else if map_of (tables_of r db) table = None then (Inl (GoError ''router.can.not.find.table[%v]''), r)
      else (Inr (), set_tables db (AList.delete table (tables_of r db)) r))"

text \<open>The configuration is renamed in place, and its address returned.\<close>

definition rename_config :: "string \<Rightarrow> string \<Rightarrow> TableConfig \<Rightarrow> TableConfig" where
  "rename_config fromTable toTable c =
     c\<lparr>tName := toTable,
       tPartitions := map (\<lambda>p. p\<lparr>pTable := replace1 fromTable toTable (pTable p)\<rparr>) (tPartitions c)\<rparr>"

definition getRenameTableConfig :: "string \<Rightarrow> string \<Rightarrow> string \<Rightarrow> Router \<Rightarrow> (Router, nat) outcome" where
  "getRenameTableConfig db fromTable toTable r =
     (if map_of (roSchemas r) db = None then (Inl (GoError ''router.can.not.find.db[%v]''), r)
      else case map_of (tables_of r db) fromTable of
        None \<Rightarrow> (Inl (GoError ''router.can.not.find.table[%v]''), r)
      | Some table \<Rightarrow>
          if map_of (tables_of r db) toTable \<noteq> None
          then (Inl (GoError ''router.find.table[%v].exists''), r)
          else
            let a = tbConfig table
            in (Inr a, r\<lparr>roHeap := (roHeap r)[a := rename_config fromTable toTable (roHeap r ! a)]\<rparr>))"

definition addDatabase :: "string \<Rightarrow> Router \<Rightarrow> (Router, unit) outcome" where
  "addDatabase db r =
     (if db = [] then (Inl (GoError ''router.database.should.not.be.empty''), r)
      else if map_of (roSchemas r) db = None
      then (Inr (), r\<lparr>roSchemas := AList.update db \<lparr>scDB = db, scTables = []\<rparr> (roSchemas r)\<rparr>)
      else (Inl (GoError ''router.database.exists''), r))"

definition dropDatabase :: "string \<Rightarrow> Router \<Rightarrow> (Router, unit) outcome" where
  "dropDatabase db r =
     (if map_of (roSchemas r) db = None then (Inl (GoError ''router.can.not.find.db[%v]''), r)
      else (Inr (), r\<lparr>roSchemas := AList.delete db (roSchemas r)\<rparr>))"

definition clear :: "Router \<Rightarrow> Router" where
  "clear r = r\<lparr>roSchemas := []\<rparr>"

subsection \<open>Access control\<close>

definition systemDatabases :: "string list" where
  "systemDatabases = [''SYS'', ''MYSQL'', ''INFORMATION_SCHEMA'', ''PERFORMANCE_SCHEMA'']"

definition NewDatabaseACL :: "(string \<times> string) list" where
  "NewDatabaseACL = fold (\<lambda>db. AList.update db db) systemDatabases []"

definition ACL_Allow :: "(string \<times> string) list \<Rightarrow> string \<Rightarrow> bool" where
  "ACL_Allow acls db = (case map_of acls (to_upper db) of None \<Rightarrow> True | Some _ \<Rightarrow> False)"

definition ACL_IsSystemDB :: "(string \<times> string) list \<Rightarrow> string \<Rightarrow> bool" where
  "ACL_IsSystemDB acls db = (case map_of acls (to_upper db) of None \<Rightarrow> False | Some _ \<Rightarrow> True)"

definition DatabaseACL :: "string \<Rightarrow> unit res" where
  "DatabaseACL database =
     (if ACL_Allow NewDatabaseACL database then Inr () else Inl ER_SPECIFIC_ACCESS_DENIED_ERROR)"

definition IsSystemDB :: "string \<Rightarrow> bool" where
  "IsSystemDB database = ACL_IsSystemDB NewDatabaseACL database"

definition IsPartitionHash :: "string \<Rightarrow> bool" where
  "IsPartitionHash partitionType \<longleftrightarrow> partitionType = MethodTypeHash"

subsection \<open>Lookups\<close>

definition getTable :: "Router \<Rightarrow> string \<Rightarrow> string \<Rightarrow> Table res" where
  "getTable r database tableName =
     (if database = [] then Inl ER_NO_DB_ERROR
      else if tableName = [] then Inl ER_NO_SUCH_TABLE
      else if map_of (roSchemas r) database = None then Inl ER_NO_SUCH_TABLE
      else case map_of (tables_of r database) tableName of
        None \<Rightarrow> Inl ER_NO_SUCH_TABLE
      | Some table \<Rightarrow> Inr table)"

text \<open>A method call on the nil interface.\<close>

definition partition_of :: "Table \<Rightarrow> Partition res" where
  "partition_of table =
     (case tbPartition table of None \<Rightarrow> Inl (GoPanic ''nil pointer dereference'') | Some p \<Rightarrow> Inr p)"

definition ShardKey :: "Router \<Rightarrow> string \<Rightarrow> string \<Rightarrow> string res" where
  "ShardKey r database tableName = rbind (getTable r database tableName) (\<lambda>table. Inr (tbShardKey table))"

definition PartitionType :: "Router \<Rightarrow> string \<Rightarrow> string \<Rightarrow> string res" where
  "PartitionType r database tableName =
     rbind (getTable r database tableName) (\<lambda>table.
     rbind (partition_of table) (\<lambda>p. Inr (Partition_Type p)))"

definition Router_TableConfig :: "Router \<Rightarrow> string \<Rightarrow> string \<Rightarrow> TableConfig res" where
  "Router_TableConfig r database tableName =
     rbind (getTable r database tableName) (\<lambda>table. Inr (roHeap r ! tbConfig table))"

definition Router_Lookup ::
  "float_conv \<Rightarrow> Router \<Rightarrow> string \<Rightarrow> string \<Rightarrow> SQLVal option \<Rightarrow> SQLVal option \<Rightarrow> Segment list res" where
  "Router_Lookup pf r database tableName startKey endKey =
     (if database = [] then Inl ER_NO_DB_ERROR
      else if tableName = [] then Inl ER_NO_SUCH_TABLE
      else if map_of (roSchemas r) database = None then Inl ER_BAD_DB_ERROR
      else case map_of (tables_of r database) tableName of
        None \<Rightarrow> Inl ER_NO_SUCH_TABLE
      | Some table \<Rightarrow> rbind (partition_of table) (\<lambda>p. Partition_Lookup pf p startKey endKey))"

definition Router_Tables :: "Router \<Rightarrow> (string \<times> string list) list" where
  "Router_Tables r = map (\<lambda>(_, sc). (scDB sc, map (\<lambda>(_, t). tbName t) (scTables sc))) (roSchemas r)"

definition Router_GetIndex :: "float_conv \<Rightarrow> Router \<Rightarrow> string \<Rightarrow> string \<Rightarrow> SQLVal \<Rightarrow> int res" where
  "Router_GetIndex pf r database tableName sqlval =
     rbind (getTable r database tableName) (\<lambda>table.
     rbind (partition_of table) (\<lambda>p. Partition_GetIndex pf p sqlval))"

text \<open>The loop of \<open>GetSegments\<close> drops a segment whose range object is already in the result.\<close>

definition add_segment :: "Partition \<Rightarrow> int \<Rightarrow> Segment list \<Rightarrow> Segment list res" where
  "add_segment p idx segs =
     rbind (Partition_GetSegment p idx) (\<lambda>segment.
       Inr (if list_ex (\<lambda>seg. sRange seg = sRange segment) segs then segs else segs @ [segment]))"

definition Router_GetSegments :: "Router \<Rightarrow> string \<Rightarrow> string \<Rightarrow> int list \<Rightarrow> Segment list res" where
  "Router_GetSegments r database tableName indexes =
     rbind (getTable r database tableName) (\<lambda>table.
     rbind (partition_of table) (\<lambda>p.
       if indexes = [] then Inr (Partition_GetSegments p)
       else fold_res (add_segment p) indexes []))"

definition CheckTable :: "Router \<Rightarrow> string \<Rightarrow> string \<Rightarrow> bool res" where
  "CheckTable r database tableName =
     rbind (checkDatabase database r) (\<lambda>_.
       if tableName = [] then Inl (GoError ''tableName.is.empty'')
       else Inr (map_of (tables_of r database) tableName \<noteq> None))"

text \<open>\<open>Rules\<close>: the schemas with their tables.\<close>

definition Rules :: "Router \<Rightarrow> (string \<times> Table list) list" where
  "Rules r = map (\<lambda>(key, schema). (key, map snd (scTables schema))) (roSchemas r)"

subsection \<open>Segments by index\<close>

lemma fold_add_segment:
  assumes "fold_res (add_segment p) is segs0 = Inr segs" "Partition_inv p"
    and "set segs0 \<subseteq> set (Partition_GetSegments p)" "distinct segs0"
  shows "distinct segs \<and> set segs = set segs0 \<union> {seg. \<exists>i \<in> set is. Partition_GetSegment p i = Inr seg}"
  using assms
proof (induction "is" arbitrary: segs0)
  case Nil
  then show ?case by simp
next
  case (Cons i "is")
  from Cons.prems(1) obtain seg where seg: "Partition_GetSegment p i = Inr seg"
    and rest: "fold_res (add_segment p) is
      (if list_ex (\<lambda>s. sRange s = sRange seg) segs0 then segs0 else segs0 @ [seg]) = Inr segs"
    by (auto simp: add_segment_def [of p i segs0] rbind_eq_Inr)
  have "seg \<in> set (Partition_GetSegments p)" using part_m.get_segment_in [OF Cons.prems(2) seg] .
  moreover have "list_ex (\<lambda>s. sRange s = sRange seg) segs0 \<longleftrightarrow> seg \<in> set segs0"
    using part_m.range_inj [OF Cons.prems(2)] Cons.prems(3) calculation
    by (auto simp: list_ex_iff dest: inj_onD)
  ultimately show ?case
    using Cons.IH [OF rest Cons.prems(2)] Cons.prems(3,4) seg by (auto split: if_splits)
qed

lemma fold_add_segment_total:
  assumes "\<And>i. i \<in> set is \<Longrightarrow> \<exists>seg. Partition_GetSegment p i = Inr seg"
  shows "\<exists>segs. fold_res (add_segment p) is segs0 = Inr segs"
  using assms by (induction "is" arbitrary: segs0) (fastforce simp: add_segment_def)+

lemma Router_table:
  assumes "getTable r db t = Inr table" "tbPartition table = Some p"
  shows "Router_GetIndex pf r db t v = Partition_GetIndex pf p v"
    and "Router_Lookup pf r db t s e = Partition_Lookup pf p s e"
    and "PartitionType r db t = Inr (Partition_Type p)"
    and "Router_GetSegments r db t idx =
      (if idx = [] then Inr (Partition_GetSegments p) else fold_res (add_segment p) idx [])"
  using assms
  by (auto simp: Router_GetIndex_def Router_Lookup_def PartitionType_def Router_GetSegments_def
      partition_of_def getTable_def split: if_splits option.splits)

text \<open>A router with one LIST table, for the witnesses.\<close>

definition demo_list :: list_method where
  "demo_list = \<lparr>lTyp = MethodTypeList, lConf = two_slots, lSegments =
     [\<lparr>sTable = ''l_0000'', sBackend = ''b1'', sRange = ListRange 0 [], sListValue = ''7''\<rparr>,
      \<lparr>sTable = ''l_0001'', sBackend = ''b2'', sRange = ListRange 1 [], sListValue = ''8''\<rparr>]\<rparr>"

definition demo_table :: Table where
  "demo_table = \<lparr>tbName = ''l'', tbShardKey = ''id'', tbPartition = Some (PList demo_list), tbConfig = 0\<rparr>"

definition demo_router :: Router where
  "demo_router = \<lparr>roConf = DefaultRouterConfig,
     roSchemas = [(''db'', \<lparr>scDB = ''db'', scTables = [(''l'', demo_table)]\<rparr>)], roHeap = [two_slots]\<rparr>"

lemma demo_list_inv: "list_inv demo_list"
  by (auto simp: list_inv_def indexed_by_def demo_list_def less_Suc_eq nth_Cons')

lemma demo_getTable: "getTable demo_router ''db'' ''l'' = Inr demo_table"
  by (simp add: getTable_def demo_router_def tables_of_def)

lemma demo_partition: "tbPartition demo_table = Some (PList demo_list)"
  by (simp add: demo_table_def)

text \<open>C17: \<open>GetSegments\<close> on a list of indexes returns each segment that one of the indexes selects, no
  other segment, and none twice; on no index it returns every segment of the table.\<close>

theorem Router_GetSegments_exact:
  assumes "getTable r db t = Inr table" "tbPartition table = Some p" "Partition_inv p"
    and "Router_GetSegments r db t idx = Inr segs"
  shows "(idx = [] \<longrightarrow> segs = Partition_GetSegments p)
    \<and> (idx \<noteq> [] \<longrightarrow> distinct segs
        \<and> set segs = {seg. \<exists>i \<in> set idx. Partition_GetSegment p i = Inr seg})"
  using assms fold_add_segment [of p idx "[]" segs] by (auto simp: Router_table split: if_splits)

lemma Router_GetSegments_exact_witness:
  "set (lSegments demo_list) = {seg. \<exists>i \<in> {1, 0}. List_GetSegment demo_list i = Inr seg}
    \<and> Router_GetSegments demo_router ''db'' ''l'' [1, 0, 1] = Inr (rev (lSegments demo_list))"
proof -
  have "Router_GetSegments demo_router ''db'' ''l'' [1, 0, 1] = Inr (rev (lSegments demo_list))"
    by (simp add: Router_table [OF demo_getTable demo_partition] add_segment_def List_GetSegment_def
        slice_get_def demo_list_def)
  with Router_GetSegments_exact [OF demo_getTable demo_partition _ this] show ?thesis
    by (auto simp: demo_list_inv)
qed

text \<open>C18: the segment an INSERT computes for a shard-key value, \<open>GetSegments\<close> of \<open>GetIndex\<close>, is the
  segment a \<open>Lookup\<close> of the same value returns: rows are written where they are searched for.\<close>

theorem insert_select_agree:
  assumes "getTable r db t = Inr table" "tbPartition table = Some p" "Sharded_inv p"
    and "Router_GetIndex pf r db t v = Inr i"
  shows "\<exists>seg. Router_GetSegments r db t [i] = Inr [seg]
    \<and> Router_Lookup pf r db t (Some v) (Some v) = Inr [seg]"
proof -
  have "Partition_GetIndex pf p v = Inr i" using assms(4) Router_table(1) [OF assms(1,2)] by simp
  from shard_m.lookup_value_total [OF assms(3) this] obtain seg where
    "Partition_Lookup pf p (Some v) (Some v) = Inr [seg]" "Partition_GetSegment p i = Inr seg" by blast
  then show ?thesis using Router_table [OF assms(1,2)] by (simp add: add_segment_def)
qed

lemma insert_select_agree_witness:
  "\<exists>seg. Router_GetSegments demo_router ''db'' ''l'' [1] = Inr [seg]
    \<and> Router_Lookup (\<lambda>_. None) demo_router ''db'' ''l'' (Some \<lparr>svType = StrVal, svVal = ''8''\<rparr>)
        (Some \<lparr>svType = StrVal, svVal = ''8''\<rparr>) = Inr [seg]"
proof (rule insert_select_agree [OF demo_getTable demo_partition])
  show "Sharded_inv (PList demo_list)" by (simp add: demo_list_inv)
  show "Router_GetIndex (\<lambda>_. None) demo_router ''db'' ''l'' \<lparr>svType = StrVal, svVal = ''8''\<rparr> = Inr 1"
    by (simp add: Router_table [OF demo_getTable demo_partition] List_GetIndex_def demo_list_def)
qed

text \<open>C26: \<open>addTable\<close> enters a table before it builds it. When the build fails the error is returned but
  the table stays in the schema without a partition, and the next lookup of it panics.\<close>

theorem addTable_failed_build_stays:
  assumes "checkDatabase db r = Inr ()" "map_of (tables_of r db) (tName (roHeap r ! a)) = None"
    and "tName (roHeap r ! a) \<noteq> []" "build_partition (roConf r) (roHeap r ! a) = Inl e"
  shows "\<exists>r'. addTable db (Some a) r = (Inl e, r')
    \<and> CheckTable r' db (tName (roHeap r ! a)) = Inr True
    \<and> Router_Lookup pf r' db (tName (roHeap r ! a)) s t = Inl (GoPanic ''nil pointer dereference'')"
proof -
  from assms(1) obtain sc where db: "db \<noteq> []" "map_of (roSchemas r) db = Some sc"
    by (auto simp: checkDatabase_def split: if_splits)
  then show ?thesis
    using assms
    by (simp add: addTable_def Let_def set_tables_def tables_of_def CheckTable_def checkDatabase_def
        Router_Lookup_def partition_of_def)
qed

lemma addTable_failed_build_stays_witness:
  "\<exists>r'. addTable ''db'' (Some 0) (demo_router\<lparr>roHeap := [two_slots\<lparr>tShardType := ''RANGE''\<rparr>]\<rparr>) =
      (Inl (GoError ''router.unsupport.shardtype:[%v]''), r')
    \<and> CheckTable r' ''db'' ''t'' = Inr True
    \<and> Router_Lookup (\<lambda>_. None) r' ''db'' ''t'' None None = Inl (GoPanic ''nil pointer dereference'')"
  using addTable_failed_build_stays [of "''db''" "demo_router\<lparr>roHeap := [two_slots\<lparr>tShardType := ''RANGE''\<rparr>]\<rparr>" 0
      "GoError ''router.unsupport.shardtype:[%v]''" "\<lambda>_. None" None None]
  by (simp add: checkDatabase_def demo_router_def two_slots_def tables_of_def build_partition_def)

end
