(* ===== verification/Radon_Frm.thy ===== *)
theory Radon_Frm
  imports Radon_Router "HOL-Library.Sublist"
begin

section \<open>The router and its files\<close>

text \<open>
  \<open>src/src/router/frm.go\<close> and \<open>api.go\<close>: every table configuration is kept in
  \<open>metadir/database/table.json\<close> beside the memory of the router. A file holds what
  \<open>encoding/json\<close> would read from it: a table configuration, the version stamp, or text that is
  rejected. What the operating system answers is an argument of each operation (\<open>io\<close>), so that every
  failing call is a branch.
\<close>

datatype frm = FrmTable TableConfig | FrmVersion int | FrmOther

type_synonym dirs = "(string list \<times> (string \<times> frm) list) list"

record Disk =
  dkMetadir :: "string list"
  dkDirs :: dirs

text \<open>
  The outcome of \<open>xbase.WriteFile\<close>: written, or failed, and then the file is as it was (the open
  failed) or holds something else (the write, or the sync, failed after the truncation).
\<close>

datatype io_write = WriteOk | WriteFail "frm option"

text \<open>
  \<open>ioRead\<close> tells for each path whether a read of that directory or file goes through; \<open>ioVisit\<close> is the
  order in which \<open>range\<close> visits the map of directories in \<open>LoadConfig\<close>.
\<close>

record io =
  ioWrite :: io_write
  ioVersion :: io_write
  ioTs :: int
  ioMkdir :: bool
  ioRemove :: bool
  ioRemoveAll :: "dirs option"
  ioRead :: "string list \<Rightarrow> bool"
  ioVisit :: "string list \<Rightarrow> string list"

definition io_ok :: "int \<Rightarrow> io" where
  "io_ok ts = \<lparr>ioWrite = WriteOk, ioVersion = WriteOk, ioTs = ts, ioMkdir = True, ioRemove = True,
     ioRemoveAll = None, ioRead = (\<lambda>_. True), ioVisit = id\<rparr>"

record Node =
  nRouter :: Router
  nDisk :: Disk

definition on_router :: "(Router \<Rightarrow> (Router, 'a) outcome) \<Rightarrow> Node \<Rightarrow> (Node, 'a) outcome" where
  "on_router f n = (case f (nRouter n) of (x, r) \<Rightarrow> (x, n\<lparr>nRouter := r\<rparr>))"

definition on_disk :: "(Disk \<Rightarrow> (Disk, 'a) outcome) \<Rightarrow> Node \<Rightarrow> (Node, 'a) outcome" where
  "on_disk f n = (case f (nDisk n) of (x, d) \<Rightarrow> (x, n\<lparr>nDisk := d\<rparr>))"

subsection \<open>Files\<close>

text \<open>\<open>path.Join(dir, name)\<close> of a cleaned absolute path and a name without a slash.\<close>

definition path_join :: "string list \<Rightarrow> string \<Rightarrow> string list" where
  "path_join dir name =
     (if name = [] \<or> name = ''.'' then dir else if name = ''..'' then butlast dir else dir @ [name])"

definition frm_file :: "string \<Rightarrow> string" where
  "frm_file table = table @ ''.json''"

text \<open>
  Files and directories share their names: a path is found by \<open>os.Stat\<close> when it is a directory or a
  file. Below a file there is nothing, and the system reports that it is not a directory instead of a
  missing path, so that \<open>os.IsNotExist\<close> does not hold of it.
\<close>

definition is_file :: "string list \<Rightarrow> dirs \<Rightarrow> bool" where
  "is_file p ds \<longleftrightarrow>
     p \<noteq> [] \<and> (case map_of ds (butlast p) of None \<Rightarrow> False | Some files \<Rightarrow> map_of files (last p) \<noteq> None)"

definition below_file :: "string list \<Rightarrow> dirs \<Rightarrow> bool" where
  "below_file p ds \<longleftrightarrow> list_ex (\<lambda>k. is_file (take k p) ds) [0..<length p]"

definition Stat_IsNotExist :: "string list \<Rightarrow> dirs \<Rightarrow> bool" where
  "Stat_IsNotExist p ds \<longleftrightarrow> map_of ds p = None \<and> \<not> is_file p ds \<and> \<not> below_file p ds"

text \<open>A file is not opened for writing where a directory has its name.\<close>

definition WriteFile :: "io_write \<Rightarrow> string list \<Rightarrow> string \<Rightarrow> frm \<Rightarrow> Disk \<Rightarrow> (Disk, unit) outcome" where
  "WriteFile out dir file content d =
     (case map_of (dkDirs d) dir of
        None \<Rightarrow> (Inl (GoError ''open''), d)
      | Some files \<Rightarrow>
          if map_of (dkDirs d) (dir @ [file]) \<noteq> None then (Inl (GoError ''open''), d)
          else (case out of
             WriteOk \<Rightarrow> (Inr (), d\<lparr>dkDirs := AList.update dir (AList.update file content files) (dkDirs d)\<rparr>)
           | WriteFail None \<Rightarrow> (Inl (GoError ''open''), d)
           | WriteFail (Some f) \<Rightarrow>
               (Inl (GoError ''write''), d\<lparr>dkDirs := AList.update dir (AList.update file f files) (dkDirs d)\<rparr>)))"

text \<open>A table configuration read from a file; a version stamp has none of its fields.\<close>

definition zero_TableConfig :: TableConfig where
  "zero_TableConfig = \<lparr>tName = [], tSlots = 0, tBlocks = 0, tShardType = [], tShardKey = [], tPartitions = [],
     tAutoIncrement = None\<rparr>"

fun ReadTableConfig :: "frm \<Rightarrow> TableConfig res" where
  "ReadTableConfig (FrmTable c) = Inr c"
| "ReadTableConfig (FrmVersion _) = Inr zero_TableConfig"
| "ReadTableConfig FrmOther = Inl (GoError ''json'')"

definition UpdateVersion :: "io \<Rightarrow> Disk \<Rightarrow> (Disk, unit) outcome" where
  "UpdateVersion io d = WriteFile (ioVersion io) (dkMetadir d) ''version.json'' (FrmVersion (ioTs io)) d"

definition ReadVersion :: "Disk \<Rightarrow> int" where
  "ReadVersion d =
     (case map_of (dkDirs d) (dkMetadir d) of
        None \<Rightarrow> 0
      | Some files \<Rightarrow> (case map_of files ''version.json'' of Some (FrmVersion ts) \<Rightarrow> ts | _ \<Rightarrow> 0))"

definition writeTableFrmData :: "io \<Rightarrow> string \<Rightarrow> string \<Rightarrow> nat option \<Rightarrow> Node \<Rightarrow> (Node, unit) outcome" where
  "writeTableFrmData io db table tconf n =
     (case tconf of
        None \<Rightarrow> (Inl (GoError ''table.config..can't.be.nil''), n)
      | Some a \<Rightarrow>
          on_disk (\<lambda>d. WriteFile (ioWrite io) (path_join (dkMetadir d) db) (frm_file table)
            (FrmTable (roHeap (nRouter n) ! a)) d) n)"

text \<open>\<open>os.Remove\<close> takes away a file, or a directory that is empty.\<close>

definition Remove :: "io \<Rightarrow> string list \<Rightarrow> string \<Rightarrow> Disk \<Rightarrow> (Disk, unit) outcome" where
  "Remove io dir file d =
     (case map_of (dkDirs d) dir of
        None \<Rightarrow> (Inl (GoError ''remove''), d)
      | Some files \<Rightarrow>
          if \<not> ioRemove io then (Inl (GoError ''remove''), d)
          else if map_of files file \<noteq> None
          then (Inr (), d\<lparr>dkDirs := AList.update dir (AList.delete file files) (dkDirs d)\<rparr>)
          else if map_of (dkDirs d) (dir @ [file]) = Some []
            \<and> \<not> list_ex (\<lambda>e. strict_prefix (dir @ [file]) (fst e)) (dkDirs d)
          then (Inr (), d\<lparr>dkDirs := AList.delete (dir @ [file]) (dkDirs d)\<rparr>)
          else (Inl (GoError ''remove''), d))"

definition removeTableFrmData :: "io \<Rightarrow> string \<Rightarrow> string \<Rightarrow> Disk \<Rightarrow> (Disk, unit) outcome" where
  "removeTableFrmData io db table d = Remove io (path_join (dkMetadir d) db) (frm_file table) d"

definition readTableFrmData :: "io \<Rightarrow> string list \<Rightarrow> string \<Rightarrow> Disk \<Rightarrow> TableConfig res" where
  "readTableFrmData io dir file d =
     (case map_of (dkDirs d) dir of
        None \<Rightarrow> Inl (GoError ''read'')
      | Some files \<Rightarrow>
          (case map_of files file of
             None \<Rightarrow> Inl (GoError ''read'')
           | Some f \<Rightarrow> if ioRead io (dir @ [file]) then ReadTableConfig f else Inl (GoError ''read'')))"

text \<open>A new configuration object.\<close>

definition alloc :: "TableConfig \<Rightarrow> Router \<Rightarrow> Router" where
  "alloc c r = r\<lparr>roHeap := roHeap r @ [c]\<rparr>"

definition loadTableFromFile :: "io \<Rightarrow> string \<Rightarrow> string list \<times> string \<Rightarrow> Node \<Rightarrow> (Node, unit) outcome" where
  "loadTableFromFile io db = (\<lambda>(dir, file) n.
     case readTableFrmData io dir file (nDisk n) of
       Inl e \<Rightarrow> (Inl e, n)
     | Inr conf \<Rightarrow> on_router (\<lambda>r. addTable db (Some (length (roHeap r))) (alloc conf r)) n)"

definition loadTable :: "io \<Rightarrow> string \<Rightarrow> string \<Rightarrow> Node \<Rightarrow> (Node, unit) outcome" where
  "loadTable io db table n =
     loadTableFromFile io db (path_join (dkMetadir (nDisk n)) db, frm_file table) n"

text \<open>\<open>os.MkdirAll\<close>: the directory and the parents it lacks.\<close>

definition mkdir_all :: "string list \<Rightarrow> dirs \<Rightarrow> dirs" where
  "mkdir_all dir ds =
     fold (\<lambda>k ds. if map_of ds (take k dir) = None then AList.update (take k dir) [] ds else ds)
       [0..<Suc (length dir)] ds"

definition writeDatabaseFrmData :: "io \<Rightarrow> string \<Rightarrow> Disk \<Rightarrow> (Disk, unit) outcome" where
  "writeDatabaseFrmData io db d =
     (let dir = path_join (dkMetadir d) db in
      if Stat_IsNotExist dir (dkDirs d)
      then if ioMkdir io then (Inr (), d\<lparr>dkDirs := mkdir_all dir (dkDirs d)\<rparr>)
           else (Inl (GoError ''mkdir''), d)
      else (Inr (), d))"

text \<open>\<open>os.RemoveAll\<close>: the file, or the directory with everything in it; a missing path is no error.\<close>

definition remove_file :: "string list \<Rightarrow> dirs \<Rightarrow> dirs" where
  "remove_file p ds =
     (if is_file p ds
      then AList.update (butlast p) (AList.delete (last p) (the (map_of ds (butlast p)))) ds
      else ds)"

definition RemoveAll :: "io \<Rightarrow> string list \<Rightarrow> Disk \<Rightarrow> (Disk, unit) outcome" where
  "RemoveAll io dir d =
     (case ioRemoveAll io of
        None \<Rightarrow>
          if below_file dir (dkDirs d) then (Inl (GoError ''removeall''), d)
          else (Inr (), d\<lparr>dkDirs := filter (\<lambda>e. \<not> prefix dir (fst e)) (remove_file dir (dkDirs d))\<rparr>)
      | Some left \<Rightarrow> (Inl (GoError ''removeall''), d\<lparr>dkDirs := left\<rparr>))"

subsection \<open>Databases and tables\<close>

abbreviation TableTypeSingle :: string where "TableTypeSingle \<equiv> ''single''"
abbreviation TableTypeGlobal :: string where "TableTypeGlobal \<equiv> ''global''"
abbreviation TableTypePartitionHash :: string where "TableTypePartitionHash \<equiv> ''hash''"
abbreviation TableTypePartitionList :: string where "TableTypePartitionList \<equiv> ''list''"

definition NAME_CHAR_LEN :: nat where "NAME_CHAR_LEN = 64"
definition TABLE_NAME_SUFFIX :: nat where "TABLE_NAME_SUFFIX = 5"

definition checkNameInvalid :: "string \<Rightarrow> bool" where
  "checkNameInvalid name \<longleftrightarrow> CHR '' '' \<in> set name \<or> CHR ''/'' \<in> set name"

text \<open>A version stamp that cannot be written panics.\<close>

definition update_version :: "io \<Rightarrow> Node \<Rightarrow> (Node, unit) outcome" where
  "update_version io n =
     (case on_disk (UpdateVersion io) n of
        (Inl _, n') \<Rightarrow> (Inl (GoPanic ''update.version.error:%v''), n')
      | (Inr _, n') \<Rightarrow> (Inr (), n'))"

definition CreateDatabase :: "io \<Rightarrow> string \<Rightarrow> Node \<Rightarrow> (Node, unit) outcome" where
  "CreateDatabase io db n =
     (if NAME_CHAR_LEN < length db then (Inl ER_TOO_LONG_IDENT, n)
      else if checkNameInvalid db then (Inl (GoError ''invalid.database.name''), n)
      else sbind (on_router (addDatabase db) n) (\<lambda>_ n1.
        case on_disk (writeDatabaseFrmData io db) n1 of
          (Inl e, n2) \<Rightarrow> (Inl e, snd (on_router (dropDatabase db) n2))
        | (Inr _, n2) \<Rightarrow> update_version io n2))"

definition DropDatabase :: "io \<Rightarrow> string \<Rightarrow> Node \<Rightarrow> (Node, unit) outcome" where
  "DropDatabase io db n =
     sbind (on_router (dropDatabase db) n) (\<lambda>_ n1.
     sbind (on_disk (\<lambda>d. RemoveAll io (path_join (dkMetadir d) db) d) n1) (\<lambda>_ n2.
     update_version io n2))"

definition CheckDatabase :: "string \<Rightarrow> Node \<Rightarrow> unit res" where
  "CheckDatabase db n = checkDatabase db (nRouter n)"

definition createTable :: "io \<Rightarrow> string \<Rightarrow> string \<Rightarrow> nat option \<Rightarrow> Node \<Rightarrow> (Node, unit) outcome" where
  "createTable io db table tableConf n =
     (if NAME_CHAR_LEN < length table + TABLE_NAME_SUFFIX then (Inl ER_TOO_LONG_IDENT, n)
      else if checkNameInvalid table then (Inl (GoError ''invalid.table.name''), n)
      else sbind (on_router (addTable db tableConf) n) (\<lambda>_ n1.
        case writeTableFrmData io db table tableConf n1 of
          (Inl e, n2) \<Rightarrow> (Inl e, snd (on_router (removeTable db table) n2))
        | (Inr _, n2) \<Rightarrow> update_version io n2))"

text \<open>
  The shared tail of the three \<open>Create*Table\<close>: the configuration that was computed becomes an
  object, with the auto-increment column of \<open>extra\<close> where it is given.
\<close>

definition create_from :: "io \<Rightarrow> string \<Rightarrow> string \<Rightarrow> TableConfig res \<Rightarrow> string option option \<Rightarrow> Node \<Rightarrow> (Node, unit) outcome" where
  "create_from io db table conf extra n =
     (case conf of
        Inl e \<Rightarrow> (Inl e, n)
      | Inr c \<Rightarrow>
          let c' = (case extra of None \<Rightarrow> c | Some ai \<Rightarrow> c\<lparr>tAutoIncrement := ai\<rparr>)
          in createTable io db table (Some (length (roHeap (nRouter n)))) (n\<lparr>nRouter := alloc c' (nRouter n)\<rparr>))"

definition unsupported_type :: go_err where
  "unsupported_type = GoError ''tableType is unsupported: %s''"

definition CreateNonPartTable ::
  "io \<Rightarrow> string \<Rightarrow> string \<Rightarrow> string \<Rightarrow> string list \<Rightarrow> string option option \<Rightarrow> Node \<Rightarrow> (Node, unit) outcome" where
  "CreateNonPartTable io db table tableType backends extra n =
     create_from io db table
       (if tableType = TableTypeGlobal then GlobalUniform table backends
        else if tableType = TableTypeSingle then SingleUniform table backends
        else Inl unsupported_type) extra n"

definition CreateHashTable ::
  "io \<Rightarrow> string \<Rightarrow> string \<Rightarrow> string \<Rightarrow> string \<Rightarrow> string list \<Rightarrow> SQLVal option \<Rightarrow> string option option \<Rightarrow>
     Node \<Rightarrow> (Node, unit) outcome" where
  "CreateHashTable io db table shardKey tableType backends partitionNum extra n =
     create_from io db table
       (if tableType = TableTypePartitionHash
        then HashUniform (roConf (nRouter n)) table shardKey backends partitionNum
        else Inl unsupported_type) extra n"

definition CreateListTable ::
  "io \<Rightarrow> ((string \<times> string) list \<Rightarrow> (string \<times> string) list) \<Rightarrow> string \<Rightarrow> string \<Rightarrow> string \<Rightarrow> string \<Rightarrow>
     PartitionDefinition list \<Rightarrow> string option option \<Rightarrow> Node \<Rightarrow> (Node, unit) outcome" where
  "CreateListTable io visit db table shardKey tableType partitionDef extra n =
     create_from io db table
       (if tableType = TableTypePartitionList then ListUniform visit table shardKey partitionDef
        else Inl unsupported_type) extra n"

text \<open>\<open>DropTable\<close> is \<open>dropTable\<close> under the lock.\<close>

definition dropTable :: "io \<Rightarrow> string \<Rightarrow> string \<Rightarrow> Node \<Rightarrow> (Node, unit) outcome" where
  "dropTable io db table n =
     sbind (on_router (removeTable db table) n) (\<lambda>_ n1.
     sbind (on_disk (removeTableFrmData io db table) n1) (\<lambda>_ n2.
     update_version io n2))"

definition DropTable :: "io \<Rightarrow> string \<Rightarrow> string \<Rightarrow> Node \<Rightarrow> (Node, unit) outcome" where
  "DropTable io db table n = dropTable io db table n"

definition RenameTable :: "io \<Rightarrow> string \<Rightarrow> string \<Rightarrow> string \<Rightarrow> Node \<Rightarrow> (Node, unit) outcome" where
  "RenameTable io db fromTable toTable n =
     sbind (on_router (getRenameTableConfig db fromTable toTable) n) (\<lambda>a n1.
     sbind (createTable io db toTable (Some a) n1) (\<lambda>_ n2.
     dropTable io db fromTable n2))"

definition RefreshTable :: "io \<Rightarrow> string \<Rightarrow> string \<Rightarrow> Node \<Rightarrow> (Node, unit) outcome" where
  "RefreshTable io db table n =
     sbind (on_router (removeTable db table) n) (\<lambda>_ n1. loadTable io db table n1)"

text \<open>
  \<open>LoadConfig\<close>. \<open>ioutil.ReadDir\<close> returns names in order; every entry of a sub-directory that is a
  file is loaded, whatever its name.
\<close>

definition sub_dirs :: "string list \<Rightarrow> dirs \<Rightarrow> string list" where
  "sub_dirs dir ds = sort (map last (filter (\<lambda>p. p \<noteq> [] \<and> butlast p = dir) (map fst ds)))"

definition dir_files :: "string list \<Rightarrow> dirs \<Rightarrow> string list" where
  "dir_files dir ds = (case map_of ds dir of None \<Rightarrow> [] | Some files \<Rightarrow> sort (map fst files))"

definition load_dir :: "io \<Rightarrow> string \<Rightarrow> Node \<Rightarrow> (Node, unit) outcome" where
  "load_dir io db n =
     (let dir = path_join (dkMetadir (nDisk n)) db
      in sfold (\<lambda>file. loadTableFromFile io db (dir, file)) (dir_files dir (dkDirs (nDisk n))) n)"

definition read_dir :: "io \<Rightarrow> string list \<Rightarrow> string \<Rightarrow> Node \<Rightarrow> (Node, unit) outcome" where
  "read_dir io metadir db n =
     (if ioRead io (metadir @ [db]) then on_router (addDatabase db) n else (Inl (GoError ''readsubdir''), n))"

definition LoadConfig :: "io \<Rightarrow> Node \<Rightarrow> (Node, unit) outcome" where
  "LoadConfig io n0 =
     (let n = n0\<lparr>nRouter := clear (nRouter n0)\<rparr>; d = nDisk n in
      if Stat_IsNotExist (dkMetadir d) (dkDirs d)
      then if ioMkdir io then (Inr (), n\<lparr>nDisk := d\<lparr>dkDirs := mkdir_all (dkMetadir d) (dkDirs d)\<rparr>\<rparr>)
           else (Inl (GoError ''mkdir''), n)
      else if map_of (dkDirs d) (dkMetadir d) = None \<or> \<not> ioRead io (dkMetadir d) then (Inl (GoError ''readdir''), n)
      else
        let dbs = sub_dirs (dkMetadir d) (dkDirs d)
        in sbind (sfold (read_dir io (dkMetadir d)) dbs n) (\<lambda>_.
             sfold (load_dir io) (ioVisit io dbs)))"

definition ReLoad :: "io \<Rightarrow> Node \<Rightarrow> (Node, unit) outcome" where
  "ReLoad io n = LoadConfig io (n\<lparr>nRouter := clear (nRouter n)\<rparr>)"

definition AddForTest :: "string \<Rightarrow> nat option list \<Rightarrow> Node \<Rightarrow> (Node, unit) outcome" where
  "AddForTest db confs n = sfold (\<lambda>conf. on_router (addTable db conf)) confs n"

subsection \<open>Moving a partition to another backend\<close>

fun find_partition :: "string \<Rightarrow> string \<Rightarrow> PartitionConfig list \<Rightarrow> nat \<Rightarrow> nat option" where
  "find_partition fromBackend partitionTable [] i = None"
| "find_partition fromBackend partitionTable (p # ps) i =
     (if pBackend p = fromBackend \<and> pTable p = partitionTable then Some i
      else find_partition fromBackend partitionTable ps (i + 1))"

text \<open>The first table, in the order \<open>range\<close> visits them, with such a partition.\<close>

fun find_rule :: "string \<Rightarrow> string \<Rightarrow> TableConfig list \<Rightarrow> (string \<times> Table) list \<Rightarrow> (Table \<times> nat) option" where
  "find_rule fromBackend partitionTable heap [] = None"
| "find_rule fromBackend partitionTable heap ((_, v) # ts) =
     (case find_partition fromBackend partitionTable (tPartitions (heap ! tbConfig v)) 0 of
        Some i \<Rightarrow> Some (v, i)
      | None \<Rightarrow> find_rule fromBackend partitionTable heap ts)"

definition set_config :: "nat \<Rightarrow> TableConfig \<Rightarrow> Node \<Rightarrow> Node" where
  "set_config a c n = n\<lparr>nRouter := (nRouter n)\<lparr>roHeap := (roHeap (nRouter n))[a := c]\<rparr>\<rparr>"

definition shifted_config :: "string \<Rightarrow> string \<Rightarrow> nat \<Rightarrow> TableConfig \<Rightarrow> TableConfig" where
  "shifted_config toBackend table i c =
     (if tShardType c = MethodTypeGlobal
      then c\<lparr>tPartitions := tPartitions c @ [\<lparr>pTable = table, pSegment = [], pBackend = toBackend, pListValue = []\<rparr>]\<rparr>
      else c\<lparr>tPartitions := (tPartitions c)[i := (tPartitions c ! i)\<lparr>pBackend := toBackend\<rparr>]\<rparr>)"

text \<open>The reset of the memory after a failed write.\<close>

definition reset_config :: "string \<Rightarrow> nat \<Rightarrow> TableConfig \<Rightarrow> TableConfig" where
  "reset_config fromBackend i c =
     (if tShardType c = MethodTypeGlobal then c\<lparr>tPartitions := butlast (tPartitions c)\<rparr>
      else c\<lparr>tPartitions := (tPartitions c)[i := (tPartitions c ! i)\<lparr>pBackend := fromBackend\<rparr>]\<rparr>)"

definition changeTheRuleBackend :: "io \<Rightarrow> string \<Rightarrow> string \<Rightarrow> string \<Rightarrow> string \<Rightarrow> Node \<Rightarrow> (Node, string) outcome" where
  "changeTheRuleBackend io fromBackend toBackend database partitionTable n =
     (let r = nRouter n in
      if fromBackend = toBackend then (Inl (GoError ''router.rule.change.from[%s].cant.equal.to[%s]''), n)
      else if map_of (roSchemas r) database = None
      then (Inl (GoError ''router.rule.change.cant.found.database:%s''), n)
      else case find_rule fromBackend partitionTable (roHeap r) (tables_of r database) of
        None \<Rightarrow> (Inl (GoError ''router.rule.change.cant.found.backend[%s]+table:[%s]''), n)
      | Some (v, i) \<Rightarrow>
          let a = tbConfig v; table = tbName v; c = roHeap r ! a in
          if tShardType c = MethodTypeGlobal \<and> list_ex (\<lambda>p. pBackend p = toBackend) (tPartitions c)
          then (Inl (GoError ''the.table:[%s].already.exists.in.the.backend[%s]''), n)
          else
            let c1 = shifted_config toBackend table i c
            in (case writeTableFrmData io database table (Some a) (set_config a c1 n) of
                  (Inl e, n2) \<Rightarrow> (Inl e, set_config a (reset_config fromBackend i c1) n2)
                | (Inr _, n2) \<Rightarrow> sbind (update_version io n2) (\<lambda>_ n3. (Inr table, n3))))"

definition PartitionRuleShift :: "io \<Rightarrow> string \<Rightarrow> string \<Rightarrow> string \<Rightarrow> string \<Rightarrow> Node \<Rightarrow> (Node, unit) outcome" where
  "PartitionRuleShift io fromBackend toBackend database partitionTable n =
     sbind (changeTheRuleBackend io fromBackend toBackend database partitionTable n) (\<lambda>table n1.
       case RefreshTable io database table n1 of
         (Inl _, n2) \<Rightarrow> (Inl (GoPanic ''router.partition.rule.shift.RefreshTable.error''), n2)
       | (Inr _, n2) \<Rightarrow> (Inr (), n2))"

end
