(* ===== verification/Radon_Catalog.thy ===== *)
theory Radon_Catalog
  imports Radon_Frm
begin

section \<open>The catalogue: memory and files agree\<close>

text \<open>
  The abstract state of the router is a catalogue, a map from database to table to configuration.
  \<open>mem_cat\<close> reads it from the memory, \<open>dir_map\<close> reads the files. \<open>synced\<close> is the invariant of the
  node: both agree, every table is built from its configuration, and no two tables share a
  configuration object.
\<close>

type_synonym catalog = "string \<Rightarrow> (string \<Rightarrow> TableConfig option) option"

definition tab :: "Router \<Rightarrow> string \<Rightarrow> string \<Rightarrow> Table option" where
  "tab r db t = map_of (tables_of r db) t"

definition has_db :: "Router \<Rightarrow> string \<Rightarrow> bool" where
  "has_db r db \<longleftrightarrow> map_of (roSchemas r) db \<noteq> None"

definition conf_of :: "Router \<Rightarrow> string \<Rightarrow> string \<Rightarrow> TableConfig option" where
  "conf_of r db t = map_option (\<lambda>tb. roHeap r ! tbConfig tb) (tab r db t)"

definition mem_cat :: "Router \<Rightarrow> catalog" where
  "mem_cat r db = (if has_db r db then Some (conf_of r db) else None)"

definition dir_map :: "Disk \<Rightarrow> string \<Rightarrow> (string \<Rightarrow> frm option) option" where
  "dir_map d db = map_option map_of (map_of (dkDirs d) (dkMetadir d @ [db]))"

text \<open>The files that hold a map from table to configuration.\<close>

definition unfrm :: "string \<Rightarrow> string option" where
  "unfrm f = (if drop (length f - 5) f = ''.json'' then Some (take (length f - 5) f) else None)"

definition frm_map :: "(string \<Rightarrow> TableConfig option) \<Rightarrow> string \<Rightarrow> frm option" where
  "frm_map m f = Option.bind (unfrm f) (\<lambda>t. map_option FrmTable (m t))"

lemma unfrm_frm_file [simp]: "unfrm (frm_file t) = Some t"
  by (simp add: unfrm_def frm_file_def)

lemma unfrm_eq_Some: "unfrm f = Some t \<longleftrightarrow> f = frm_file t"
proof
  assume "unfrm f = Some t"
  then have "drop (length f - 5) f = ''.json''" "take (length f - 5) f = t"
    by (auto simp: unfrm_def split: if_splits)
  then show "f = frm_file t" unfolding frm_file_def by (metis append_take_drop_id)
qed simp

lemma frm_file_inj [simp]: "frm_file s = frm_file t \<longleftrightarrow> s = t"
  by (simp add: frm_file_def)

lemma frm_map_file [simp]: "frm_map m (frm_file t) = map_option FrmTable (m t)"
  by (simp add: frm_map_def)

lemma frm_map_empty [simp]: "frm_map Map.empty = Map.empty"
  by (auto simp: frm_map_def split: bind_splits)

lemma frm_map_upd [simp]: "frm_map (m(t \<mapsto> c)) = (frm_map m)(frm_file t \<mapsto> FrmTable c)"
  by (rule ext) (auto simp: frm_map_def unfrm_eq_Some split: bind_splits)

lemma frm_map_del [simp]: "frm_map (m(t := None)) = (frm_map m)(frm_file t := None)"
  by (rule ext) (auto simp: frm_map_def unfrm_eq_Some split: bind_splits)

subsection \<open>Invariants\<close>

text \<open>A name that \<open>path.Join\<close> takes as the name of a sub-directory.\<close>

definition plain_name :: "string \<Rightarrow> bool" where
  "plain_name db \<longleftrightarrow> db \<noteq> [] \<and> db \<noteq> ''.'' \<and> db \<noteq> ''..''"

lemma path_join_plain [simp]: "plain_name db \<Longrightarrow> path_join dir db = dir @ [db]"
  by (simp add: path_join_def plain_name_def)

definition table_ok :: "Router \<Rightarrow> string \<Rightarrow> Table \<Rightarrow> bool" where
  "table_ok r t tb \<longleftrightarrow>
     tbName tb = t \<and> tbConfig tb < length (roHeap r) \<and> tName (roHeap r ! tbConfig tb) = t
     \<and> tbShardKey tb = tShardKey (roHeap r ! tbConfig tb)
     \<and> (\<exists>p. build_partition (roConf r) (roHeap r ! tbConfig tb) = Inr p \<and> tbPartition tb = Some p)"

definition unshared :: "Router \<Rightarrow> bool" where
  "unshared r \<longleftrightarrow>
     (\<forall>db t tb db' t' tb'. tab r db t = Some tb \<longrightarrow> tab r db' t' = Some tb' \<longrightarrow>
        tbConfig tb = tbConfig tb' \<longrightarrow> db = db' \<and> t = t')"

definition router_ok :: "Router \<Rightarrow> bool" where
  "router_ok r \<longleftrightarrow>
     (\<forall>db. has_db r db \<longrightarrow> plain_name db) \<and> (\<forall>db. distinct_keys (tables_of r db))
     \<and> (\<forall>db t tb. tab r db t = Some tb \<longrightarrow> table_ok r t tb) \<and> unshared r"

text \<open>
  The files the proxy keeps in the metadata directory beside the directories of the databases: the
  version stamp, the backends, and the lists of the transaction checker.
\<close>

definition meta_files :: "string list" where
  "meta_files = [''version.json'', ''backend.json'', ''xacheck.json'', ''xacheck_timesout.json'']"

text \<open>
  The metadata directory and its parents exist, no path is both a file and a directory, the metadata
  directory has no other files than \<open>meta_files\<close>, and a directory of a database has no directories.
\<close>

definition disk_ok :: "Disk \<Rightarrow> bool" where
  "disk_ok d \<longleftrightarrow>
     distinct_keys (dkDirs d) \<and> (\<forall>e \<in> set (dkDirs d). distinct_keys (snd e))
     \<and> (\<forall>k. take k (dkMetadir d) \<in> keys (dkDirs d)) \<and> (\<forall>p. is_file p (dkDirs d) \<longrightarrow> p \<notin> keys (dkDirs d))
     \<and> (\<forall>f. is_file (dkMetadir d @ [f]) (dkDirs d) \<longrightarrow> f \<in> set meta_files)
     \<and> (\<forall>f \<in> set meta_files. dkMetadir d @ [f] \<notin> keys (dkDirs d))
     \<and> (\<forall>db f. dkMetadir d @ [db, f] \<notin> keys (dkDirs d))"

lemma disk_okD:
  assumes "disk_ok d"
  shows "take k (dkMetadir d) \<in> keys (dkDirs d)" and "dkMetadir d \<in> keys (dkDirs d)"
    and "is_file p (dkDirs d) \<Longrightarrow> p \<notin> keys (dkDirs d)"
    and "is_file (dkMetadir d @ [f]) (dkDirs d) \<Longrightarrow> f \<in> set meta_files"
    and "f \<in> set meta_files \<Longrightarrow> dkMetadir d @ [f] \<notin> keys (dkDirs d)"
    and "dkMetadir d @ [db, f] \<notin> keys (dkDirs d)"
    and "e \<in> set (dkDirs d) \<Longrightarrow> distinct_keys (snd e)" and "distinct_keys (dkDirs d)"
  using assms unfolding disk_ok_def by (blast, metis order_refl take_all, blast+)

lemma disk_okI:
  assumes "distinct_keys (dkDirs d)" "\<And>e. e \<in> set (dkDirs d) \<Longrightarrow> distinct_keys (snd e)"
    and "\<And>k. take k (dkMetadir d) \<in> keys (dkDirs d)" "\<And>p. is_file p (dkDirs d) \<Longrightarrow> p \<notin> keys (dkDirs d)"
    and "\<And>f. is_file (dkMetadir d @ [f]) (dkDirs d) \<Longrightarrow> f \<in> set meta_files"
    and "\<And>f. f \<in> set meta_files \<Longrightarrow> dkMetadir d @ [f] \<notin> keys (dkDirs d)"
    and "\<And>db f. dkMetadir d @ [db, f] \<notin> keys (dkDirs d)"
  shows "disk_ok d"
  using assms unfolding disk_ok_def by blast

definition synced :: "Node \<Rightarrow> bool" where
  "synced n \<longleftrightarrow>
     router_ok (nRouter n) \<and> disk_ok (nDisk n)
     \<and> (\<forall>db. dir_map (nDisk n) db = map_option frm_map (mem_cat (nRouter n) db))"

subsection \<open>Effects in memory\<close>

lemma set_tables_views [simp]:
  shows "has_db (set_tables db ts r) = has_db r" and "roHeap (set_tables db ts r) = roHeap r" "roConf (set_tables db ts r) = roConf r"
  by (auto simp: set_tables_def has_db_def fun_eq_iff split: option.splits)

lemma tables_of_set_tables:
  assumes "has_db r db"
  shows "tables_of (set_tables db ts r) db' = (if db' = db then ts else tables_of r db')"
  using assms by (auto simp: set_tables_def tables_of_def has_db_def)

lemma set_tables_twice [simp]: "set_tables db us (set_tables db ts r) = set_tables db us r"
  by (cases r) (auto simp: set_tables_def split: option.splits)

lemma tab_set_tables:
  assumes "has_db r db"
  shows "tab (set_tables db ts r) = (tab r)(db := map_of ts)"
  using tables_of_set_tables [OF assms] by (auto simp: tab_def fun_eq_iff)

lemma map_of_tables_of: "map_of (tables_of r db) = tab r db"
  by (simp add: tab_def fun_eq_iff)

lemma tab_no_db: "\<not> has_db r db \<Longrightarrow> tab r db t = None"
  by (auto simp: tab_def tables_of_def has_db_def)

lemma tab_has_db: "tab r db t = Some tb \<Longrightarrow> has_db r db"
  using tab_no_db by fastforce

text \<open>The result of an \<open>addTable\<close> that succeeds, and what makes it succeed.\<close>

definition added :: "Router \<Rightarrow> string \<Rightarrow> nat \<Rightarrow> Partition \<Rightarrow> Router \<Rightarrow> bool" where
  "added r db a p r' \<longleftrightarrow>
     (let c = roHeap r ! a
      in roHeap r' = roHeap r \<and> roConf r' = roConf r \<and> (\<forall>db'. has_db r' db' = has_db r db')
       \<and> ((\<forall>db. distinct_keys (tables_of r db)) \<longrightarrow> (\<forall>db. distinct_keys (tables_of r' db)))
       \<and> tab r' = (tab r)(db := (tab r db)(tName c \<mapsto>
           \<lparr>tbName = tName c, tbShardKey = tShardKey c, tbPartition = Some p, tbConfig = a\<rparr>)))"

lemma addTable_added:
  assumes "has_db r db" "db \<noteq> []" "tab r db (tName (roHeap r ! a)) = None"
    and "build_partition (roConf r) (roHeap r ! a) = Inr p"
  shows "\<exists>r'. addTable db (Some a) r = (Inr (), r') \<and> added r db a p r'"
proof -
  let ?c = "roHeap r ! a"
  let ?ts = "AList.update (tName ?c) \<lparr>tbName = tName ?c, tbShardKey = tShardKey ?c,
    tbPartition = Some p, tbConfig = a\<rparr> (tables_of r db)"
  have "addTable db (Some a) r = (Inr (), set_tables db ?ts r)"
    using assms by (simp add: addTable_def Let_def checkDatabase_def tab_def tables_of_set_tables has_db_def)
  moreover have "added r db a p (set_tables db ?ts r)"
    using assms(1) by (simp add: added_def Let_def tab_set_tables map_of_tables_of tables_of_set_tables)
  ultimately show ?thesis by blast
qed

lemma addTable_Inr:
  assumes "addTable db (Some a) r = (Inr (), r')"
  shows "has_db r db \<and> db \<noteq> [] \<and> tab r db (tName (roHeap r ! a)) = None
    \<and> (\<exists>p. build_partition (roConf r) (roHeap r ! a) = Inr p \<and> added r db a p r')"
proof -
  have c: "has_db r db" "db \<noteq> []" "tab r db (tName (roHeap r ! a)) = None"
    "\<exists>p. build_partition (roConf r) (roHeap r ! a) = Inr p"
    using assms
    by (auto simp: addTable_def Let_def checkDatabase_def tab_def has_db_def split: if_splits sum.splits)
  then obtain p where p: "build_partition (roConf r) (roHeap r ! a) = Inr p" by blast
  from addTable_added [OF c(1-3) p] assms c p show ?thesis by auto
qed

lemma mem_cat_added:
  assumes "added r db a p r'" "has_db r db"
  shows "mem_cat r' = (mem_cat r)(db \<mapsto> (conf_of r db)(tName (roHeap r ! a) \<mapsto> roHeap r ! a))"
  using assms by (auto simp: mem_cat_def conf_of_def added_def Let_def fun_eq_iff)

definition removed :: "Router \<Rightarrow> string \<Rightarrow> string \<Rightarrow> Router \<Rightarrow> bool" where
  "removed r db t r' \<longleftrightarrow>
     roHeap r' = roHeap r \<and> roConf r' = roConf r \<and> (\<forall>db'. has_db r' db' = has_db r db')
     \<and> ((\<forall>db. distinct_keys (tables_of r db)) \<longrightarrow> (\<forall>db. distinct_keys (tables_of r' db)))
     \<and> tab r' = (tab r)(db := (tab r db)(t := None))"

lemma removeTable_removed:
  assumes "tab r db t = Some tb"
  shows "\<exists>r'. removeTable db t r = (Inr (), r') \<and> removed r db t r'"
  using assms tab_has_db [OF assms]
  by (auto simp: removeTable_def removed_def tab_set_tables map_of_tables_of has_db_def [of r db]
      tables_of_set_tables)

lemma removeTable_Inr:
  assumes "removeTable db t r = (Inr (), r')"
  shows "(\<exists>tb. tab r db t = Some tb) \<and> removed r db t r'"
proof -
  from assms obtain tb where tb: "tab r db t = Some tb"
    by (auto simp: removeTable_def tab_def split: if_splits)
  from removeTable_removed [OF tb] assms tb show ?thesis by auto
qed

lemma mem_cat_removed:
  assumes "removed r db t r'" "has_db r db"
  shows "mem_cat r' = (mem_cat r)(db \<mapsto> (conf_of r db)(t := None))"
  using assms by (auto simp: mem_cat_def conf_of_def removed_def fun_eq_iff)

lemma mem_cat_Some: "has_db r db \<Longrightarrow> mem_cat r db = Some (conf_of r db)"
  by (simp add: mem_cat_def)

lemma router_ok_removed: "router_ok r \<Longrightarrow> removed r db t r' \<Longrightarrow> router_ok r'"
  by (simp add: router_ok_def removed_def table_ok_def unshared_def) blast

definition unused :: "Router \<Rightarrow> nat \<Rightarrow> bool" where
  "unused r a \<longleftrightarrow> (\<forall>db t tb. tab r db t = Some tb \<longrightarrow> tbConfig tb \<noteq> a)"

lemma router_ok_added:
  assumes "router_ok r" "added r db a p r'" "has_db r db" "a < length (roHeap r)" "unused r a"
    and "build_partition (roConf r) (roHeap r ! a) = Inr p"
  shows "router_ok r'"
proof -
  have tab: "tab r' = (tab r)(db := (tab r db)(tName (roHeap r ! a) \<mapsto>
      \<lparr>tbName = tName (roHeap r ! a), tbShardKey = tShardKey (roHeap r ! a), tbPartition = Some p, tbConfig = a\<rparr>))"
    and same: "roHeap r' = roHeap r" "roConf r' = roConf r" "\<And>db'. has_db r' db' = has_db r db'"
      "\<And>db'. distinct_keys (tables_of r' db')"
    using assms(1,2) by (simp_all add: added_def Let_def router_ok_def)
  have "unshared r'"
    using assms(1,5) unfolding unshared_def tab router_ok_def unused_def
    by (auto split: if_splits)
  moreover have "table_ok r' t tb" if "tab r' db' t = Some tb" for db' t tb
    using that assms(1,4,6) unfolding tab same table_ok_def router_ok_def by (auto split: if_splits)
  ultimately show ?thesis using assms(1) same by (simp add: router_ok_def)
qed

lemma alloc_views [simp]:
  "tab (alloc c r) = tab r" "roConf (alloc c r) = roConf r" "roSchemas (alloc c r) = roSchemas r"
  "roHeap (alloc c r) = roHeap r @ [c]" "has_db (alloc c r) = has_db r"
  "tables_of (alloc c r) = tables_of r"
  by (auto simp: alloc_def tab_def tables_of_def has_db_def fun_eq_iff)

lemma unused_fresh: "router_ok r \<Longrightarrow> unused r (length (roHeap r))"
  unfolding unused_def router_ok_def table_ok_def by (metis less_irrefl)

lemma router_ok_alloc: "router_ok r \<Longrightarrow> router_ok (alloc c r)"
  by (fastforce simp: router_ok_def table_ok_def unshared_def nth_append)

lemma mem_cat_alloc: "router_ok r \<Longrightarrow> mem_cat (alloc c r) = mem_cat r"
proof
  fix db assume ok: "router_ok r"
  have "conf_of (alloc c r) db t = conf_of r db t" for t
    using ok by (cases "tab r db t") (auto simp: conf_of_def router_ok_def table_ok_def nth_append)
  then show "mem_cat (alloc c r) db = mem_cat r db" by (simp add: mem_cat_def fun_eq_iff)
qed

subsection \<open>Effects on the files\<close>

text \<open>\<open>disk_upd d db m d'\<close>: the files of one database become \<open>m\<close>, those of the others stay.\<close>

definition disk_upd :: "Disk \<Rightarrow> string \<Rightarrow> (string \<Rightarrow> frm option) option \<Rightarrow> Disk \<Rightarrow> bool" where
  "disk_upd d db m d' \<longleftrightarrow>
     dkMetadir d' = dkMetadir d \<and> disk_ok d' \<and> dir_map d' = (dir_map d)(db := m)"

lemma set_update_sub: "set (AList.update k v m) \<subseteq> insert (k, v) (set m)"
  by (induction m) auto

lemma is_file_snoc: "is_file (dir @ [f]) ds \<longleftrightarrow> (\<exists>files. map_of ds dir = Some files \<and> f \<in> keys files)"
  unfolding is_file_def butlast_snoc last_snoc
  by (cases "map_of ds dir") (simp_all add: keys_map_of)

lemma is_file_put:
  "is_file p (AList.update dir files ds) \<longleftrightarrow>
     (if p \<noteq> [] \<and> butlast p = dir then last p \<in> keys files else is_file p ds)"
  by (auto simp: is_file_def map_of_None_keys)

lemma disk_ok_put:
  assumes "disk_ok d" "distinct_keys files" "dir \<in> keys (dkDirs d)"
    and "\<And>f. f \<in> keys files \<Longrightarrow> dir @ [f] \<notin> keys (dkDirs d)"
    and "dir = dkMetadir d \<Longrightarrow> keys files \<subseteq> set meta_files"
  shows "disk_ok (d\<lparr>dkDirs := AList.update dir files (dkDirs d)\<rparr>)"
proof -
  let ?ds = "AList.update dir files (dkDirs d)"
  have ks: "keys (dkDirs (d\<lparr>dkDirs := ?ds\<rparr>)) = keys (dkDirs d)" using assms(3) by auto
  show ?thesis
  proof (rule disk_okI)
    show "distinct_keys (dkDirs (d\<lparr>dkDirs := ?ds\<rparr>))" using disk_okD(8) [OF assms(1)] by simp
    show "distinct_keys (snd e)" if "e \<in> set (dkDirs (d\<lparr>dkDirs := ?ds\<rparr>))" for e
      using that set_update_sub [of dir files "dkDirs d"] disk_okD(7) [OF assms(1), of e] assms(2) by auto
    show "p \<notin> keys (dkDirs (d\<lparr>dkDirs := ?ds\<rparr>))" if f: "is_file p (dkDirs (d\<lparr>dkDirs := ?ds\<rparr>))" for p
    proof (cases "p \<noteq> [] \<and> butlast p = dir")
      case True
      with f have "last p \<in> keys files" by (simp add: is_file_put)
      from assms(4) [OF this] True append_butlast_last_id [of p] show ?thesis unfolding ks by metis
    next
      case False
      with f have "is_file p (dkDirs d)" unfolding is_file_put by (simp add: is_file_put split: if_splits)
      with assms(1) show ?thesis unfolding ks by (rule disk_okD(3))
    qed
    show "f \<in> set meta_files" if "is_file (dkMetadir (d\<lparr>dkDirs := ?ds\<rparr>) @ [f]) (dkDirs (d\<lparr>dkDirs := ?ds\<rparr>))" for f
      using that assms(5) disk_okD(4) [OF assms(1)] by (auto simp: is_file_put split: if_splits)
  qed (unfold ks, simp_all add: disk_okD [OF assms(1)])
qed

lemma disk_ok_files:
  assumes "disk_ok d" "map_of (dkDirs d) dir = Some files"
  shows "distinct_keys files"
  using disk_okD(7) [OF assms(1) map_of_SomeD [OF assms(2)]] by simp

lemma disk_ok_names:
  assumes "disk_ok d" "map_of (dkDirs d) dir = Some files" "f \<in> keys files"
  shows "dir @ [f] \<notin> keys (dkDirs d)"
proof -
  have "is_file (dir @ [f]) (dkDirs d)" unfolding is_file_snoc using assms(2,3) by blast
  with assms(1) show ?thesis by (rule disk_okD(3))
qed

lemma disk_ok_metadir:
  assumes "disk_ok d"
  obtains files where "map_of (dkDirs d) (dkMetadir d) = Some files" "keys files \<subseteq> set meta_files"
proof -
  from disk_okD(2) [OF assms] obtain files where files: "map_of (dkDirs d) (dkMetadir d) = Some files"
    unfolding keys_map_of by blast
  moreover have "f \<in> set meta_files" if "f \<in> keys files" for f
  proof -
    have "is_file (dkMetadir d @ [f]) (dkDirs d)" unfolding is_file_snoc using files that by blast
    with assms show ?thesis by (rule disk_okD(4))
  qed
  ultimately show thesis using that by blast
qed

text \<open>Nothing in the metadata directory lies below a file.\<close>

lemma disk_ok_below:
  assumes "disk_ok d"
  shows "\<not> below_file (dkMetadir d @ [db]) (dkDirs d)"
proof -
  have "\<not> is_file (take k (dkMetadir d)) (dkDirs d)" for k
    using disk_okD(1,3) [OF assms] by blast
  then have "\<not> is_file (take k (dkMetadir d @ [db])) (dkDirs d)" if "k < Suc (length (dkMetadir d))" for k
    using that by simp
  then show ?thesis unfolding below_file_def list_ex_iff
    by (metis atLeastLessThan_iff length_append_singleton set_upt)
qed

lemma dir_map_put:
  "dir_map (d\<lparr>dkDirs := AList.update (dkMetadir d @ [db]) files (dkDirs d)\<rparr>) =
     (dir_map d)(db \<mapsto> map_of files)"
  by (auto simp: dir_map_def fun_eq_iff)

lemma dir_map_Some:
  assumes "dir_map d db = Some fm"
  obtains files where "map_of (dkDirs d) (dkMetadir d @ [db]) = Some files" "fm = map_of files"
  using assms by (auto simp: dir_map_def)

lemma disk_upd_put:
  assumes "disk_ok d" "distinct_keys files" "dir_map d db \<noteq> None"
  shows "disk_upd d db (Some (map_of files)) (d\<lparr>dkDirs := AList.update (dkMetadir d @ [db]) files (dkDirs d)\<rparr>)"
proof -
  have "dkMetadir d @ [db] \<in> keys (dkDirs d)" using assms(3) by (auto simp: dir_map_def map_of_None_keys)
  then have "disk_ok (d\<lparr>dkDirs := AList.update (dkMetadir d @ [db]) files (dkDirs d)\<rparr>)"
    using disk_okD(6) [OF assms(1)] by (intro disk_ok_put [OF assms(1,2)]) simp_all
  then show ?thesis by (simp add: disk_upd_def dir_map_put)
qed

lemma WriteFile_upd:
  assumes "disk_ok d" "dir_map d db = Some fm"
  shows "\<exists>d'. WriteFile WriteOk (dkMetadir d @ [db]) f c d = (Inr (), d')
    \<and> disk_upd d db (Some (fm(f \<mapsto> c))) d'"
proof -
  from assms(2) obtain files where files: "map_of (dkDirs d) (dkMetadir d @ [db]) = Some files" "fm = map_of files"
    by (rule dir_map_Some)
  have "disk_upd d db (Some (map_of (AList.update f c files)))
      (d\<lparr>dkDirs := AList.update (dkMetadir d @ [db]) (AList.update f c files) (dkDirs d)\<rparr>)"
    using disk_ok_files [OF assms(1) files(1)] assms(2) by (intro disk_upd_put [OF assms(1)]) simp_all
  moreover have "map_of (dkDirs d) (dkMetadir d @ [db, f]) = None"
    unfolding map_of_None_keys by (rule disk_okD(6) [OF assms(1)])
  ultimately show ?thesis using files by (simp add: WriteFile_def)
qed

lemma removeTableFrmData_upd:
  assumes "disk_ok d" "dir_map d db = Some fm" "plain_name db" "fm (frm_file t) \<noteq> None" "ioRemove io"
  shows "\<exists>d'. removeTableFrmData io db t d = (Inr (), d') \<and> disk_upd d db (Some (fm(frm_file t := None))) d'"
proof -
  from assms(2) obtain files where files: "map_of (dkDirs d) (dkMetadir d @ [db]) = Some files" "fm = map_of files"
    by (rule dir_map_Some)
  have "disk_upd d db (Some (map_of (AList.delete (frm_file t) files)))
      (d\<lparr>dkDirs := AList.update (dkMetadir d @ [db]) (AList.delete (frm_file t) files) (dkDirs d)\<rparr>)"
    using disk_ok_files [OF assms(1) files(1)] assms(2) by (intro disk_upd_put [OF assms(1)]) simp_all
  with files assms(3-5) show ?thesis by (simp add: removeTableFrmData_def Remove_def)
qed

text \<open>\<open>MkdirAll\<close> below the metadata directory makes one directory.\<close>

lemma mkdir_all_one:
  assumes "\<And>k. take k dir \<in> keys ds" "dir @ [db] \<notin> keys ds"
  shows "mkdir_all (dir @ [db]) ds = AList.update (dir @ [db]) [] ds"
proof -
  have "fold (\<lambda>k ds. if map_of ds (take k (dir @ [db])) = None then AList.update (take k (dir @ [db])) [] ds else ds)
      [0..<Suc m] ds = ds" if "m \<le> length dir" for m
    using that
  proof (induction m)
    case 0
    have "[] \<in> keys ds" using assms(1) [of 0] by simp
    then have "map_of ds [] \<noteq> None" using map_of_None_keys [of ds "[]"] by simp
    then show ?case by auto
  next
    case (Suc m)
    have "map_of ds (take (Suc m) dir) \<noteq> None"
      using assms(1) [of "Suc m"] map_of_None_keys [of ds "take (Suc m) dir"] by simp
    then show ?case using Suc by auto
  qed
  from this [of "length dir"] show ?thesis
    using assms(2) by (simp add: mkdir_all_def map_of_None_keys)
qed

lemma dir_map_None: "dir_map d db = None \<longleftrightarrow> dkMetadir d @ [db] \<notin> keys (dkDirs d)"
  by (simp add: dir_map_def map_of_None_keys)

lemma disk_ok_mkdir:
  assumes "disk_ok d" "dkMetadir d @ [db] \<notin> keys (dkDirs d)" "db \<notin> set meta_files"
  shows "disk_ok (d\<lparr>dkDirs := AList.update (dkMetadir d @ [db]) [] (dkDirs d)\<rparr>)"
proof -
  let ?p = "dkMetadir d @ [db]"
  let ?ds = "AList.update ?p [] (dkDirs d)"
  have ks: "keys (dkDirs (d\<lparr>dkDirs := ?ds\<rparr>)) = insert ?p (keys (dkDirs d))" by auto
  have old: "is_file p (dkDirs (d\<lparr>dkDirs := ?ds\<rparr>)) \<Longrightarrow> is_file p (dkDirs d)" for p
    by (auto simp: is_file_put split: if_splits)
  show ?thesis
  proof (rule disk_okI)
    show "distinct_keys (dkDirs (d\<lparr>dkDirs := ?ds\<rparr>))" using disk_okD(8) [OF assms(1)] by simp
    show "distinct_keys (snd e)" if "e \<in> set (dkDirs (d\<lparr>dkDirs := ?ds\<rparr>))" for e
      using that set_update_sub [of ?p "[]" "dkDirs d"] disk_okD(7) [OF assms(1), of e] by (auto simp: distinct_keys_def)
    show "p \<notin> keys (dkDirs (d\<lparr>dkDirs := ?ds\<rparr>))" if "is_file p (dkDirs (d\<lparr>dkDirs := ?ds\<rparr>))" for p
      unfolding ks using disk_okD(3,4) [OF assms(1)] assms(3) old [OF that] by blast
    show "take k (dkMetadir (d\<lparr>dkDirs := ?ds\<rparr>)) \<in> keys (dkDirs (d\<lparr>dkDirs := ?ds\<rparr>))" for k
      unfolding ks using disk_okD(1) [OF assms(1), of k] by simp
    show "dkMetadir (d\<lparr>dkDirs := ?ds\<rparr>) @ [e, f] \<notin> keys (dkDirs (d\<lparr>dkDirs := ?ds\<rparr>))" for e f
      unfolding ks using disk_okD(6) [OF assms(1), of e f] by simp
    show "dkMetadir (d\<lparr>dkDirs := ?ds\<rparr>) @ [f] \<notin> keys (dkDirs (d\<lparr>dkDirs := ?ds\<rparr>))" if "f \<in> set meta_files" for f
      unfolding ks using disk_okD(5) [OF assms(1) that] assms(3) that by auto
    show "f \<in> set meta_files" if "is_file (dkMetadir (d\<lparr>dkDirs := ?ds\<rparr>) @ [f]) (dkDirs (d\<lparr>dkDirs := ?ds\<rparr>))" for f
      using disk_okD(4) [OF assms(1)] old [OF that] by simp
  qed
qed

lemma writeDatabaseFrmData_upd:
  assumes "disk_ok d" "dir_map d db = None" "plain_name db" "ioMkdir io" "db \<notin> set meta_files"
  shows "\<exists>d'. writeDatabaseFrmData io db d = (Inr (), d') \<and> disk_upd d db (Some Map.empty) d'"
proof -
  have new: "dkMetadir d @ [db] \<notin> keys (dkDirs d)" using assms(2) by (simp add: dir_map_None)
  then have "Stat_IsNotExist (dkMetadir d @ [db]) (dkDirs d)"
    unfolding Stat_IsNotExist_def map_of_None_keys
    using assms(5) disk_ok_below [OF assms(1), of db] disk_okD(4) [OF assms(1), of db] by blast
  moreover have "mkdir_all (dkMetadir d @ [db]) (dkDirs d) = AList.update (dkMetadir d @ [db]) [] (dkDirs d)"
    by (rule mkdir_all_one [OF disk_okD(1) [OF assms(1)] new])
  ultimately show ?thesis
    using disk_ok_mkdir [OF assms(1) new assms(5)] assms(3,4)
    by (simp add: writeDatabaseFrmData_def Let_def disk_upd_def dir_map_put)
qed

lemma is_file_filter:
  assumes "is_file p (filter (\<lambda>e. P (fst e)) ds)"
  shows "is_file p ds"
  using assms by (auto simp: is_file_def map_of_filter_key [of P] split: option.splits if_splits)

lemma RemoveAll_upd:
  assumes "disk_ok d" "ioRemoveAll io = None" "dir_map d db \<noteq> None"
  shows "\<exists>d'. RemoveAll io (dkMetadir d @ [db]) d = (Inr (), d') \<and> disk_upd d db None d'"
proof -
  let ?P = "\<lambda>p. \<not> prefix (dkMetadir d @ [db]) p"
  let ?ds = "filter (\<lambda>e. ?P (fst e)) (dkDirs d)"
  have "\<not> is_file (dkMetadir d @ [db]) (dkDirs d)"
    using disk_okD(3) [OF assms(1)] assms(3) unfolding dir_map_None by blast
  then have rm: "remove_file (dkMetadir d @ [db]) (dkDirs d) = dkDirs d" by (simp add: remove_file_def)
  have top: "?P (take k (dkMetadir d))" for k
    using prefix_length_le [of "dkMetadir d @ [db]" "take k (dkMetadir d)"] by auto
  have ks: "p \<in> keys (dkDirs (d\<lparr>dkDirs := ?ds\<rparr>)) \<longleftrightarrow> p \<in> keys (dkDirs d) \<and> ?P p" for p by force
  note old = is_file_filter [of _ ?P "dkDirs d"]
  have "disk_ok (d\<lparr>dkDirs := ?ds\<rparr>)"
  proof (rule disk_okI)
    show "distinct_keys (dkDirs (d\<lparr>dkDirs := ?ds\<rparr>))"
      using disk_okD(8) [OF assms(1)] by (simp add: distinct_keys_def distinct_map_filter)
    show "distinct_keys (snd e)" if "e \<in> set (dkDirs (d\<lparr>dkDirs := ?ds\<rparr>))" for e
      using that disk_okD(7) [OF assms(1)] by simp
    show "take k (dkMetadir (d\<lparr>dkDirs := ?ds\<rparr>)) \<in> keys (dkDirs (d\<lparr>dkDirs := ?ds\<rparr>))" for k
      unfolding ks using disk_okD(1) [OF assms(1), of k] top [of k] by simp
    show "p \<notin> keys (dkDirs (d\<lparr>dkDirs := ?ds\<rparr>))" if "is_file p (dkDirs (d\<lparr>dkDirs := ?ds\<rparr>))" for p
      unfolding ks using disk_okD(3) [OF assms(1)] old [of p] that by simp
    show "f \<in> set meta_files" if "is_file (dkMetadir (d\<lparr>dkDirs := ?ds\<rparr>) @ [f]) (dkDirs (d\<lparr>dkDirs := ?ds\<rparr>))" for f
      using disk_okD(4) [OF assms(1)] old that by simp
  qed (unfold ks, simp_all add: disk_okD(5,6) [OF assms(1)])
  moreover have "dir_map (d\<lparr>dkDirs := ?ds\<rparr>) = (dir_map d)(db := None)"
    by (auto simp: dir_map_def fun_eq_iff map_of_filter_key [of ?P])
  ultimately show ?thesis
    using assms(2) disk_ok_below [OF assms(1), of db] by (simp add: RemoveAll_def disk_upd_def rm)
qed

lemma UpdateVersion_keeps:
  assumes "disk_ok d" "ioVersion io = WriteOk"
  shows "\<exists>d'. UpdateVersion io d = (Inr (), d') \<and> dkMetadir d' = dkMetadir d \<and> disk_ok d' \<and> dir_map d' = dir_map d"
proof -
  from assms(1) obtain files where files: "map_of (dkDirs d) (dkMetadir d) = Some files" "keys files \<subseteq> set meta_files"
    by (rule disk_ok_metadir)
  let ?fs = "AList.update ''version.json'' (FrmVersion (ioTs io)) files"
  let ?d = "d\<lparr>dkDirs := AList.update (dkMetadir d) ?fs (dkDirs d)\<rparr>"
  have v: "''version.json'' \<in> set meta_files" by (simp add: meta_files_def)
  then have new: "dkMetadir d @ [''version.json''] \<notin> keys (dkDirs d)" by (rule disk_okD(5) [OF assms(1)])
  have ks: "keys ?fs = insert ''version.json'' (keys files)" by auto
  have "disk_ok ?d"
  proof (rule disk_ok_put [OF assms(1) _ disk_okD(2) [OF assms(1)]])
    show "distinct_keys ?fs" using disk_ok_files [OF assms(1) files(1)] by simp
  qed (use files(2) v new disk_ok_names [OF assms(1) files(1)] in \<open>unfold ks, blast+\<close>)
  moreover have "dir_map ?d = dir_map d" by (auto simp: dir_map_def fun_eq_iff)
  ultimately show ?thesis using files(1) assms(2) new by (simp add: UpdateVersion_def WriteFile_def map_of_None_keys)
qed

subsection \<open>Operations that succeed\<close>

text \<open>The version stamp lies outside the catalogue.\<close>

lemma update_version_synced:
  assumes "synced n" "ioVersion io = WriteOk"
  shows "\<exists>n'. update_version io n = (Inr (), n') \<and> synced n' \<and> nRouter n' = nRouter n"
proof -
  from UpdateVersion_keeps [of "nDisk n" io] assms obtain d' where
    "UpdateVersion io (nDisk n) = (Inr (), d')" "disk_ok d'" "dir_map d' = dir_map (nDisk n)"
    by (auto simp: synced_def)
  with assms(1) show ?thesis by (simp add: update_version_def on_disk_def synced_def)
qed

text \<open>A change of one database in memory followed by the same change of its files.\<close>

lemma synced_step:
  assumes "synced n" "router_ok r'" "mem_cat r' = (mem_cat (nRouter n))(db := m)"
    and "disk_upd (nDisk n) db (map_option frm_map m) d'"
  shows "synced \<lparr>nRouter = r', nDisk = d'\<rparr>"
  using assms by (auto simp: synced_def disk_upd_def)

lemma synced_dir_map:
  assumes "synced n" "has_db (nRouter n) db"
  shows "dir_map (nDisk n) db = Some (frm_map (conf_of (nRouter n) db))"
  using assms by (simp add: synced_def mem_cat_def)

lemma synced_plain: "synced n \<Longrightarrow> has_db (nRouter n) db \<Longrightarrow> plain_name db"
  by (simp add: synced_def router_ok_def)

definition name_ok :: "string \<Rightarrow> bool" where
  "name_ok t \<longleftrightarrow> length t + TABLE_NAME_SUFFIX \<le> NAME_CHAR_LEN \<and> \<not> checkNameInvalid t"

text \<open>
  The general form of \<open>createTable\<close>: the configuration object is in the heap and no table but those
  that are about to be removed points to it.
\<close>

lemma createTable_files:
  assumes "disk_ok d" "dir_map d db = Some fm" "plain_name db" "has_db r db"
    and "name_ok (tName (roHeap r ! a))" "tab r db (tName (roHeap r ! a)) = None"
    and "build_partition (roConf r) (roHeap r ! a) = Inr p"
    and "ioWrite io = WriteOk" "ioVersion io = WriteOk"
  shows "\<exists>r' d' d''. createTable io db (tName (roHeap r ! a)) (Some a) \<lparr>nRouter = r, nDisk = d\<rparr> =
      (Inr (), \<lparr>nRouter = r', nDisk = d''\<rparr>)
    \<and> added r db a p r' \<and> disk_upd d db (Some (fm(frm_file (tName (roHeap r ! a)) \<mapsto> FrmTable (roHeap r ! a)))) d''"
proof -
  let ?c = "roHeap r ! a"
  have "db \<noteq> []" using assms(3) by (simp add: plain_name_def)
  from addTable_added [OF assms(4) this assms(6,7)] obtain r' where
    r': "addTable db (Some a) r = (Inr (), r')" "added r db a p r'" by blast
  from WriteFile_upd [OF assms(1,2), of "frm_file (tName ?c)" "FrmTable ?c"] obtain d' where
    d': "WriteFile WriteOk (dkMetadir d @ [db]) (frm_file (tName ?c)) (FrmTable ?c) d = (Inr (), d')"
      "disk_upd d db (Some (fm(frm_file (tName ?c) \<mapsto> FrmTable ?c))) d'" by blast
  then have "disk_ok d'" by (simp add: disk_upd_def)
  from UpdateVersion_keeps [OF this assms(9)] obtain d'' where
    d'': "UpdateVersion io d' = (Inr (), d'')" "dkMetadir d'' = dkMetadir d'" "disk_ok d''" "dir_map d'' = dir_map d'"
    by blast
  have "disk_upd d db (Some (fm(frm_file (tName ?c) \<mapsto> FrmTable ?c))) d''"
    using d'(2) d''(2-4) by (simp add: disk_upd_def)
  moreover have "roHeap r' ! a = ?c" using r'(2) by (simp add: added_def Let_def)
  ultimately show ?thesis
    using r' d'(1) d''(1) assms(3,5,8)
    by (auto simp: createTable_def name_ok_def on_router_def writeTableFrmData_def on_disk_def update_version_def)
qed

lemma dropTable_files:
  assumes "disk_ok d" "dir_map d db = Some fm" "plain_name db" "tab r db t = Some tb"
    and "fm (frm_file t) \<noteq> None" "ioRemove io" "ioVersion io = WriteOk"
  shows "\<exists>r' d''. dropTable io db t \<lparr>nRouter = r, nDisk = d\<rparr> = (Inr (), \<lparr>nRouter = r', nDisk = d''\<rparr>)
    \<and> removed r db t r' \<and> disk_upd d db (Some (fm(frm_file t := None))) d''"
proof -
  from removeTable_removed [OF assms(4)] obtain r' where
    r': "removeTable db t r = (Inr (), r')" "removed r db t r'" by blast
  from removeTableFrmData_upd [OF assms(1,2,3,5,6)] obtain d' where
    d': "removeTableFrmData io db t d = (Inr (), d')" "disk_upd d db (Some (fm(frm_file t := None))) d'" by blast
  then have "disk_ok d'" by (simp add: disk_upd_def)
  from UpdateVersion_keeps [OF this assms(7)] obtain d'' where
    d'': "UpdateVersion io d' = (Inr (), d'')" "dkMetadir d'' = dkMetadir d'" "disk_ok d''" "dir_map d'' = dir_map d'"
    by blast
  have "disk_upd d db (Some (fm(frm_file t := None))) d''"
    using d'(2) d''(2-4) by (simp add: disk_upd_def)
  with r' d'(1) d''(1) show ?thesis
    by (auto simp: dropTable_def on_router_def on_disk_def update_version_def)
qed

lemma createTable_synced:
  assumes "synced n" "has_db (nRouter n) db" "conf_of (nRouter n) db (tName c) = None" "name_ok (tName c)"
    and "build_partition (roConf (nRouter n)) c = Inr p" "ioWrite io = WriteOk" "ioVersion io = WriteOk"
  shows "\<exists>n'. createTable io db (tName c) (Some (length (roHeap (nRouter n)))) (n\<lparr>nRouter := alloc c (nRouter n)\<rparr>)
      = (Inr (), n') \<and> synced n'
    \<and> mem_cat (nRouter n') = (mem_cat (nRouter n))(db \<mapsto> (conf_of (nRouter n) db)(tName c \<mapsto> c))"
proof -
  let ?r = "alloc c (nRouter n)" and ?a = "length (roHeap (nRouter n))"
  have ok: "router_ok (nRouter n)" using assms(1) by (simp add: synced_def)
  have c: "roHeap ?r ! ?a = c" by simp
  have cat: "mem_cat ?r = mem_cat (nRouter n)" using mem_cat_alloc [OF ok] .
  have conf: "conf_of ?r db = conf_of (nRouter n) db"
    using fun_cong [OF cat, of db] assms(2) by (simp add: mem_cat_def)
  have hdb: "has_db ?r db" using assms(2) by simp
  have free: "tab ?r db (tName (roHeap ?r ! ?a)) = None" using assms(3) by (simp add: conf_of_def)
  have b: "build_partition (roConf ?r) (roHeap ?r ! ?a) = Inr p" using assms(5) by simp
  have dm: "dir_map (nDisk n) db = Some (frm_map (conf_of (nRouter n) db))" using synced_dir_map assms(1,2) by blast
  have nm: "name_ok (tName (roHeap ?r ! ?a))" using assms(4) by simp
  have dok: "disk_ok (nDisk n)" using assms(1) by (simp add: synced_def)
  from createTable_files [OF dok dm synced_plain [OF assms(1,2)] hdb nm free b assms(6,7)] obtain r' d' where
    res: "createTable io db (tName c) (Some ?a) \<lparr>nRouter = ?r, nDisk = nDisk n\<rparr> = (Inr (), \<lparr>nRouter = r', nDisk = d'\<rparr>)"
    and r': "added ?r db ?a p r'"
    and d': "disk_upd (nDisk n) db (Some ((frm_map (conf_of (nRouter n) db))(frm_file (tName c) \<mapsto> FrmTable c))) d'"
    by (auto simp: c)
  have mc: "mem_cat r' = (mem_cat (nRouter n))(db \<mapsto> (conf_of (nRouter n) db)(tName c \<mapsto> c))"
    using mem_cat_added [OF r' hdb] by (simp add: cat conf)
  have "unused ?r ?a" using unused_fresh [OF ok] by (simp add: unused_def)
  then have "router_ok r'" using router_ok_added [OF router_ok_alloc [OF ok] r' hdb _ _ b] by simp
  from synced_step [OF assms(1) this mc] d' have "synced \<lparr>nRouter = r', nDisk = d'\<rparr>" by simp
  with res mc show ?thesis by (cases n) auto
qed

lemma dropTable_synced:
  assumes "synced n" "conf_of (nRouter n) db t = Some c" "ioRemove io" "ioVersion io = WriteOk"
  shows "\<exists>n'. dropTable io db t n = (Inr (), n') \<and> synced n'
    \<and> mem_cat (nRouter n') = (mem_cat (nRouter n))(db \<mapsto> (conf_of (nRouter n) db)(t := None))"
proof -
  from assms(2) obtain tb where tb: "tab (nRouter n) db t = Some tb" by (auto simp: conf_of_def)
  note hdb = tab_has_db [OF tb]
  have dok: "disk_ok (nDisk n)" using assms(1) by (simp add: synced_def)
  from dropTable_files [OF dok synced_dir_map [OF assms(1) hdb] synced_plain [OF assms(1) hdb] tb _ assms(3,4)]
  obtain r' d' where res: "dropTable io db t \<lparr>nRouter = nRouter n, nDisk = nDisk n\<rparr> = (Inr (), \<lparr>nRouter = r', nDisk = d'\<rparr>)"
    and r': "removed (nRouter n) db t r'"
    and d': "disk_upd (nDisk n) db (Some ((frm_map (conf_of (nRouter n) db))(frm_file t := None))) d'"
    using assms(2) by auto
  note mc = mem_cat_removed [OF r' hdb]
  have "router_ok r'" using router_ok_removed [OF _ r'] assms(1) by (simp add: synced_def)
  from synced_step [OF assms(1) this mc] d' have "synced \<lparr>nRouter = r', nDisk = d'\<rparr>" by simp
  with res mc show ?thesis by (cases n) auto
qed

lemma addDatabase_views:
  assumes "\<not> has_db r db"
  defines "r' \<equiv> r\<lparr>roSchemas := AList.update db \<lparr>scDB = db, scTables = []\<rparr> (roSchemas r)\<rparr>"
  shows "tab r' = tab r" "has_db r' = (has_db r)(db := True)"
    and "router_ok r \<Longrightarrow> plain_name db \<Longrightarrow> router_ok r'"
    and "mem_cat r' = (mem_cat r)(db \<mapsto> Map.empty)"
proof -
  show tab: "tab r' = tab r"
    using tab_no_db [OF assms(1)] by (auto simp: r'_def tab_def tables_of_def fun_eq_iff)
  show hdb: "has_db r' = (has_db r)(db := True)" by (auto simp: r'_def has_db_def fun_eq_iff)
  have ts: "tables_of r' = (tables_of r)(db := [])" by (auto simp: r'_def tables_of_def fun_eq_iff)
  have same: "roHeap r' = roHeap r" "roConf r' = roConf r" by (simp_all add: r'_def)
  show "router_ok r'" if "router_ok r" "plain_name db"
    using that by (auto simp: router_ok_def hdb tab ts same table_ok_def unshared_def)
  show "mem_cat r' = (mem_cat r)(db \<mapsto> Map.empty)"
    using tab_no_db [OF assms(1)] by (auto simp: mem_cat_def hdb conf_of_def tab same fun_eq_iff)
qed

lemma CreateDatabase_synced:
  assumes "synced n" "\<not> has_db (nRouter n) db" "plain_name db" "length db \<le> NAME_CHAR_LEN" "\<not> checkNameInvalid db"
    and "ioMkdir io" "ioVersion io = WriteOk" "db \<notin> set meta_files"
  shows "\<exists>n'. CreateDatabase io db n = (Inr (), n') \<and> synced n'
    \<and> mem_cat (nRouter n') = (mem_cat (nRouter n))(db \<mapsto> Map.empty)"
proof -
  let ?r = "(nRouter n)\<lparr>roSchemas := AList.update db \<lparr>scDB = db, scTables = []\<rparr> (roSchemas (nRouter n))\<rparr>"
  have add: "addDatabase db (nRouter n) = (Inr (), ?r)"
    using assms(2,3) by (simp add: addDatabase_def has_db_def plain_name_def)
  have ok: "router_ok ?r" using addDatabase_views(3) [OF assms(2)] assms(1,3) by (simp add: synced_def)
  note mc = addDatabase_views(4) [OF assms(2)]
  have "dir_map (nDisk n) db = None" using assms(1,2) by (simp add: synced_def mem_cat_def)
  with writeDatabaseFrmData_upd [of "nDisk n" db io] assms obtain d' where
    d': "writeDatabaseFrmData io db (nDisk n) = (Inr (), d')" "disk_upd (nDisk n) db (Some Map.empty) d'"
    by (auto simp: synced_def)
  have sy: "synced \<lparr>nRouter = ?r, nDisk = d'\<rparr>" using synced_step [OF assms(1) ok mc] d'(2) by simp
  from update_version_synced [OF this assms(7)] obtain n' where
    "update_version io \<lparr>nRouter = ?r, nDisk = d'\<rparr> = (Inr (), n')" "synced n'" "nRouter n' = ?r" by auto
  with add d'(1) mc assms(4,5) show ?thesis
    by (cases n) (auto simp: CreateDatabase_def on_router_def on_disk_def)
qed

lemma DropDatabase_synced:
  assumes "synced n" "has_db (nRouter n) db" "ioRemoveAll io = None" "ioVersion io = WriteOk"
  shows "\<exists>n'. DropDatabase io db n = (Inr (), n') \<and> synced n'
    \<and> mem_cat (nRouter n') = (mem_cat (nRouter n))(db := None)"
proof -
  let ?r = "(nRouter n)\<lparr>roSchemas := AList.delete db (roSchemas (nRouter n))\<rparr>"
  have drop: "dropDatabase db (nRouter n) = (Inr (), ?r)" using assms(2) by (simp add: dropDatabase_def has_db_def)
  have tab: "tab ?r = (tab (nRouter n))(db := Map.empty)"
    by (auto simp: tab_def tables_of_def fun_eq_iff)
  have hdb: "has_db ?r = (has_db (nRouter n))(db := False)" by (auto simp: has_db_def fun_eq_iff)
  have ts: "tables_of ?r = (tables_of (nRouter n))(db := [])" by (auto simp: tables_of_def fun_eq_iff)
  have ok: "router_ok ?r"
    using assms(1) by (auto simp: synced_def router_ok_def hdb tab ts table_ok_def unshared_def split: if_splits)
  have mc: "mem_cat ?r = (mem_cat (nRouter n))(db := None)"
    by (auto simp: mem_cat_def hdb conf_of_def tab fun_eq_iff)
  have dok: "disk_ok (nDisk n)" using assms(1) by (simp add: synced_def)
  have "dir_map (nDisk n) db \<noteq> None" using synced_dir_map [OF assms(1,2)] by simp
  from RemoveAll_upd [OF dok assms(3) this] obtain d' where
    d': "RemoveAll io (dkMetadir (nDisk n) @ [db]) (nDisk n) = (Inr (), d')" "disk_upd (nDisk n) db None d'" by blast
  have "synced \<lparr>nRouter = ?r, nDisk = d'\<rparr>" using synced_step [OF assms(1) ok mc] d'(2) by simp
  from update_version_synced [OF this assms(4)] obtain n' where
    "update_version io \<lparr>nRouter = ?r, nDisk = d'\<rparr> = (Inr (), n')" "synced n'" "nRouter n' = ?r" by auto
  with drop d'(1) mc synced_plain [OF assms(1,2)] show ?thesis
    by (cases n) (auto simp: DropDatabase_def on_router_def on_disk_def)
qed

subsection \<open>Rebuilding a changed configuration\<close>

text \<open>
  Renaming a table and moving a partition change the table and backend names of the partitions,
  not their segments: the build goes through as before and gives the same ranges.
\<close>

definition same_ranges :: "hash \<Rightarrow> hash \<Rightarrow> bool" where
  "same_ranges h h' \<longleftrightarrow>
     hSlots h' = hSlots h \<and> map (apsnd sRange) (hPartitions h') = map (apsnd sRange) (hPartitions h)
     \<and> map sRange (hSegments h') = map sRange (hSegments h)"

lemma map_of_apsnd: "map_of (map (apsnd f) m) k = map_option f (map_of m k)"
  by (induction m) auto

lemma bitmap_same:
  assumes "bitmap k i s m = Inr m1" "map (apsnd sRange) m' = map (apsnd sRange) m" "sRange s' = sRange s"
  shows "\<exists>m1'. bitmap k i s' m' = Inr m1' \<and> map (apsnd sRange) m1' = map (apsnd sRange) m1"
  using assms
proof (induction k i s m arbitrary: m' rule: bitmap.induct)
  case (1 i seg m)
  then show ?case by simp
next
  case (2 k i seg m)
  from 2(2) have none: "map_of m i = None" and rest: "bitmap k (i + 1) seg ((i, seg) # m) = Inr m1"
    by (auto split: option.splits)
  have "map_of m' i = None"
    using none map_of_apsnd [of sRange m' i] map_of_apsnd [of sRange m i] 2(3) by simp
  moreover from 2(1) [OF none rest, of "(i, s') # m'"] 2(3,4)
  have "\<exists>m1'. bitmap k (i + 1) s' ((i, s') # m') = Inr m1' \<and> map (apsnd sRange) m1' = map (apsnd sRange) m1"
    by simp
  ultimately show ?case by simp
qed

lemma Hash_build_part_same:
  assumes "Hash_build_part (k, p) h = Inr g" "same_ranges h h'" "pSegment p' = pSegment p"
  shows "\<exists>g'. Hash_build_part (k, p') h' = Inr g' \<and> same_ranges g g'"
proof -
  let ?s = "\<lambda>p a b. \<lparr>sTable = pTable p, sBackend = pBackend p, sRange = HashRange k a b, sListValue = []\<rparr>"
  from assms(1) obtain a b m where ab: "parse_segment (pSegment p) = Inr (a, b)"
    and m: "bitmap (nat (b - a)) a (?s p a b) (hPartitions h) = Inr m"
    and g: "g = h\<lparr>hPartitions := m, hSegments := hSegments h @ [?s p a b]\<rparr>"
    by (auto simp: Hash_build_part_def rbind_eq_Inr Let_def)
  from bitmap_same [OF m, of "hPartitions h'" "?s p' a b"] assms(2) obtain m' where
    "bitmap (nat (b - a)) a (?s p' a b) (hPartitions h') = Inr m'"
    "map (apsnd sRange) m' = map (apsnd sRange) m" by (auto simp: same_ranges_def)
  with ab g assms(2,3) show ?thesis by (simp add: Hash_build_part_def same_ranges_def Let_def)
qed

lemma fold_build_same:
  assumes "fold_res Hash_build_part (enumerate k ps) h = Inr g" "same_ranges h h'"
    and "map pSegment ps' = map pSegment ps"
  shows "\<exists>g'. fold_res Hash_build_part (enumerate k ps') h' = Inr g' \<and> same_ranges g g'"
  using assms
proof (induction ps arbitrary: k h h' ps')
  case Nil
  then show ?case by simp
next
  case (Cons p ps)
  from Cons.prems(3) obtain q qs where qs: "ps' = q # qs" "pSegment q = pSegment p" "map pSegment qs = map pSegment ps"
    by (auto simp: map_eq_Cons_conv)
  from Cons.prems(1) obtain g1 where g1: "Hash_build_part (k, p) h = Inr g1"
    and rest: "fold_res Hash_build_part (enumerate (Suc k) ps) g1 = Inr g" by (auto simp: rbind_eq_Inr)
  from Hash_build_part_same [OF g1 Cons.prems(2) qs(2)] obtain g1' where
    g1': "Hash_build_part (k, q) h' = Inr g1'" "same_ranges g1 g1'" by blast
  from Cons.IH [OF rest g1'(2) qs(3)] g1'(1) qs(1) show ?case by simp
qed

lemma map_insort_key: "map f (insort_key (\<lambda>y. k (f y)) x xs) = insort_key k (f x) (map f xs)"
  by (induction xs) auto

lemma map_sort_key: "map f (sort_key (\<lambda>y. k (f y)) xs) = sort_key k (map f xs)"
  by (induction xs) (simp_all add: map_insort_key)

lemma Hash_Build_same:
  assumes "Hash_Build (NewHash slots c) = Inr h" "map pSegment (tPartitions c') = map pSegment (tPartitions c)"
  shows "\<exists>h'. Hash_Build (NewHash slots c') = Inr h' \<and> same_ranges h h'"
proof -
  from assms(1) obtain g where g: "fold_res Hash_build_part (enumerate 0 (tPartitions c)) (NewHash slots c) = Inr g"
    and len: "int (length (hPartitions g)) = hSlots g"
    and h: "h = g\<lparr>hSegments := sort_key (range_start \<circ> sRange) (hSegments g)\<rparr>"
    by (auto simp: Hash_Build_def NewHash_def rbind_eq_Inr split: if_splits)
  have "same_ranges (NewHash slots c) (NewHash slots c')" by (simp add: same_ranges_def NewHash_def)
  from fold_build_same [OF g this assms(2)] obtain g' where
    g': "fold_res Hash_build_part (enumerate 0 (tPartitions c')) (NewHash slots c') = Inr g'" "same_ranges g g'" by blast
  have "length (hPartitions g') = length (hPartitions g)"
    using g'(2) map_eq_imp_length_eq unfolding same_ranges_def by blast
  with g' len have "Hash_Build (NewHash slots c') = Inr (g'\<lparr>hSegments := sort_key (range_start \<circ> sRange) (hSegments g')\<rparr>)"
    by (simp add: Hash_Build_def NewHash_def same_ranges_def)
  with g'(2) h show ?thesis by (simp add: same_ranges_def map_sort_key comp_def)
qed

lemma build_partition_same:
  assumes "build_partition conf c = Inr p" "tShardType c' = tShardType c" "tSlots c' = tSlots c"
    and "tShardType c = MethodTypeHash \<longrightarrow> map pSegment (tPartitions c') = map pSegment (tPartitions c)"
  shows "\<exists>p'. build_partition conf c' = Inr p'"
proof (cases "tShardType c = MethodTypeHash")
  case True
  with assms(1) obtain h where "Hash_Build (NewHash (if tSlots c = 0 then rSlots conf else tSlots c) c) = Inr h"
    by (auto simp: build_partition_def rbind_eq_Inr)
  from Hash_Build_same [OF this] True assms(2-4) show ?thesis by (fastforce simp: build_partition_def)
next
  case False
  with assms(1,2) show ?thesis
    by (auto simp: build_partition_def Global_Build_def NewGlobal_def Single_Build_def NewSingle_def List_Build_def
        split: if_splits)
qed

lemma build_partition_rename:
  assumes "build_partition conf c = Inr p"
  shows "\<exists>p'. build_partition conf (rename_config t t' c) = Inr p'"
  using build_partition_same [OF assms, of "rename_config t t' c"] by (simp add: rename_config_def comp_def)

text \<open>A configuration object rewritten in place under one table of an unshared router.\<close>

lemma rewritten_views:
  assumes "router_ok r" "tab r db t = Some tb" "tab r db' t' = Some tb'" "tb' \<noteq> tb \<or> t' \<noteq> t \<or> db' \<noteq> db"
  shows "tbConfig tb' \<noteq> tbConfig tb"
  using assms unfolding router_ok_def unshared_def by (metis option.inject)

lemma renamed_views:
  assumes ok: "router_ok r" and tb: "tab r db fromTable = Some tb" and a: "a = tbConfig tb"
    and c': "build_partition (roConf r) c' = Inr p'" "tName c' = toTable"
    and same: "roHeap r' = (roHeap r)[a := c']" "roConf r' = roConf r" "has_db r' = has_db r"
      "\<forall>db. distinct_keys (tables_of r' db)"
    and tab: "tab r' = (tab r)(db := (tab r db)(toTable \<mapsto>
      \<lparr>tbName = toTable, tbShardKey = tShardKey c', tbPartition = Some p', tbConfig = a\<rparr>, fromTable := None))"
  shows "router_ok r'"
    and "mem_cat r' = (mem_cat r)(db \<mapsto> (conf_of r db)(toTable \<mapsto> c', fromTable := None))"
proof -
  have lt: "a < length (roHeap r)" using ok tb by (auto simp: router_ok_def table_ok_def a)
  have other: "tbConfig tb' \<noteq> a" if "tab r db' t' = Some tb'" "t' \<noteq> fromTable \<or> db' \<noteq> db" for db' t' tb'
    using rewritten_views [OF ok tb that(1)] that(2) by (auto simp: a)
  have keep: "(roHeap r)[a := c'] ! tbConfig tb' = roHeap r ! tbConfig tb'"
    if "tab r db' t' = Some tb'" "t' \<noteq> fromTable \<or> db' \<noteq> db" for db' t' tb'
    using other [OF that] by simp
  have "unshared r'"
    using ok other unfolding unshared_def router_ok_def tab by (auto split: if_splits)
  moreover have "table_ok r' t' tb'" if "tab r' db' t' = Some tb'" for db' t' tb'
    using that ok other [of db' t' tb'] lt c' unfolding tab table_ok_def same router_ok_def
    by (auto split: if_splits)
  ultimately show "router_ok r'" using ok by (simp add: router_ok_def same)
  show "mem_cat r' = (mem_cat r)(db \<mapsto> (conf_of r db)(toTable \<mapsto> c', fromTable := None))"
    using tab_has_db [OF tb] lt
    by (auto simp: mem_cat_def conf_of_def tab same fun_eq_iff map_option_case split: option.split intro: keep)
qed

lemma RenameTable_synced:
  assumes "synced n" "conf_of (nRouter n) db fromTable = Some c" "conf_of (nRouter n) db toTable = None"
    and "name_ok toTable" "ioWrite io = WriteOk" "ioVersion io = WriteOk" "ioRemove io"
  shows "\<exists>n'. RenameTable io db fromTable toTable n = (Inr (), n') \<and> synced n'
    \<and> mem_cat (nRouter n') = (mem_cat (nRouter n))(db \<mapsto>
        (conf_of (nRouter n) db)(toTable \<mapsto> rename_config fromTable toTable c, fromTable := None))"
proof -
  let ?r = "nRouter n" and ?d = "nDisk n"
  have ok: "router_ok ?r" and dok: "disk_ok ?d" using assms(1) by (auto simp: synced_def)
  from assms(2) obtain tb where tb: "tab ?r db fromTable = Some tb" and c: "c = roHeap ?r ! tbConfig tb"
    by (auto simp: conf_of_def)
  have to: "tab ?r db toTable = None" using assms(3) by (simp add: conf_of_def)
  note hdb = tab_has_db [OF tb]
  define a where "a = tbConfig tb"
  define c' where "c' = rename_config fromTable toTable c"
  define r1 where "r1 = ?r\<lparr>roHeap := (roHeap ?r)[a := c']\<rparr>"
  have tok: "table_ok ?r fromTable tb" using ok tb by (simp add: router_ok_def)
  then have a: "a < length (roHeap ?r)" by (simp add: a_def table_ok_def)
  have r1: "roHeap r1 ! a = c'" "tab r1 = tab ?r" "has_db r1 = has_db ?r" "roConf r1 = roConf ?r"
    using a by (auto simp: r1_def tab_def tables_of_def has_db_def fun_eq_iff)
  have get: "getRenameTableConfig db fromTable toTable ?r = (Inr a, r1)"
    using tb to hdb by (simp add: getRenameTableConfig_def tab_def has_db_def a_def c'_def r1_def c Let_def)
  from tok obtain p where "build_partition (roConf ?r) c = Inr p" by (auto simp: table_ok_def c)
  from build_partition_rename [OF this] obtain p' where p': "build_partition (roConf r1) (roHeap r1 ! a) = Inr p'"
    unfolding r1 c'_def by blast
  have nm: "tName (roHeap r1 ! a) = toTable" by (simp add: r1 c'_def rename_config_def)
  note pl = synced_plain [OF assms(1) hdb]
  note dm = synced_dir_map [OF assms(1) hdb]
  have "has_db r1 db" using hdb r1(3) by simp
  from createTable_files [OF dok dm pl this _ _ p' assms(5,6)] obtain r2 d2 where
    create: "createTable io db toTable (Some a) \<lparr>nRouter = r1, nDisk = ?d\<rparr> = (Inr (), \<lparr>nRouter = r2, nDisk = d2\<rparr>)"
    and r2: "added r1 db a p' r2"
    and d2: "disk_upd ?d db (Some ((frm_map (conf_of ?r db))(frm_file toTable \<mapsto> FrmTable c'))) d2"
    unfolding nm unfolding r1 using assms(4) to by auto
  have ne: "fromTable \<noteq> toTable" using tb to by auto
  have tab2: "tab r2 = (tab ?r)(db := (tab ?r db)(toTable \<mapsto>
      \<lparr>tbName = toTable, tbShardKey = tShardKey c', tbPartition = Some p', tbConfig = a\<rparr>))"
    using r2 by (simp add: added_def Let_def nm) (simp add: r1)
  have "tab r2 db fromTable = Some tb" using tab2 tb ne by simp
  moreover have "dir_map d2 db = Some ((frm_map (conf_of ?r db))(frm_file toTable \<mapsto> FrmTable c'))" "disk_ok d2"
    using d2 by (simp_all add: disk_upd_def)
  ultimately obtain r3 d3 where
    drop: "dropTable io db fromTable \<lparr>nRouter = r2, nDisk = d2\<rparr> = (Inr (), \<lparr>nRouter = r3, nDisk = d3\<rparr>)"
    and r3: "removed r2 db fromTable r3"
    and d3: "disk_upd d2 db (Some ((frm_map (conf_of ?r db))(frm_file toTable \<mapsto> FrmTable c',
      frm_file fromTable := None))) d3"
    using dropTable_files [of d2 db _ r2 fromTable tb io] pl assms(2,6,7) ne by auto
  have tab3: "tab r3 = (tab ?r)(db := (tab ?r db)(toTable \<mapsto>
      \<lparr>tbName = toTable, tbShardKey = tShardKey c', tbPartition = Some p', tbConfig = a\<rparr>, fromTable := None))"
    using r3 by (simp add: removed_def tab2)
  have "\<forall>db. distinct_keys (tables_of r1 db)" using ok by (simp add: r1_def router_ok_def tables_of_def)
  then have same3: "roHeap r3 = (roHeap ?r)[a := c']" "roConf r3 = roConf ?r" "has_db r3 = has_db ?r"
    "\<forall>db. distinct_keys (tables_of r3 db)"
    using r3 r2 r1 by (auto simp: removed_def added_def Let_def r1_def fun_eq_iff)
  note final = renamed_views [OF ok tb a_def _ _ same3 tab3]
  have ok3: "router_ok r3" and mc: "mem_cat r3 = (mem_cat ?r)(db \<mapsto>
      (conf_of ?r db)(toTable \<mapsto> c', fromTable := None))"
    using final p' nm unfolding r1 by blast+
  have "disk_upd ?d db (map_option frm_map (Some ((conf_of ?r db)(toTable \<mapsto> c', fromTable := None)))) d3"
    using d3 d2 by (simp add: disk_upd_def)
  from synced_step [OF assms(1) ok3 mc this] mc get create drop show ?thesis
    by (cases n) (auto simp: RenameTable_def on_router_def c'_def)
qed

subsection \<open>Refresh and rule shift\<close>

text \<open>The read of a table's file.\<close>

lemma readTableFrmData_file:
  assumes "dir_map d db = Some fm" "fm file = Some (FrmTable c)" "\<And>p. ioRead io p"
  shows "readTableFrmData io (dkMetadir d @ [db]) file d = Inr c"
  using assms by (auto simp: readTableFrmData_def dir_map_def split: option.splits)

text \<open>\<open>loaded r db c p r'\<close>: a new object with configuration \<open>c\<close> is entered as a table.\<close>

definition loaded :: "Router \<Rightarrow> string \<Rightarrow> TableConfig \<Rightarrow> Partition \<Rightarrow> Router \<Rightarrow> bool" where
  "loaded r db c p r' \<longleftrightarrow>
     roHeap r' = roHeap r @ [c] \<and> roConf r' = roConf r \<and> has_db r' = has_db r
     \<and> ((\<forall>db. distinct_keys (tables_of r db)) \<longrightarrow> (\<forall>db. distinct_keys (tables_of r' db)))
     \<and> tab r' = (tab r)(db := (tab r db)(tName c \<mapsto>
         \<lparr>tbName = tName c, tbShardKey = tShardKey c, tbPartition = Some p, tbConfig = length (roHeap r)\<rparr>))"

lemma addTable_loaded:
  assumes "has_db r db" "db \<noteq> []" "tab r db (tName c) = None" "build_partition (roConf r) c = Inr p"
  shows "\<exists>r'. addTable db (Some (length (roHeap r))) (alloc c r) = (Inr (), r') \<and> loaded r db c p r'"
  using addTable_added [of "alloc c r" db "length (roHeap r)" p] assms
  by (auto simp: loaded_def added_def Let_def fun_eq_iff)

lemma loadTableFromFile_loaded:
  assumes "readTableFrmData io dir file d = Inr c" "has_db r db" "db \<noteq> []" "tab r db (tName c) = None"
    and "build_partition (roConf r) c = Inr p"
  shows "\<exists>r'. loadTableFromFile io db (dir, file) \<lparr>nRouter = r, nDisk = d\<rparr> = (Inr (), \<lparr>nRouter = r', nDisk = d\<rparr>)
    \<and> loaded r db c p r'"
  using addTable_loaded [OF assms(2-5)] assms(1) by (auto simp: loadTableFromFile_def on_router_def)

lemma RefreshTable_files:
  assumes "dir_map d db = Some fm" "fm (frm_file t) = Some (FrmTable c)" "plain_name db"
    and "tab r db t = Some tb" "tName c = t" "build_partition (roConf r) c = Inr p" "\<And>p. ioRead io p"
  shows "\<exists>r1 r'. RefreshTable io db t \<lparr>nRouter = r, nDisk = d\<rparr> = (Inr (), \<lparr>nRouter = r', nDisk = d\<rparr>)
    \<and> removed r db t r1 \<and> loaded r1 db c p r'"
proof -
  from removeTable_removed [OF assms(4)] obtain r1 where
    r1: "removeTable db t r = (Inr (), r1)" "removed r db t r1" by blast
  have "has_db r1 db" "tab r1 db (tName c) = None" "build_partition (roConf r1) c = Inr p"
    using r1(2) tab_has_db [OF assms(4)] assms(5,6) by (auto simp: removed_def)
  with loadTableFromFile_loaded [OF readTableFrmData_file [OF assms(1,2,7)]] assms(3) obtain r' where
    r': "loadTableFromFile io db (dkMetadir d @ [db], frm_file t) \<lparr>nRouter = r1, nDisk = d\<rparr> =
        (Inr (), \<lparr>nRouter = r', nDisk = d\<rparr>)" "loaded r1 db c p r'"
    by (metis plain_name_def)
  with r1 assms(3) show ?thesis
    by (auto simp: RefreshTable_def on_router_def loadTable_def)
qed

lemma router_ok_loaded:
  assumes "router_ok r" "loaded r db c p r'" "has_db r db" "build_partition (roConf r) c = Inr p"
  shows "router_ok r'"
    and "mem_cat r' = (mem_cat r)(db \<mapsto> (conf_of r db)(tName c \<mapsto> c))"
proof -
  have old: "tbConfig tb < length (roHeap r)" if "tab r db' t = Some tb" for db' t tb
    using assms(1) that by (auto simp: router_ok_def table_ok_def)
  have tab: "tab r' = (tab r)(db := (tab r db)(tName c \<mapsto>
      \<lparr>tbName = tName c, tbShardKey = tShardKey c, tbPartition = Some p, tbConfig = length (roHeap r)\<rparr>))"
    and same: "roHeap r' = roHeap r @ [c]" "roConf r' = roConf r" "has_db r' = has_db r"
      "\<forall>db. distinct_keys (tables_of r' db)"
    using assms(1,2) by (auto simp: loaded_def router_ok_def)
  have "unshared r'"
    using assms(1) old unfolding unshared_def router_ok_def tab by (auto split: if_splits) (metis less_irrefl)+
  moreover have "table_ok r' t tb" if "tab r' db' t = Some tb" for db' t tb
    using that assms(1,4) old [of db' t tb] unfolding tab table_ok_def same router_ok_def
    by (auto simp: nth_append split: if_splits)
  ultimately show "router_ok r'" using assms(1) same by (simp add: router_ok_def)
  have keep: "(roHeap r @ [c]) ! tbConfig tb = roHeap r ! tbConfig tb" if "tab r db' t = Some tb" for db' t tb
    using old [OF that] by (simp add: nth_append)
  show "mem_cat r' = (mem_cat r)(db \<mapsto> (conf_of r db)(tName c \<mapsto> c))"
    using assms(3)
    by (auto simp: mem_cat_def conf_of_def tab same fun_eq_iff map_option_case split: option.split intro: keep)
qed

lemma rewritten_removed:
  assumes ok: "router_ok r" and tb: "tab r db t = Some tb"
    and rm: "removed (r\<lparr>roHeap := (roHeap r)[tbConfig tb := c]\<rparr>) db t r1"
  shows "router_ok r1" and "mem_cat r1 = (mem_cat r)(db \<mapsto> (conf_of r db)(t := None))"
proof -
  let ?h = "(roHeap r)[tbConfig tb := c]"
  have keep: "?h ! tbConfig tb' = roHeap r ! tbConfig tb'"
    if "tab r db' t' = Some tb'" "t' \<noteq> t \<or> db' \<noteq> db" for db' t' tb'
    using rewritten_views [OF ok tb that(1)] that(2) by auto
  have views: "tab (r\<lparr>roHeap := ?h\<rparr>) = tab r" "tables_of (r\<lparr>roHeap := ?h\<rparr>) = tables_of r"
    "has_db (r\<lparr>roHeap := ?h\<rparr>) = has_db r"
    by (auto simp: tab_def tables_of_def has_db_def fun_eq_iff)
  have tab: "tab r1 = (tab r)(db := (tab r db)(t := None))"
    and same: "roHeap r1 = ?h" "roConf r1 = roConf r" "has_db r1 = has_db r" "\<forall>db. distinct_keys (tables_of r1 db)"
    using rm ok by (auto simp: removed_def views router_ok_def)
  have "unshared r1" using ok unfolding unshared_def router_ok_def tab by (auto split: if_splits)
  moreover have "table_ok r1 t' tb'" if "tab r1 db' t' = Some tb'" for db' t' tb'
  proof -
    have old: "tab r db' t' = Some tb'" "t' \<noteq> t \<or> db' \<noteq> db" using that by (auto simp: tab split: if_splits)
    then show ?thesis using ok keep [OF old] by (simp add: table_ok_def same router_ok_def)
  qed
  ultimately show "router_ok r1" using ok same by (simp add: router_ok_def)
  show "mem_cat r1 = (mem_cat r)(db \<mapsto> (conf_of r db)(t := None))"
    using tab_has_db [OF tb]
    by (auto simp: mem_cat_def conf_of_def tab same fun_eq_iff map_option_case split: option.split intro: keep)
qed

lemma find_partition_Some:
  "find_partition b pt ps j = Some i \<Longrightarrow>
     j \<le> i \<and> i < j + length ps \<and> pBackend (ps ! (i - j)) = b \<and> pTable (ps ! (i - j)) = pt"
  by (induction ps arbitrary: j) (auto simp: nth_Cons' split: if_splits; fastforce)+

lemma find_rule_Some:
  assumes "find_rule b pt heap ts = Some (v, i)"
  shows "v \<in> snd ` set ts \<and> i < length (tPartitions (heap ! tbConfig v))
    \<and> pBackend (tPartitions (heap ! tbConfig v) ! i) = b \<and> pTable (tPartitions (heap ! tbConfig v) ! i) = pt"
  using assms by (induction b pt heap ts rule: find_rule.induct)
    (auto split: option.splits dest: find_partition_Some)

lemma build_partition_shift:
  assumes "build_partition conf c = Inr p" "i < length (tPartitions c)"
  shows "\<exists>p'. build_partition conf (shifted_config toBackend table i c) = Inr p'"
proof (rule build_partition_same [OF assms(1)])
  show "tShardType c = MethodTypeHash \<longrightarrow>
    map pSegment (tPartitions (shifted_config toBackend table i c)) = map pSegment (tPartitions c)"
    using assms(2) by (auto simp: shifted_config_def map_update list_update_same_conv)
qed (simp_all add: shifted_config_def)

lemma reset_shifted:
  assumes "i < length (tPartitions c)" "pBackend (tPartitions c ! i) = fromBackend"
  shows "reset_config fromBackend i (shifted_config toBackend table i c) = c"
  using assms by (auto simp: reset_config_def shifted_config_def)

text \<open>What \<open>changeTheRuleBackend\<close> has done once it succeeds: the object rewritten, its file too.\<close>

lemma changeTheRuleBackend_files:
  assumes "disk_ok d" "dir_map d db = Some fm" "plain_name db" "has_db r db" "fromBackend \<noteq> toBackend"
    and "find_rule fromBackend partitionTable (roHeap r) (tables_of r db) = Some (v, i)"
    and "tbConfig v < length (roHeap r)"
    and "\<not> (tShardType (roHeap r ! tbConfig v) = MethodTypeGlobal
           \<and> list_ex (\<lambda>p. pBackend p = toBackend) (tPartitions (roHeap r ! tbConfig v)))"
    and "ioWrite io = WriteOk" "ioVersion io = WriteOk"
  defines "c1 \<equiv> shifted_config toBackend (tbName v) i (roHeap r ! tbConfig v)"
  shows "\<exists>d'. changeTheRuleBackend io fromBackend toBackend db partitionTable \<lparr>nRouter = r, nDisk = d\<rparr> =
      (Inr (tbName v), \<lparr>nRouter = r\<lparr>roHeap := (roHeap r)[tbConfig v := c1]\<rparr>, nDisk = d'\<rparr>)
    \<and> disk_upd d db (Some (fm(frm_file (tbName v) \<mapsto> FrmTable c1))) d'"
proof -
  from WriteFile_upd [OF assms(1,2), of "frm_file (tbName v)" "FrmTable c1"] obtain d1 where
    d1: "WriteFile WriteOk (dkMetadir d @ [db]) (frm_file (tbName v)) (FrmTable c1) d = (Inr (), d1)"
      "disk_upd d db (Some (fm(frm_file (tbName v) \<mapsto> FrmTable c1))) d1" by blast
  then have "disk_ok d1" by (simp add: disk_upd_def)
  from UpdateVersion_keeps [OF this assms(10)] obtain d2 where
    d2: "UpdateVersion io d1 = (Inr (), d2)" "dkMetadir d2 = dkMetadir d1" "disk_ok d2" "dir_map d2 = dir_map d1"
    by blast
  have "disk_upd d db (Some (fm(frm_file (tbName v) \<mapsto> FrmTable c1))) d2"
    using d1(2) d2(2-4) by (simp add: disk_upd_def)
  with d1(1) d2(1) assms(3-9) show ?thesis
    by (auto simp: changeTheRuleBackend_def Let_def has_db_def set_config_def writeTableFrmData_def on_disk_def
        update_version_def c1_def)
qed

lemma PartitionRuleShift_synced:
  assumes "synced n" "has_db (nRouter n) db" "fromBackend \<noteq> toBackend"
    and "find_rule fromBackend partitionTable (roHeap (nRouter n)) (tables_of (nRouter n) db) = Some (v, i)"
  defines "c \<equiv> roHeap (nRouter n) ! tbConfig v"
  assumes "\<not> (tShardType c = MethodTypeGlobal \<and> list_ex (\<lambda>p. pBackend p = toBackend) (tPartitions c))"
    and "ioWrite io = WriteOk" "ioVersion io = WriteOk" "\<And>p. ioRead io p"
  shows "\<exists>n'. PartitionRuleShift io fromBackend toBackend db partitionTable n = (Inr (), n') \<and> synced n'
    \<and> mem_cat (nRouter n') = (mem_cat (nRouter n))(db \<mapsto>
        (conf_of (nRouter n) db)(tbName v \<mapsto> shifted_config toBackend (tbName v) i c))"
proof -
  let ?r = "nRouter n" and ?d = "nDisk n" and ?t = "tbName v"
  define c1 where "c1 = shifted_config toBackend ?t i c"
  let ?r1 = "?r\<lparr>roHeap := (roHeap ?r)[tbConfig v := c1]\<rparr>"
  have ok: "router_ok ?r" and dok: "disk_ok ?d" using assms(1) by (auto simp: synced_def)
  from find_rule_Some [OF assms(4)] obtain k where k: "(k, v) \<in> set (tables_of ?r db)"
    and i: "i < length (tPartitions c)" by (auto simp: c_def)
  have "distinct_keys (tables_of ?r db)" using ok by (simp add: router_ok_def)
  with k have "tab ?r db k = Some v" by (simp add: tab_def map_of_in_set)
  with ok have tb: "tab ?r db ?t = Some v" and tok: "table_ok ?r ?t v" by (auto simp: router_ok_def table_ok_def)
  from tok obtain p where p: "build_partition (roConf ?r) c = Inr p" and nm: "tName c = ?t"
    and lt: "tbConfig v < length (roHeap ?r)"
    by (auto simp: table_ok_def c_def)
  from build_partition_shift [OF p i] obtain p1 where p1: "build_partition (roConf ?r1) c1 = Inr p1"
    by (auto simp: c1_def)
  note dm = synced_dir_map [OF assms(1,2)] and pl = synced_plain [OF assms(1,2)]
  from changeTheRuleBackend_files [OF dok dm pl assms(2,3,4) lt assms(6) [unfolded c_def] assms(7,8)] obtain d1 where
    ch: "changeTheRuleBackend io fromBackend toBackend db partitionTable \<lparr>nRouter = ?r, nDisk = ?d\<rparr> =
      (Inr ?t, \<lparr>nRouter = ?r1, nDisk = d1\<rparr>)"
    and d1: "disk_upd ?d db (Some ((frm_map (conf_of ?r db))(frm_file ?t \<mapsto> FrmTable c1))) d1"
    by (auto simp: c1_def c_def)
  have dm1: "dir_map d1 db = Some ((frm_map (conf_of ?r db))(frm_file ?t \<mapsto> FrmTable c1))"
    using d1 by (simp add: disk_upd_def)
  have tb1: "tab ?r1 db ?t = Some v" using tb by (simp add: tab_def tables_of_def)
  have nm1: "tName c1 = ?t" using nm by (simp add: c1_def shifted_config_def)
  from RefreshTable_files [OF dm1 _ pl tb1 nm1 p1 assms(9)] obtain r2 r3 where
    rf: "RefreshTable io db ?t \<lparr>nRouter = ?r1, nDisk = d1\<rparr> = (Inr (), \<lparr>nRouter = r3, nDisk = d1\<rparr>)"
    and r2: "removed ?r1 db ?t r2" and r3: "loaded r2 db c1 p1 r3" by auto
  note r2ok = rewritten_removed [OF ok tb r2]
  have h2: "has_db r2 db" using r2 tab_has_db [OF tb1] by (simp add: removed_def)
  have b2: "build_partition (roConf r2) c1 = Inr p1" using r2 p1 by (simp add: removed_def)
  note r3ok = router_ok_loaded [OF r2ok(1) r3 h2 b2]
  have "conf_of r2 db = (conf_of ?r db)(?t := None)"
    using fun_cong [OF r2ok(2), of db] h2 by (simp add: mem_cat_def)
  with r3ok(2) r2ok(2) nm1 have mc: "mem_cat r3 = (mem_cat ?r)(db \<mapsto> (conf_of ?r db)(?t \<mapsto> c1))" by simp
  from synced_step [OF assms(1) r3ok(1) mc] d1 mc ch rf show ?thesis
    by (cases n) (auto simp: PartitionRuleShift_def c1_def)
qed

subsection \<open>Loading the files\<close>

lemma conf_of_mem_cat: "mem_cat r db = Some m \<Longrightarrow> conf_of r db = m"
  by (simp add: mem_cat_def split: if_splits)

text \<open>The configurations a database directory holds can each be built under their own name.\<close>

definition buildable :: "RouterConfig \<Rightarrow> (string \<Rightarrow> TableConfig option) \<Rightarrow> bool" where
  "buildable conf cm \<longleftrightarrow>
     (\<forall>t c. cm t = Some c \<longrightarrow> tName c = t \<and> (\<exists>p. build_partition conf c = Inr p))"

lemma load_files:
  assumes "dir_map d db = Some (frm_map cm)" "buildable (roConf r) cm" "\<And>p. ioRead io p" "router_ok r" "has_db r db"
    and "distinct fs" "\<And>f. f \<in> set fs \<Longrightarrow> frm_map cm f \<noteq> None"
    and "\<And>t. frm_file t \<in> set fs \<Longrightarrow> conf_of r db t = None"
  shows "\<exists>r'. sfold (\<lambda>file. loadTableFromFile io db (dkMetadir d @ [db], file)) fs \<lparr>nRouter = r, nDisk = d\<rparr> =
      (Inr (), \<lparr>nRouter = r', nDisk = d\<rparr>) \<and> router_ok r' \<and> roConf r' = roConf r \<and> has_db r' = has_db r
    \<and> mem_cat r' = (mem_cat r)(db \<mapsto> (\<lambda>t. if frm_file t \<in> set fs then cm t else conf_of r db t))"
  using assms(2,4-)
proof (induction fs arbitrary: r)
  case Nil
  then show ?case by (auto simp: mem_cat_def fun_eq_iff)
next
  case (Cons f fs)
  from Cons.prems(5) [of f] obtain t c where f: "f = frm_file t" "cm t = Some c"
    by (auto simp: frm_map_def unfrm_eq_Some split: bind_splits)
  with Cons.prems(1) obtain p where c: "tName c = t" "build_partition (roConf r) c = Inr p"
    by (auto simp: buildable_def)
  have db: "db \<noteq> []" using Cons.prems(2,3) by (simp add: router_ok_def plain_name_def)
  have "tab r db (tName c) = None" using Cons.prems(6) [of t] f c by (simp add: conf_of_def)
  moreover have "readTableFrmData io (dkMetadir d @ [db]) f d = Inr c"
    using readTableFrmData_file [OF assms(1) _ assms(3)] f by simp
  ultimately obtain r1 where
    r1: "loadTableFromFile io db (dkMetadir d @ [db], f) \<lparr>nRouter = r, nDisk = d\<rparr> = (Inr (), \<lparr>nRouter = r1, nDisk = d\<rparr>)"
      "loaded r db c p r1"
    using loadTableFromFile_loaded Cons.prems(3) db c(2) by blast
  note ok1 = router_ok_loaded [OF Cons.prems(2) r1(2) Cons.prems(3) c(2)]
  have same1: "roConf r1 = roConf r" "has_db r1 = has_db r" using r1(2) by (auto simp: loaded_def)
  have conf1: "conf_of r1 db = (conf_of r db)(t \<mapsto> c)"
    by (rule conf_of_mem_cat) (simp add: ok1(2) c(1))
  have free: "conf_of r1 db u = None" if "frm_file u \<in> set fs" for u
    using that Cons.prems(4) Cons.prems(6) [of u] f(1) by (auto simp: conf1)
  have "buildable (roConf r1) cm" "has_db r1 db" "distinct fs" "\<And>f. f \<in> set fs \<Longrightarrow> frm_map cm f \<noteq> None"
    using Cons.prems(1,3,4,5) same1 by simp_all
  from Cons.IH [OF this(1) ok1(1) this(2-4) free] obtain r2 where
    r2: "sfold (\<lambda>file. loadTableFromFile io db (dkMetadir d @ [db], file)) fs \<lparr>nRouter = r1, nDisk = d\<rparr> =
      (Inr (), \<lparr>nRouter = r2, nDisk = d\<rparr>)" "router_ok r2" "roConf r2 = roConf r1" "has_db r2 = has_db r1"
      "mem_cat r2 = (mem_cat r1)(db \<mapsto> (\<lambda>t. if frm_file t \<in> set fs then cm t else conf_of r1 db t))"
    by blast
  have "mem_cat r2 = (mem_cat r)(db \<mapsto> (\<lambda>t. if frm_file t \<in> set (f # fs) then cm t else conf_of r db t))"
    using f by (auto simp: r2(5) ok1(2) conf1 fun_eq_iff)
  with r1(1) r2(1-4) same1 show ?case by auto
qed

lemma dir_files_props:
  assumes "disk_ok d" "dir_map d db = Some fm"
  shows "distinct (dir_files (dkMetadir d @ [db]) (dkDirs d))"
    and "f \<in> set (dir_files (dkMetadir d @ [db]) (dkDirs d)) \<longleftrightarrow> fm f \<noteq> None"
proof -
  from assms(2) obtain files where files: "map_of (dkDirs d) (dkMetadir d @ [db]) = Some files" "fm = map_of files"
    by (rule dir_map_Some)
  show "distinct (dir_files (dkMetadir d @ [db]) (dkDirs d))"
    using disk_ok_files [OF assms(1) files(1)] files by (simp add: dir_files_def distinct_keys_def)
  show "f \<in> set (dir_files (dkMetadir d @ [db]) (dkDirs d)) \<longleftrightarrow> fm f \<noteq> None"
    using files by (simp add: dir_files_def map_of_eq_None_iff)
qed

lemma load_dir_ok:
  assumes "disk_ok d" "dir_map d db = Some (frm_map cm)" "buildable (roConf r) cm" "\<And>p. ioRead io p" "router_ok r"
    and "mem_cat r db = Some Map.empty"
  shows "\<exists>r'. load_dir io db \<lparr>nRouter = r, nDisk = d\<rparr> = (Inr (), \<lparr>nRouter = r', nDisk = d\<rparr>)
    \<and> router_ok r' \<and> roConf r' = roConf r \<and> mem_cat r' = (mem_cat r)(db \<mapsto> cm)"
proof -
  let ?fs = "dir_files (dkMetadir d @ [db]) (dkDirs d)"
  note fs = dir_files_props [OF assms(1,2)]
  have hdb: "has_db r db" using assms(6) by (simp add: mem_cat_def split: if_splits)
  have empty: "conf_of r db = Map.empty" using conf_of_mem_cat [OF assms(6)] .
  from load_files [OF assms(2-5) hdb fs(1)] obtain r' where
    r': "sfold (\<lambda>file. loadTableFromFile io db (dkMetadir d @ [db], file)) ?fs \<lparr>nRouter = r, nDisk = d\<rparr> =
      (Inr (), \<lparr>nRouter = r', nDisk = d\<rparr>)" "router_ok r'" "roConf r' = roConf r"
      "mem_cat r' = (mem_cat r)(db \<mapsto> (\<lambda>t. if frm_file t \<in> set ?fs then cm t else conf_of r db t))"
    using fs(2) empty by auto
  have "(\<lambda>t. if frm_file t \<in> set ?fs then cm t else conf_of r db t) = cm"
    using fs(2) by (auto simp: fun_eq_iff empty)
  moreover have "plain_name db" using assms(5) hdb by (simp add: router_ok_def)
  ultimately show ?thesis using r' by (auto simp: load_dir_def Let_def)
qed

lemma load_dirs_ok:
  assumes "disk_ok d" "\<And>p. ioRead io p" "router_ok r" "distinct dbs"
    and "\<And>db. db \<in> set dbs \<Longrightarrow> dir_map d db = Some (frm_map (cat db)) \<and> buildable (roConf r) (cat db)
      \<and> mem_cat r db = Some Map.empty"
  shows "\<exists>r'. sfold (load_dir io) dbs \<lparr>nRouter = r, nDisk = d\<rparr> = (Inr (), \<lparr>nRouter = r', nDisk = d\<rparr>)
    \<and> router_ok r' \<and> mem_cat r' = (\<lambda>db. if db \<in> set dbs then Some (cat db) else mem_cat r db)"
  using assms(3-)
proof (induction dbs arbitrary: r)
  case Nil
  then show ?case by simp
next
  case (Cons db dbs)
  have "dir_map d db = Some (frm_map (cat db))" "buildable (roConf r) (cat db)" "mem_cat r db = Some Map.empty"
    using Cons.prems(3) by auto
  from load_dir_ok [OF assms(1) this(1,2) assms(2) Cons.prems(1) this(3)] obtain r1 where
    r1: "load_dir io db \<lparr>nRouter = r, nDisk = d\<rparr> = (Inr (), \<lparr>nRouter = r1, nDisk = d\<rparr>)"
      "router_ok r1" "roConf r1 = roConf r" "mem_cat r1 = (mem_cat r)(db \<mapsto> cat db)" by blast
  have "\<And>db'. db' \<in> set dbs \<Longrightarrow> dir_map d db' = Some (frm_map (cat db')) \<and> buildable (roConf r1) (cat db')
      \<and> mem_cat r1 db' = Some Map.empty"
    using Cons.prems(2,3) r1(3,4) by auto
  moreover have "distinct dbs" using Cons.prems(2) by simp
  ultimately obtain r2 where
    "sfold (load_dir io) dbs \<lparr>nRouter = r1, nDisk = d\<rparr> = (Inr (), \<lparr>nRouter = r2, nDisk = d\<rparr>)" "router_ok r2"
    "mem_cat r2 = (\<lambda>db. if db \<in> set dbs then Some (cat db) else mem_cat r1 db)"
    using Cons.IH [OF r1(2)] by blast
  with r1(1,4) show ?case by (auto simp: fun_eq_iff)
qed

lemma add_databases:
  assumes "distinct dbs" "\<And>db. db \<in> set dbs \<Longrightarrow> plain_name db \<and> mem_cat r db = None" "router_ok r"
    and "\<And>p. ioRead io p"
  shows "\<exists>r'. sfold (read_dir io dir) dbs \<lparr>nRouter = r, nDisk = d\<rparr> =
      (Inr (), \<lparr>nRouter = r', nDisk = d\<rparr>) \<and> router_ok r' \<and> roConf r' = roConf r
    \<and> mem_cat r' = (\<lambda>db. if db \<in> set dbs then Some Map.empty else mem_cat r db)"
  using assms(1-3)
proof (induction dbs arbitrary: r)
  case Nil
  then show ?case by simp
next
  case (Cons db dbs)
  let ?r = "r\<lparr>roSchemas := AList.update db \<lparr>scDB = db, scTables = []\<rparr> (roSchemas r)\<rparr>"
  have new: "plain_name db" "\<not> has_db r db" using Cons.prems(2) [of db] by (auto simp: mem_cat_def split: if_splits)
  then have add: "read_dir io dir db \<lparr>nRouter = r, nDisk = d\<rparr> = (Inr (), \<lparr>nRouter = ?r, nDisk = d\<rparr>)"
    using assms(4) by (simp add: read_dir_def on_router_def addDatabase_def has_db_def plain_name_def)
  note a = addDatabase_views [OF new(2)]
  have "router_ok ?r" using Cons.prems(3) new(1) a(3) by blast
  moreover have "mem_cat ?r = (mem_cat r)(db \<mapsto> Map.empty)" using a(4) .
  ultimately have "\<exists>r'. sfold (read_dir io dir) dbs \<lparr>nRouter = ?r, nDisk = d\<rparr> =
      (Inr (), \<lparr>nRouter = r', nDisk = d\<rparr>) \<and> router_ok r' \<and> roConf r' = roConf ?r
    \<and> mem_cat r' = (\<lambda>db. if db \<in> set dbs then Some Map.empty else mem_cat ?r db)"
    using Cons.prems(1,2) by (intro Cons.IH) auto
  with add a(4) show ?case by (auto simp: fun_eq_iff)
qed

lemma sub_dirs_props:
  assumes "disk_ok d"
  shows "distinct (sub_dirs (dkMetadir d) (dkDirs d))"
    and "db \<in> set (sub_dirs (dkMetadir d) (dkDirs d)) \<longleftrightarrow> dir_map d db \<noteq> None"
proof -
  let ?P = "\<lambda>p. p \<noteq> [] \<and> butlast p = dkMetadir d"
  have "inj_on last {p. ?P p}"
    by (rule inj_onI) (metis (mono_tags, lifting) append_butlast_last_id mem_Collect_eq)
  then have "inj_on last (set (filter ?P (map fst (dkDirs d))))" by (rule inj_on_subset) auto
  then show "distinct (sub_dirs (dkMetadir d) (dkDirs d))"
    using assms by (simp add: sub_dirs_def disk_ok_def distinct_keys_def distinct_map)
  have "db \<in> last ` {p. ?P p \<and> p \<in> keys (dkDirs d)} \<longleftrightarrow> dkMetadir d @ [db] \<in> keys (dkDirs d)"
  proof
    assume "db \<in> last ` {p. ?P p \<and> p \<in> keys (dkDirs d)}"
    then obtain p where "?P p" "p \<in> keys (dkDirs d)" "db = last p" by auto
    then show "dkMetadir d @ [db] \<in> keys (dkDirs d)" using append_butlast_last_id [of p] by simp
  next
    assume "dkMetadir d @ [db] \<in> keys (dkDirs d)"
    then show "db \<in> last ` {p. ?P p \<and> p \<in> keys (dkDirs d)}"
      by (intro image_eqI [of _ _ "dkMetadir d @ [db]"]) auto
  qed
  then show "db \<in> set (sub_dirs (dkMetadir d) (dkDirs d)) \<longleftrightarrow> dir_map d db \<noteq> None"
    unfolding dir_map_None by (auto simp: sub_dirs_def image_iff)
qed

lemma synced_buildable:
  assumes "synced n" "mem_cat (nRouter n) db = Some m"
  shows "buildable (roConf (nRouter n)) m"
proof -
  have "m = conf_of (nRouter n) db" using conf_of_mem_cat [OF assms(2)] by simp
  moreover have "table_ok (nRouter n) t tb" if "tab (nRouter n) db t = Some tb" for t tb
    using assms(1) that by (simp add: synced_def router_ok_def)
  ultimately show ?thesis by (fastforce simp: buildable_def conf_of_def table_ok_def)
qed

lemma clear_views:
  "router_ok (clear r)" "mem_cat (clear r) db = None" "roConf (clear r) = roConf r"
  by (auto simp: clear_def router_ok_def unshared_def tab_def tables_of_def mem_cat_def has_db_def fun_eq_iff)

lemma LoadConfig_synced:
  assumes "synced n" "\<And>p. ioRead io p" "\<And>xs. mset (ioVisit io xs) = mset xs" "roConf r0 = roConf (nRouter n)"
  shows "\<exists>n'. LoadConfig io \<lparr>nRouter = r0, nDisk = nDisk n\<rparr> = (Inr (), n') \<and> synced n' \<and> nDisk n' = nDisk n
    \<and> mem_cat (nRouter n') = mem_cat (nRouter n)"
proof -
  let ?d = "nDisk n" and ?dbs = "sub_dirs (dkMetadir (nDisk n)) (dkDirs (nDisk n))"
  have dok: "disk_ok ?d" using assms(1) by (simp add: synced_def)
  have dm: "dir_map ?d db = map_option frm_map (mem_cat (nRouter n) db)" for db using assms(1) by (simp add: synced_def)
  have dbs: "db \<in> set ?dbs \<longleftrightarrow> mem_cat (nRouter n) db \<noteq> None" for db using sub_dirs_props(2) [OF dok] dm by simp
  have "plain_name db \<and> mem_cat (clear r0) db = None" if "db \<in> set ?dbs" for db
    using that dbs synced_plain [OF assms(1)]
    by (auto simp: clear_views mem_cat_def [of "nRouter n"] split: if_splits)
  from add_databases [OF sub_dirs_props(1) [OF dok] this clear_views(1) assms(2), where d = ?d and dir = "dkMetadir ?d"] obtain r1 where
    r1: "sfold (read_dir io (dkMetadir ?d)) ?dbs \<lparr>nRouter = clear r0, nDisk = ?d\<rparr> =
        (Inr (), \<lparr>nRouter = r1, nDisk = ?d\<rparr>)" "router_ok r1" "roConf r1 = roConf (nRouter n)"
      "mem_cat r1 = (\<lambda>db. if db \<in> set ?dbs then Some Map.empty else mem_cat (clear r0) db)"
    by (auto simp: clear_views(3) assms(4))
  have vis: "set (ioVisit io ?dbs) = set ?dbs" "distinct (ioVisit io ?dbs)"
    using assms(3) [of ?dbs] sub_dirs_props(1) [OF dok] mset_eq_setD mset_eq_imp_distinct_iff by metis+
  let ?cat = "\<lambda>db. the (mem_cat (nRouter n) db)"
  have "dir_map ?d db = Some (frm_map (?cat db)) \<and> buildable (roConf r1) (?cat db) \<and> mem_cat r1 db = Some Map.empty"
    if "db \<in> set (ioVisit io ?dbs)" for db
    using that dbs dm synced_buildable [OF assms(1)] by (auto simp: vis r1(3,4))
  from load_dirs_ok [OF dok assms(2) r1(2) vis(2) this] obtain r2 where
    r2: "sfold (load_dir io) (ioVisit io ?dbs) \<lparr>nRouter = r1, nDisk = ?d\<rparr> = (Inr (), \<lparr>nRouter = r2, nDisk = ?d\<rparr>)"
      "router_ok r2" "mem_cat r2 = (\<lambda>db. if db \<in> set ?dbs then Some (?cat db) else mem_cat r1 db)"
    unfolding vis by blast
  have mc: "mem_cat r2 = mem_cat (nRouter n)" using dbs by (auto simp: r2(3) r1(4) clear_views fun_eq_iff)
  have "dkMetadir ?d \<in> keys (dkDirs ?d)" by (rule disk_okD(2) [OF dok])
  then have "map_of (dkDirs ?d) (dkMetadir ?d) \<noteq> None" by (simp add: map_of_None_keys)
  then have "LoadConfig io \<lparr>nRouter = r0, nDisk = ?d\<rparr> = (Inr (), \<lparr>nRouter = r2, nDisk = ?d\<rparr>)"
    using r1(1) r2(1) assms(2) by (auto simp: LoadConfig_def Let_def Stat_IsNotExist_def)
  with r2(2) mc assms(1) show ?thesis by (simp add: synced_def)
qed

subsection \<open>The catalogue as an interface\<close>

text \<open>
  The administration of the catalogue as commands, with their meaning on the abstract catalogue
  (\<open>None\<close>: the command is refused) and on the node.
\<close>

datatype cat_op =
    CreateDb string
  | DropDb string
  | AddTable string TableConfig
  | DropT string string
  | RenameT string string string
  | Reload

text \<open>
  The abstract rename: a table of the new name, and in the name of each partition table, which begins
  with the name of the table, the new name in place of the old. Apart from that the configuration
  stays.
\<close>

definition under_name :: "nat \<Rightarrow> string \<Rightarrow> TableConfig \<Rightarrow> TableConfig" where
  "under_name k t' c =
     c\<lparr>tName := t', tPartitions := map (\<lambda>p. p\<lparr>pTable := t' @ drop k (pTable p)\<rparr>) (tPartitions c)\<rparr>"

lemma rename_config_under_name:
  assumes "list_all (\<lambda>p. prefix t (pTable p)) (tPartitions c)"
  shows "rename_config t t' c = under_name (length t) t' c"
proof -
  have "replace1 t t' s = t' @ drop (length t) s" if "prefix t s" for s
    using that by (auto elim!: prefixE)
  then have "map (\<lambda>p. p\<lparr>pTable := replace1 t t' (pTable p)\<rparr>) (tPartitions c) =
      map (\<lambda>p. p\<lparr>pTable := t' @ drop (length t) (pTable p)\<rparr>) (tPartitions c)"
    using assms by (intro map_cong) (auto simp: list_all_iff)
  then show ?thesis by (simp add: rename_config_def under_name_def)
qed

fun cat_step :: "RouterConfig \<Rightarrow> cat_op \<Rightarrow> catalog \<Rightarrow> catalog option" where
  "cat_step conf (CreateDb db) cat =
     (if cat db = None \<and> plain_name db \<and> db \<notin> set meta_files \<and> length db \<le> NAME_CHAR_LEN \<and> \<not> checkNameInvalid db
      then Some (cat(db \<mapsto> Map.empty)) else None)"
| "cat_step conf (DropDb db) cat = (if cat db = None then None else Some (cat(db := None)))"
| "cat_step conf (AddTable db c) cat =
     (case (cat db, build_partition conf c) of
        (Some m, Inr _) \<Rightarrow>
          if m (tName c) = None \<and> name_ok (tName c) then Some (cat(db \<mapsto> m(tName c \<mapsto> c))) else None
      | _ \<Rightarrow> None)"
| "cat_step conf (DropT db t) cat =
     (case cat db of
        None \<Rightarrow> None
      | Some m \<Rightarrow> if m t = None then None else Some (cat(db \<mapsto> m(t := None))))"
| "cat_step conf (RenameT db t t') cat =
     (case cat db of
        None \<Rightarrow> None
      | Some m \<Rightarrow>
          (case m t of
             None \<Rightarrow> None
           | Some c \<Rightarrow>
               if m t' = None \<and> name_ok t' \<and> list_all (\<lambda>p. prefix t (pTable p)) (tPartitions c)
               then Some (cat(db \<mapsto> m(t' \<mapsto> under_name (length t) t' c, t := None)))
               else None))"
| "cat_step conf Reload cat = Some cat"

fun node_step :: "io \<Rightarrow> cat_op \<Rightarrow> Node \<Rightarrow> (Node, unit) outcome" where
  "node_step io (CreateDb db) n = CreateDatabase io db n"
| "node_step io (DropDb db) n = DropDatabase io db n"
| "node_step io (AddTable db c) n = create_from io db (tName c) (Inr c) None n"
| "node_step io (DropT db t) n = DropTable io db t n"
| "node_step io (RenameT db t t') n = RenameTable io db t t' n"
| "node_step io Reload n = ReLoad io n"

fun cat_run :: "(cat_op \<Rightarrow> catalog \<Rightarrow> catalog option) \<Rightarrow> cat_op list \<Rightarrow> catalog \<Rightarrow> catalog option" where
  "cat_run st [] cat = Some cat"
| "cat_run st (op # ops) cat = Option.bind (st op cat) (cat_run st ops)"

locale catalog_store =
  fixes inv :: "'s \<Rightarrow> bool"
    and view :: "'s \<Rightarrow> catalog"
    and step :: "cat_op \<Rightarrow> 's \<Rightarrow> ('s, unit) outcome"
    and spec :: "cat_op \<Rightarrow> catalog \<Rightarrow> catalog option"
  assumes step_sim: "inv s \<Longrightarrow> spec op (view s) = Some cat \<Longrightarrow>
      \<exists>s'. step op s = (Inr (), s') \<and> inv s' \<and> view s' = cat"
begin

lemma run_sim:
  assumes "inv s" "cat_run spec ops (view s) = Some cat"
  shows "\<exists>s'. sfold step ops s = (Inr (), s') \<and> inv s' \<and> view s' = cat"
  using assms
proof (induction ops arbitrary: s)
  case Nil
  then show ?case by simp
next
  case (Cons op ops)
  from Cons.prems(2) obtain cat1 where "spec op (view s) = Some cat1" "cat_run spec ops cat1 = Some cat"
    by (auto simp: bind_eq_Some_conv)
  with step_sim [OF Cons.prems(1)] Cons.IH show ?case by fastforce
qed

end

text \<open>The configuration of the router is never changed.\<close>

lemma roConf_prims [simp]:
  "roConf (snd (addTable db a r)) = roConf r" "roConf (snd (removeTable db t r)) = roConf r"
  "roConf (snd (getRenameTableConfig db t t' r)) = roConf r" "roConf (snd (addDatabase db r)) = roConf r"
  "roConf (snd (dropDatabase db r)) = roConf r"
  by (auto simp: addTable_def removeTable_def getRenameTableConfig_def addDatabase_def dropDatabase_def Let_def
      split: option.split sum.split)

lemma roConf_lift [simp]:
  "nRouter (snd (on_disk f n)) = nRouter n"
  "roConf (nRouter (snd (on_router g n))) = roConf (snd (g (nRouter n)))"
  by (auto simp: on_disk_def on_router_def split: prod.split)

lemma nRouter_disk_ops [simp]:
  "nRouter (snd (update_version io n)) = nRouter n"
  "nRouter (snd (writeTableFrmData io db t a n)) = nRouter n"
  by (auto simp: update_version_def writeTableFrmData_def on_disk_def split: prod.split sum.split option.split)

lemma roConf_sbind:
  assumes "roConf (nRouter (snd m)) = k" "\<And>x s. roConf (nRouter s) = k \<Longrightarrow> roConf (nRouter (snd (f x s))) = k"
  shows "roConf (nRouter (snd (sbind m f))) = k"
  using assms by (auto simp: sbind_def split: prod.split sum.split)

lemma roConf_sfold:
  assumes "\<And>x s. roConf (nRouter s) = k \<Longrightarrow> roConf (nRouter (snd (f x s))) = k" "roConf (nRouter s) = k"
  shows "roConf (nRouter (snd (sfold f xs s))) = k"
  using assms(2)
proof (induction xs arbitrary: s)
  case (Cons x xs)
  then show ?case using assms(1) by (simp add: roConf_sbind)
qed simp

lemma roConf_undo:
  assumes "nRouter (snd m) = nRouter s" "\<And>r. roConf (snd (g r)) = roConf r"
  shows "roConf (nRouter (snd (case m of (Inl e, n2) \<Rightarrow> (Inl e :: unit res, snd (on_router g n2))
    | (Inr _, n2) \<Rightarrow> update_version io n2))) = roConf (nRouter s)"
  using assms by (cases m; cases "fst m") auto

lemma roConf_createTable: "roConf (nRouter (snd (createTable io db t a n))) = roConf (nRouter n)"
  by (auto simp: createTable_def roConf_undo intro!: roConf_sbind)

lemma roConf_dropTable: "roConf (nRouter (snd (dropTable io db t n))) = roConf (nRouter n)"
  by (auto simp: dropTable_def intro!: roConf_sbind)

lemma roConf_node_step: "roConf (nRouter (snd (node_step io op n))) = roConf (nRouter n)"
proof (cases op)
  case (CreateDb db)
  then show ?thesis by (auto simp: CreateDatabase_def roConf_undo intro!: roConf_sbind)
next
  case (DropDb db)
  then show ?thesis by (auto simp: DropDatabase_def intro!: roConf_sbind)
next
  case (AddTable db c)
  then show ?thesis by (simp add: create_from_def roConf_createTable)
next
  case (DropT db t)
  then show ?thesis by (simp add: DropTable_def roConf_dropTable)
next
  case (RenameT db t t')
  then show ?thesis by (auto simp: RenameTable_def roConf_createTable roConf_dropTable intro!: roConf_sbind)
next
  case Reload
  have one: "roConf (nRouter (snd (loadTableFromFile io db f s))) = roConf (nRouter s)" for db f s
    by (cases f) (auto simp: loadTableFromFile_def split: sum.split)
  then have dir: "roConf (nRouter (snd (load_dir io db s))) = roConf (nRouter s)" for db s
    by (auto simp: load_dir_def Let_def intro!: roConf_sfold)
  from Reload show ?thesis
    by (auto simp: ReLoad_def LoadConfig_def read_dir_def Let_def clear_def dir intro!: roConf_sbind roConf_sfold)
qed

text \<open>What the operating system grants for the commands to go through.\<close>

definition io_good :: "io \<Rightarrow> bool" where
  "io_good io \<longleftrightarrow>
     ioWrite io = WriteOk \<and> ioVersion io = WriteOk \<and> ioMkdir io \<and> ioRemove io \<and> ioRemoveAll io = None
     \<and> (\<forall>p. ioRead io p) \<and> (\<forall>xs. mset (ioVisit io xs) = mset xs)"

definition node_inv :: "RouterConfig \<Rightarrow> io \<Rightarrow> Node \<Rightarrow> bool" where
  "node_inv conf io n \<longleftrightarrow> synced n \<and> roConf (nRouter n) = conf \<and> io_good io"

lemma node_step_sim:
  assumes "node_inv conf io n" "cat_step conf op (mem_cat (nRouter n)) = Some cat"
  shows "\<exists>n'. node_step io op n = (Inr (), n') \<and> synced n' \<and> mem_cat (nRouter n') = cat"
proof -
  have sy: "synced n" and conf: "roConf (nRouter n) = conf" and io: "io_good io"
    using assms(1) by (auto simp: node_inv_def)
  note has = mem_cat_def [of "nRouter n"]
  show ?thesis
  proof (cases op)
    case (CreateDb db)
    then show ?thesis
      using assms(2) CreateDatabase_synced [OF sy, of db io] io
      by (auto simp: has io_good_def split: if_splits)
  next
    case (DropDb db)
    then show ?thesis
      using assms(2) DropDatabase_synced [OF sy, of db io] io by (auto simp: has io_good_def split: if_splits)
  next
    case (AddTable db c)
    then show ?thesis
      using assms(2) createTable_synced [OF sy, of db c _ io] io
      by (auto simp: has io_good_def conf create_from_def split: if_splits sum.splits)
  next
    case (DropT db t)
    then show ?thesis
      using assms(2) dropTable_synced [OF sy, of db t _ io] io
      by (auto simp: has io_good_def DropTable_def split: if_splits)
  next
    case (RenameT db t t')
    then show ?thesis
      using assms(2) RenameTable_synced [OF sy, of db t _ t' io] io
      by (auto simp: has io_good_def rename_config_under_name split: if_splits option.splits)
  next
    case Reload
    then show ?thesis
      using assms(2) LoadConfig_synced [OF sy, of io "clear (nRouter n)"] io
      by (cases n) (auto simp: ReLoad_def io_good_def clear_views)
  qed
qed

interpretation node_store: catalog_store "node_inv conf io" "\<lambda>n. mem_cat (nRouter n)" "node_step io" "cat_step conf"
  for conf io
proof (unfold_locales, goal_cases)
  case (1 n op cat)
  from node_step_sim [OF this] obtain n' where
    n': "node_step io op n = (Inr (), n')" "synced n'" "mem_cat (nRouter n') = cat" by blast
  have "roConf (nRouter n') = conf" using roConf_node_step [of io op n] n'(1) 1(1) by (simp add: node_inv_def)
  with n' 1(1) show ?case by (auto simp: node_inv_def)
qed

subsection \<open>Properties\<close>

text \<open>A node with an empty metadata directory.\<close>

definition empty_node :: Node where
  "empty_node = \<lparr>nRouter = NewRouter DefaultRouterConfig,
     nDisk = \<lparr>dkMetadir = [''meta''], dkDirs = [([], []), ([''meta''], [])]\<rparr>\<rparr>"

lemma empty_node_synced: "synced empty_node"
proof -
  have "take k [''meta''] \<in> {[], [''meta'']}" for k by (cases k) auto
  then show ?thesis
    by (auto simp: synced_def empty_node_def NewRouter_def router_ok_def disk_ok_def distinct_keys_def has_db_def
        tab_def tables_of_def unshared_def dir_map_def mem_cat_def is_file_def meta_files_def split: if_splits)
qed

lemma empty_node_cat: "mem_cat (nRouter empty_node) = Map.empty"
  by (simp add: empty_node_def NewRouter_def mem_cat_def has_db_def fun_eq_iff)

lemma io_ok_good: "io_good (io_ok ts)"
  by (simp add: io_good_def io_ok_def)

text \<open>C1: the router refines the abstract catalogue. Any sequence of create/drop database,
  add/drop/rename table and reload commands that the abstract catalogue accepts runs on the node
  without an error when no system call fails, leaves memory and files in agreement, and leaves the
  catalogue that the abstract commands give. The abstract catalogue does not accept a database with
  the name of a file the proxy keeps in the metadata directory, or with the name \<open>.\<close> or \<open>..\<close>, and
  renames only a table whose partition names begin with its name.\<close>

theorem catalog_refinement:
  assumes "synced n" "roConf (nRouter n) = conf" "io_good io"
    and "cat_run (cat_step conf) ops (mem_cat (nRouter n)) = Some cat"
  shows "\<exists>n'. sfold (node_step io) ops n = (Inr (), n') \<and> synced n' \<and> mem_cat (nRouter n') = cat"
  using node_store.run_sim [of conf io n ops cat] assms by (auto simp: node_inv_def)

definition demo_global :: TableConfig where
  "demo_global = \<lparr>tName = ''g'', tSlots = 0, tBlocks = 0, tShardType = MethodTypeGlobal, tShardKey = [],
     tPartitions = [\<lparr>pTable = ''g'', pSegment = [], pBackend = ''b1'', pListValue = []\<rparr>], tAutoIncrement = None\<rparr>"

lemma catalog_refinement_witness:
  "\<exists>n'. sfold (node_step (io_ok 1)) [CreateDb ''db'', AddTable ''db'' demo_global, RenameT ''db'' ''g'' ''h'', Reload]
      empty_node = (Inr (), n') \<and> synced n'
    \<and> mem_cat (nRouter n') = [''db'' \<mapsto> [''h'' \<mapsto> under_name 1 ''h'' demo_global]]"
proof (rule catalog_refinement [OF empty_node_synced _ io_ok_good])
  show "cat_run (cat_step DefaultRouterConfig)
      [CreateDb ''db'', AddTable ''db'' demo_global, RenameT ''db'' ''g'' ''h'', Reload]
      (mem_cat (nRouter empty_node)) = Some [''db'' \<mapsto> [''h'' \<mapsto> under_name 1 ''h'' demo_global]]"
    by (simp add: empty_node_cat plain_name_def meta_files_def NAME_CHAR_LEN_def checkNameInvalid_def build_partition_def
        demo_global_def Global_Build_def NewGlobal_def name_ok_def TABLE_NAME_SUFFIX_def)
qed (simp add: empty_node_def NewRouter_def)

text \<open>C2: a restart recovers the catalogue. From the files of a node whose memory and files agree,
  \<open>LoadConfig\<close> on a new router succeeds, in whatever order the directories are visited, and gives the
  catalogue the old router had.\<close>

theorem restart_recovers_catalog:
  assumes "synced n" "\<And>p. ioRead io p" "\<And>xs. mset (ioVisit io xs) = mset xs"
  shows "\<exists>n'. LoadConfig io \<lparr>nRouter = NewRouter (roConf (nRouter n)), nDisk = nDisk n\<rparr> = (Inr (), n') \<and> synced n'
    \<and> mem_cat (nRouter n') = mem_cat (nRouter n)"
  using LoadConfig_synced [OF assms, of "NewRouter (roConf (nRouter n))"] by (auto simp: NewRouter_def)

text \<open>The configuration \<open>HashUniform\<close> computes is accepted by \<open>addTable\<close>, whatever its auto-increment
  column.\<close>

lemma HashUniform_buildable:
  assumes "table \<noteq> []" "shardkey \<noteq> []" "uniform_blocks conf partitionNum = Inr blocks"
    and "0 < blocks" "backends \<noteq> []" "int (length backends) < rSlots conf"
    and "blocks \<le> rSlots conf div int (length backends)" "rSlots conf < 2 ^ 31"
  shows "\<exists>tc. HashUniform conf table shardkey backends partitionNum = Inr tc \<and> tName tc = table
    \<and> (\<forall>ai. \<exists>p. build_partition conf (tc\<lparr>tAutoIncrement := ai\<rparr>) = Inr p)"
proof -
  from HashUniform_chain [OF assms] obtain tc bs where
    tc: "HashUniform conf table shardkey backends partitionNum = Inr tc" "tSlots tc = rSlots conf"
      "tShardType tc = MethodTypeHash"
    and chain: "chain 0 bs (rSlots conf)"
      "list_all2 (\<lambda>p b. parse_segment (pSegment p) = Inr b) (tPartitions tc) bs" by blast
  have pos: "0 < rSlots conf" using assms(6) by linarith
  have "\<exists>p. build_partition conf (tc\<lparr>tAutoIncrement := ai\<rparr>) = Inr p" for ai
  proof -
    have "\<exists>h. Hash_Build (NewHash (rSlots conf) (tc\<lparr>tAutoIncrement := ai\<rparr>)) = Inr h \<and> hash_inv h"
      using chain pos assms(8) by (intro Hash_Build_chain) auto
    with tc show ?thesis by (auto simp: build_partition_def)
  qed
  moreover have "tName tc = table" using tc(1) HashUniform_result [OF assms(1-6)] by auto
  ultimately show ?thesis using tc(1) by blast
qed

text \<open>C19: \<open>CREATE TABLE ... PARTITION BY HASH\<close> on a consistent node succeeds whenever the database
  exists, the name is acceptable and free, and every backend gets at least one block: the table with
  the computed placement, and the auto-increment column that was asked for, is in memory and on
  disk.\<close>

theorem CreateHashTable_ok:
  assumes "synced n" "io_good io" "mem_cat (nRouter n) db = Some m" "m table = None" "name_ok table"
    and "table \<noteq> []" "shardkey \<noteq> []" "uniform_blocks (roConf (nRouter n)) partitionNum = Inr blocks"
    and "0 < blocks" "backends \<noteq> []" "int (length backends) < rSlots (roConf (nRouter n))"
    and "blocks \<le> rSlots (roConf (nRouter n)) div int (length backends)" "rSlots (roConf (nRouter n)) < 2 ^ 31"
  shows "\<exists>tc n'. HashUniform (roConf (nRouter n)) table shardkey backends partitionNum = Inr tc
    \<and> CreateHashTable io db table shardkey TableTypePartitionHash backends partitionNum (Some ai) n = (Inr (), n')
    \<and> synced n' \<and> mem_cat (nRouter n') = (mem_cat (nRouter n))(db \<mapsto> m(table \<mapsto> tc\<lparr>tAutoIncrement := ai\<rparr>))"
proof -
  from HashUniform_buildable [OF assms(6-13)] obtain tc p where
    tc: "HashUniform (roConf (nRouter n)) table shardkey backends partitionNum = Inr tc" "tName tc = table"
    and p: "build_partition (roConf (nRouter n)) (tc\<lparr>tAutoIncrement := ai\<rparr>) = Inr p" by blast
  have db: "has_db (nRouter n) db" "conf_of (nRouter n) db = m"
    using assms(3) by (auto simp: mem_cat_def split: if_splits)
  from createTable_synced [OF assms(1) db(1) _ _ p, of io] obtain n' where
    "createTable io db table (Some (length (roHeap (nRouter n))))
        (n\<lparr>nRouter := alloc (tc\<lparr>tAutoIncrement := ai\<rparr>) (nRouter n)\<rparr>) = (Inr (), n')" "synced n'"
    "mem_cat (nRouter n') = (mem_cat (nRouter n))(db \<mapsto> m(table \<mapsto> tc\<lparr>tAutoIncrement := ai\<rparr>))"
    using assms(2,4,5) tc(2) db by (auto simp: io_good_def)
  with tc show ?thesis by (auto simp: CreateHashTable_def create_from_def Let_def)
qed

definition demo_node :: Node where
  "demo_node = empty_node\<lparr>nRouter := (nRouter empty_node)\<lparr>roSchemas := [(''db'', \<lparr>scDB = ''db'', scTables = []\<rparr>)]\<rparr>,
     nDisk := (nDisk empty_node)\<lparr>dkDirs := [([], []), ([''meta''], []), ([''meta'', ''db''], [])]\<rparr>\<rparr>"

lemma demo_node_cat: "mem_cat (nRouter demo_node) = [''db'' \<mapsto> Map.empty]"
  by (auto simp: demo_node_def empty_node_def NewRouter_def mem_cat_def has_db_def conf_of_def tab_def tables_of_def
      fun_eq_iff)

lemma demo_node_synced: "synced demo_node"
proof -
  have "take k [''meta''] \<in> {[], [''meta'']}" for k by (cases k) auto
  then show ?thesis unfolding synced_def demo_node_cat
    by (auto simp: demo_node_def empty_node_def NewRouter_def router_ok_def disk_ok_def distinct_keys_def
        has_db_def plain_name_def tab_def tables_of_def unshared_def dir_map_def is_file_def meta_files_def
        split: if_splits)
qed

lemma CreateHashTable_ok_witness:
  "\<exists>tc n'. HashUniform DefaultRouterConfig ''t'' ''id'' [''b1'', ''b2''] None = Inr tc
    \<and> CreateHashTable (io_ok 1) ''db'' ''t'' ''id'' ''hash'' [''b1'', ''b2''] None (Some (Some ''id'')) demo_node = (Inr (), n')
    \<and> synced n' \<and> mem_cat (nRouter n') = [''db'' \<mapsto> [''t'' \<mapsto> tc\<lparr>tAutoIncrement := Some ''id''\<rparr>]]"
proof -
  have conf: "roConf (nRouter demo_node) = DefaultRouterConfig"
    by (simp add: demo_node_def empty_node_def NewRouter_def)
  show ?thesis
    using CreateHashTable_ok [OF demo_node_synced io_ok_good, of "''db''" Map.empty "''t''" "''id''" None 64
        "[''b1'', ''b2'']" 1 "Some ''id''"]
    by (simp add: conf demo_node_cat name_ok_def NAME_CHAR_LEN_def TABLE_NAME_SUFFIX_def checkNameInvalid_def
        DefaultRouterConfig_def uniform_blocks_def)
qed

text \<open>A node with one LIST table.\<close>

definition list_conf :: TableConfig where
  "list_conf = \<lparr>tName = ''l'', tSlots = 0, tBlocks = 0, tShardType = MethodTypeList, tShardKey = ''id'',
     tPartitions = [\<lparr>pTable = ''l_0000'', pSegment = [], pBackend = ''b1'', pListValue = ''7''\<rparr>,
                    \<lparr>pTable = ''l_0001'', pSegment = [], pBackend = ''b2'', pListValue = ''8''\<rparr>],
     tAutoIncrement = None\<rparr>"

definition list_table :: Table where
  "list_table = \<lparr>tbName = ''l'', tbShardKey = ''id'',
     tbPartition = Some (PList (demo_list\<lparr>lConf := list_conf\<rparr>)), tbConfig = 0\<rparr>"

definition list_node :: Node where
  "list_node = \<lparr>nRouter = \<lparr>roConf = DefaultRouterConfig,
       roSchemas = [(''db'', \<lparr>scDB = ''db'', scTables = [(''l'', list_table)]\<rparr>)], roHeap = [list_conf]\<rparr>,
     nDisk = \<lparr>dkMetadir = [''data'', ''meta''], dkDirs = [([], []), ([''data''], []), ([''data'', ''meta''], []),
       ([''data'', ''meta'', ''db''], [(''l.json'', FrmTable list_conf)])]\<rparr>\<rparr>"

lemma list_conf_build:
  "build_partition conf list_conf = Inr (PList (demo_list\<lparr>lConf := list_conf\<rparr>))"
  by (simp add: build_partition_def list_conf_def List_Build_def NewList_def demo_list_def)

lemma list_node_cat: "mem_cat (nRouter list_node) = [''db'' \<mapsto> [''l'' \<mapsto> list_conf]]"
  by (auto simp: list_node_def mem_cat_def has_db_def conf_of_def tab_def tables_of_def list_table_def fun_eq_iff)

lemma list_node_synced: "synced list_node"
proof -
  have tab: "tab (nRouter list_node) db t = Some tb \<longleftrightarrow> db = ''db'' \<and> t = ''l'' \<and> tb = list_table" for db t tb
    by (auto simp: list_node_def tab_def tables_of_def split: if_splits)
  have "table_ok (nRouter list_node) ''l'' list_table"
    using list_conf_build [of DefaultRouterConfig]
    by (simp add: table_ok_def list_node_def list_table_def) (simp add: list_conf_def)
  moreover have "disk_ok (nDisk list_node)"
    by (auto simp: list_node_def disk_ok_def distinct_keys_def take_Cons' is_file_def meta_files_def split: if_splits)
  moreover have "frm_map [''l'' \<mapsto> list_conf] = [''l.json'' \<mapsto> FrmTable list_conf]"
    by (simp add: frm_file_def)
  moreover have "distinct_keys (tables_of (nRouter list_node) db)" for db
    by (simp add: list_node_def tables_of_def distinct_keys_def)
  ultimately show ?thesis unfolding synced_def list_node_cat router_ok_def unshared_def tab
    by (auto simp: list_node_def has_db_def plain_name_def dir_map_def split: if_splits)
qed

lemma restart_recovers_catalog_witness:
  "\<exists>n'. LoadConfig ((io_ok 1)\<lparr>ioVisit := rev\<rparr>) \<lparr>nRouter = NewRouter DefaultRouterConfig, nDisk = nDisk list_node\<rparr> =
      (Inr (), n') \<and> synced n' \<and> mem_cat (nRouter n') = [''db'' \<mapsto> [''l'' \<mapsto> list_conf]]"
proof -
  have "roConf (nRouter list_node) = DefaultRouterConfig" by (simp add: list_node_def)
  then show ?thesis
    using restart_recovers_catalog [OF list_node_synced, of "(io_ok 1)\<lparr>ioVisit := rev\<rparr>"]
    by (simp add: io_ok_def list_node_cat)
qed

text \<open>The first partition found is the one that was meant when no other has its backend and name.\<close>

lemma find_partition_unique:
  assumes "i < length ps" "pBackend (ps ! i) = b" "pTable (ps ! i) = pt"
    and "\<And>j. j < length ps \<Longrightarrow> pBackend (ps ! j) = b \<Longrightarrow> pTable (ps ! j) = pt \<Longrightarrow> j = i"
  shows "find_partition b pt ps 0 = Some i"
proof (cases "find_partition b pt ps 0")
  case None
  have "find_partition b pt ps k = None \<Longrightarrow> \<not> list_ex (\<lambda>p. pBackend p = b \<and> pTable p = pt) ps" for k
    by (induction ps arbitrary: k) (auto split: if_splits)
  from this [OF None] nth_mem [OF assms(1)] assms(2,3) show ?thesis by (simp add: list_ex_iff)
next
  case (Some j)
  from find_partition_Some [OF this] assms(4) [of j] Some show ?thesis by simp
qed

lemma find_rule_unique:
  assumes "(k, v) \<in> set ts" "find_partition b pt (tPartitions (heap ! tbConfig v)) 0 = Some i"
    and "\<And>k' v' i'. (k', v') \<in> set ts \<Longrightarrow>
      find_partition b pt (tPartitions (heap ! tbConfig v')) 0 = Some i' \<Longrightarrow> v' = v"
  shows "find_rule b pt heap ts = Some (v, i)"
  using assms
proof (induction ts)
  case (Cons e ts)
  obtain k1 v1 where e: "e = (k1, v1)" by (cases e)
  show ?case
  proof (cases "find_partition b pt (tPartitions (heap ! tbConfig v1)) 0")
    case None
    then have "(k, v) \<in> set ts" using Cons.prems(1,2) e by auto
    then have "find_rule b pt heap ts = Some (v, i)" using Cons.prems by (intro Cons.IH) auto
    with None e show ?thesis by simp
  next
    case (Some i')
    then have "v1 = v" using Cons.prems(3) [of k1 v1 i'] e by simp
    with Some Cons.prems(2) e show ?thesis by simp
  qed
qed simp

text \<open>A partition table on a backend lies in one table of the database only, at one place.\<close>

definition only_partition ::
  "(string \<Rightarrow> TableConfig option) \<Rightarrow> string \<Rightarrow> string \<Rightarrow> string \<Rightarrow> nat \<Rightarrow> bool" where
  "only_partition m backend pt t i \<longleftrightarrow>
     (\<forall>t' c j. m t' = Some c \<longrightarrow> j < length (tPartitions c) \<longrightarrow> pBackend (tPartitions c ! j) = backend \<longrightarrow>
        pTable (tPartitions c ! j) = pt \<longrightarrow> t' = t \<and> j = i)"

text \<open>C20: shifting a partition to another backend. When the partition table \<open>pt\<close> lies on
  \<open>fromBackend\<close> in one table of the database only and, for a global table, the target does not hold
  the table yet, the shift succeeds and memory and files agree afterwards. The catalogue differs in
  that table only, and there in the partitions only: a global table gets one partition of its name
  on the target more; in any other table the partition keeps its name, segment and values and is on
  the target, and the other partitions stay as they are.\<close>

theorem PartitionRuleShift_ok:
  assumes "synced n" "mem_cat (nRouter n) db = Some m" "fromBackend \<noteq> toBackend" "io_good io"
    and "m t = Some c" "i < length (tPartitions c)" "pBackend (tPartitions c ! i) = fromBackend"
    and "pTable (tPartitions c ! i) = pt" "only_partition m fromBackend pt t i"
    and "tShardType c = MethodTypeGlobal \<Longrightarrow> toBackend \<notin> pBackend ` set (tPartitions c)"
  shows "\<exists>n' ps. PartitionRuleShift io fromBackend toBackend db pt n = (Inr (), n') \<and> synced n'
    \<and> mem_cat (nRouter n') = (mem_cat (nRouter n))(db \<mapsto> m(t \<mapsto> c\<lparr>tPartitions := ps\<rparr>))
    \<and> (if tShardType c = MethodTypeGlobal
       then ps = tPartitions c @ [\<lparr>pTable = t, pSegment = [], pBackend = toBackend, pListValue = []\<rparr>]
       else length ps = length (tPartitions c)
         \<and> (\<forall>j < length ps. ps ! j =
              (if j = i
               then \<lparr>pTable = pt, pSegment = pSegment (tPartitions c ! i), pBackend = toBackend,
                 pListValue = pListValue (tPartitions c ! i)\<rparr>
               else tPartitions c ! j)))"
proof -
  let ?r = "nRouter n"
  have db: "has_db ?r db" "conf_of ?r db = m"
    using assms(2) by (auto simp: mem_cat_def split: if_splits)
  have ok: "router_ok ?r" using assms(1) by (simp add: synced_def)
  from assms(5) db(2) obtain v where v: "tab ?r db t = Some v" and c: "c = roHeap ?r ! tbConfig v"
    by (auto simp: conf_of_def)
  have tname: "tbName v = t" using ok v by (simp add: router_ok_def table_ok_def)
  have dk: "distinct_keys (tables_of ?r db)" using ok by (simp add: router_ok_def)
  have fp: "find_partition fromBackend pt (tPartitions (roHeap ?r ! tbConfig v)) 0 = Some i"
    using find_partition_unique [OF assms(6-8)] assms(5,9) unfolding only_partition_def c by blast
  have uniq: "v' = v" if "(k', v') \<in> set (tables_of ?r db)"
    and f: "find_partition fromBackend pt (tPartitions (roHeap ?r ! tbConfig v')) 0 = Some i'" for k' v' i'
  proof -
    have tab': "tab ?r db k' = Some v'" using that(1) dk by (simp add: tab_def map_of_in_set)
    then have "m k' = Some (roHeap ?r ! tbConfig v')" using db(2) by (auto simp: conf_of_def)
    with find_partition_Some [OF f] assms(9) have "k' = t" unfolding only_partition_def by fastforce
    with tab' v show ?thesis by simp
  qed
  have "(t, v) \<in> set (tables_of ?r db)" using v dk by (simp add: tab_def map_of_in_set)
  from find_rule_unique [OF this fp uniq]
  have rule: "find_rule fromBackend pt (roHeap ?r) (tables_of ?r db) = Some (v, i)" .
  have free: "\<not> (tShardType c = MethodTypeGlobal \<and> list_ex (\<lambda>p. pBackend p = toBackend) (tPartitions c))"
    using assms(10) by (auto simp: list_ex_iff)
  from PartitionRuleShift_synced [OF assms(1) db(1) assms(3) rule, of io] free assms(4)
  obtain n' where "PartitionRuleShift io fromBackend toBackend db pt n = (Inr (), n')" "synced n'"
    "mem_cat (nRouter n') = (mem_cat ?r)(db \<mapsto> m(t \<mapsto> shifted_config toBackend t i c))"
    by (auto simp: io_good_def c db(2) tname)
  then show ?thesis
    using assms(7,8)
    by (intro exI [of _ n'] exI [of _ "tPartitions (shifted_config toBackend t i c)"])
      (auto simp: shifted_config_def nth_list_update)
qed

lemma PartitionRuleShift_ok_witness:
  "\<exists>n' ps. PartitionRuleShift (io_ok 1) ''b2'' ''b3'' ''db'' ''l_0001'' list_node = (Inr (), n') \<and> synced n'
    \<and> mem_cat (nRouter n') = [''db'' \<mapsto> [''l'' \<mapsto> list_conf\<lparr>tPartitions := ps\<rparr>]]
    \<and> length ps = 2 \<and> pBackend (ps ! 0) = ''b1'' \<and> pBackend (ps ! 1) = ''b3'' \<and> pTable (ps ! 1) = ''l_0001''"
proof -
  have parts: "length (tPartitions list_conf) = 2" "pBackend (tPartitions list_conf ! 1) = ''b2''"
    "pTable (tPartitions list_conf ! 1) = ''l_0001''" "pBackend (tPartitions list_conf ! 0) = ''b1''"
    "tShardType list_conf \<noteq> MethodTypeGlobal"
    by (simp_all add: list_conf_def)
  have "only_partition [''l'' \<mapsto> list_conf] ''b2'' ''l_0001'' ''l'' 1"
    unfolding only_partition_def
  proof (intro allI impI)
    fix t' c j assume c: "[''l'' \<mapsto> list_conf] t' = Some c" and j: "j < length (tPartitions c)"
      and b: "pBackend (tPartitions c ! j) = ''b2''"
    from c have c': "t' = ''l''" "c = list_conf" by (simp_all split: if_splits)
    with b parts(4) have "j \<noteq> 0" by (cases j) simp_all
    with j parts(1) c' show "t' = ''l'' \<and> j = 1" by simp
  qed
  note shift = PartitionRuleShift_ok [OF list_node_synced _ _ io_ok_good _ _ parts(2,3) this]
  obtain n' ps where w: "PartitionRuleShift (io_ok 1) ''b2'' ''b3'' ''db'' ''l_0001'' list_node = (Inr (), n')" "synced n'"
    "mem_cat (nRouter n') = (mem_cat (nRouter list_node))(''db'' \<mapsto> [''l'' \<mapsto> list_conf](''l'' \<mapsto> list_conf\<lparr>tPartitions := ps\<rparr>))"
    and ps: "if tShardType list_conf = MethodTypeGlobal
       then ps = tPartitions list_conf @ [\<lparr>pTable = ''l'', pSegment = [], pBackend = ''b3'', pListValue = []\<rparr>]
       else length ps = length (tPartitions list_conf)
         \<and> (\<forall>j < length ps. ps ! j =
              (if j = 1
               then \<lparr>pTable = ''l_0001'', pSegment = pSegment (tPartitions list_conf ! 1), pBackend = ''b3'',
                 pListValue = pListValue (tPartitions list_conf ! 1)\<rparr>
               else tPartitions list_conf ! j))"
    using shift [of "''db''" "''b3''" 1] parts(1,5) list_node_cat by auto
  from ps parts(1,5) have len: "length ps = 2" by simp
  have "ps ! 0 = tPartitions list_conf ! 0" "pBackend (ps ! 1) = ''b3''" "pTable (ps ! 1) = ''l_0001''"
    using ps parts(1,5) by simp_all
  with w len parts(4) list_node_cat show ?thesis by auto
qed

text \<open>A new table entered and taken out again leaves the catalogue as it was.\<close>

lemma add_then_remove:
  assumes "synced n" "mem_cat (nRouter n) db = Some m" "m (tName c) = None"
    and "build_partition (roConf (nRouter n)) c = Inr p"
  shows "\<exists>r1 r2. addTable db (Some (length (roHeap (nRouter n)))) (alloc c (nRouter n)) = (Inr (), r1)
    \<and> removeTable db (tName c) r1 = (Inr (), r2) \<and> router_ok r2 \<and> mem_cat r2 = mem_cat (nRouter n)"
proof -
  let ?r = "nRouter n"
  have ok: "router_ok ?r" using assms(1) by (simp add: synced_def)
  have db: "has_db ?r db" "conf_of ?r db = m" using assms(2) by (auto simp: mem_cat_def split: if_splits)
  have "db \<noteq> []" using synced_plain [OF assms(1) db(1)] by (simp add: plain_name_def)
  moreover have "tab ?r db (tName c) = None" using assms(3) db(2) by (auto simp: conf_of_def)
  ultimately obtain r1 where r1: "addTable db (Some (length (roHeap ?r))) (alloc c ?r) = (Inr (), r1)" "loaded ?r db c p r1"
    using addTable_loaded [OF db(1)] assms(4) by blast
  note ok1 = router_ok_loaded [OF ok r1(2) db(1) assms(4)]
  have "tab r1 db (tName c) \<noteq> None" using r1(2) by (simp add: loaded_def)
  then obtain r2 where r2: "removeTable db (tName c) r1 = (Inr (), r2)" "removed r1 db (tName c) r2"
    using removeTable_removed by blast
  have db1: "has_db r1 db" using r1(2) db(1) by (simp add: loaded_def)
  have "conf_of r1 db = m(tName c \<mapsto> c)" by (rule conf_of_mem_cat) (simp add: ok1(2) db(2))
  then have "mem_cat r2 = mem_cat ?r"
    using mem_cat_removed [OF r2(2) db1] assms(2,3) by (auto simp: ok1(2) fun_eq_iff)
  with r1(1) r2 router_ok_removed [OF ok1(1) r2(2)] show ?thesis by blast
qed

text \<open>C23: when the file of a new table cannot be opened, the creation returns that error and is undone:
  the catalogue and the files are as before, and still agree.\<close>

theorem create_open_failure_undone:
  assumes "synced n" "mem_cat (nRouter n) db = Some m" "m (tName c) = None" "name_ok (tName c)"
    and "build_partition (roConf (nRouter n)) c = Inr p" "ioWrite io = WriteFail None"
  shows "\<exists>n'. create_from io db (tName c) (Inr c) None n = (Inl (GoError ''open''), n') \<and> synced n'
    \<and> nDisk n' = nDisk n \<and> mem_cat (nRouter n') = mem_cat (nRouter n)"
proof -
  from add_then_remove [OF assms(1,2,3,5)] obtain r1 r2 where
    r: "addTable db (Some (length (roHeap (nRouter n)))) (alloc c (nRouter n)) = (Inr (), r1)"
      "removeTable db (tName c) r1 = (Inr (), r2)" "router_ok r2" "mem_cat r2 = mem_cat (nRouter n)" by blast
  have db: "has_db (nRouter n) db" using assms(2) by (auto simp: mem_cat_def split: if_splits)
  obtain files where "map_of (dkDirs (nDisk n)) (dkMetadir (nDisk n) @ [db]) = Some files"
    using synced_dir_map [OF assms(1) db] by (rule dir_map_Some)
  moreover have "map_of (dkDirs (nDisk n)) (dkMetadir (nDisk n) @ [db, frm_file (tName c)]) = None"
    using assms(1) disk_okD(6) unfolding map_of_None_keys synced_def by blast
  ultimately have "create_from io db (tName c) (Inr c) None n = (Inl (GoError ''open''), n\<lparr>nRouter := r2\<rparr>)"
    using r(1,2) assms(4,6) synced_plain [OF assms(1) db]
    by (simp add: create_from_def createTable_def name_ok_def on_router_def writeTableFrmData_def on_disk_def WriteFile_def)
  with r(3,4) assms(1) show ?thesis by (simp add: synced_def)
qed

lemma create_open_failure_undone_witness:
  "\<exists>n'. create_from ((io_ok 1)\<lparr>ioWrite := WriteFail None\<rparr>) ''db'' ''g'' (Inr demo_global) None list_node =
      (Inl (GoError ''open''), n') \<and> synced n' \<and> nDisk n' = nDisk list_node
    \<and> mem_cat (nRouter n') = mem_cat (nRouter list_node)"
  using create_open_failure_undone [OF list_node_synced, of "''db''" "[''l'' \<mapsto> list_conf]" demo_global _
      "(io_ok 1)\<lparr>ioWrite := WriteFail None\<rparr>"]
  by (simp add: list_node_cat demo_global_def name_ok_def NAME_CHAR_LEN_def TABLE_NAME_SUFFIX_def
      checkNameInvalid_def build_partition_def Global_Build_def NewGlobal_def)

text \<open>C24: when the write fails after the file has been opened, the table is taken out of the memory but
  whatever the file then holds stays on disk: the creation is reported as failed, and memory and files
  no longer agree.\<close>

theorem create_write_failure_leaves_file:
  assumes "synced n" "mem_cat (nRouter n) db = Some m" "m (tName c) = None" "name_ok (tName c)"
    and "build_partition (roConf (nRouter n)) c = Inr p" "ioWrite io = WriteFail (Some f)"
  shows "\<exists>n' fm. create_from io db (tName c) (Inr c) None n = (Inl (GoError ''write''), n')
    \<and> CheckTable (nRouter n') db (tName c) = (if tName c = [] then Inl (GoError ''tableName.is.empty'') else Inr False)
    \<and> dir_map (nDisk n') db = Some fm \<and> fm (frm_file (tName c)) = Some f \<and> \<not> synced n'"
proof -
  let ?d = "nDisk n"
  from add_then_remove [OF assms(1,2,3,5)] obtain r1 r2 where
    r: "addTable db (Some (length (roHeap (nRouter n)))) (alloc c (nRouter n)) = (Inr (), r1)"
      "removeTable db (tName c) r1 = (Inr (), r2)" "router_ok r2" "mem_cat r2 = mem_cat (nRouter n)" by blast
  have db: "has_db (nRouter n) db" using assms(2) by (auto simp: mem_cat_def split: if_splits)
  note pl = synced_plain [OF assms(1) db]
  have db2: "has_db r2 db" "conf_of r2 db (tName c) = None"
    using r(4) assms(2,3) conf_of_mem_cat [of r2 db m] by (auto simp: mem_cat_def split: if_splits dest: fun_cong)
  obtain files where files: "map_of (dkDirs ?d) (dkMetadir ?d @ [db]) = Some files"
    using synced_dir_map [OF assms(1) db] by (rule dir_map_Some)
  let ?d' = "?d\<lparr>dkDirs := AList.update (dkMetadir ?d @ [db]) (AList.update (frm_file (tName c)) f files) (dkDirs ?d)\<rparr>"
  have nodir: "map_of (dkDirs ?d) (dkMetadir ?d @ [db, frm_file (tName c)]) = None"
    using assms(1) disk_okD(6) unfolding map_of_None_keys synced_def by blast
  then have run: "create_from io db (tName c) (Inr c) None n = (Inl (GoError ''write''), n\<lparr>nRouter := r2, nDisk := ?d'\<rparr>)"
    using r(1,2) assms(4,6) pl files
    by (simp add: create_from_def createTable_def name_ok_def on_router_def writeTableFrmData_def on_disk_def WriteFile_def)
  have dm: "dir_map ?d' db = Some ((map_of files)(frm_file (tName c) \<mapsto> f))" by (simp add: dir_map_put)
  have "\<not> synced (n\<lparr>nRouter := r2, nDisk := ?d'\<rparr>)"
  proof
    assume "synced (n\<lparr>nRouter := r2, nDisk := ?d'\<rparr>)"
    then have "dir_map ?d' db = Some (frm_map (conf_of r2 db))"
      using synced_dir_map [of "n\<lparr>nRouter := r2, nDisk := ?d'\<rparr>" db] db2(1) by simp
    with dm have "frm_map (conf_of r2 db) (frm_file (tName c)) = Some f" by (metis fun_upd_same option.inject)
    then show False by (simp add: db2(2))
  qed
  with run dm db2 pl show ?thesis
    by (auto simp: CheckTable_def checkDatabase_def has_db_def conf_of_def tab_def plain_name_def)
qed

lemma create_write_failure_leaves_file_witness:
  "\<exists>n' fm. create_from ((io_ok 1)\<lparr>ioWrite := WriteFail (Some FrmOther)\<rparr>) ''db'' ''g'' (Inr demo_global) None list_node =
      (Inl (GoError ''write''), n')
    \<and> CheckTable (nRouter n') ''db'' ''g'' = Inr False
    \<and> dir_map (nDisk n') ''db'' = Some fm \<and> fm (frm_file ''g'') = Some FrmOther \<and> \<not> synced n'"
  using create_write_failure_leaves_file [OF list_node_synced, of "''db''" "[''l'' \<mapsto> list_conf]" demo_global _
      "(io_ok 1)\<lparr>ioWrite := WriteFail (Some FrmOther)\<rparr>" FrmOther]
  by (simp add: list_node_cat demo_global_def name_ok_def NAME_CHAR_LEN_def TABLE_NAME_SUFFIX_def
      checkNameInvalid_def build_partition_def Global_Build_def NewGlobal_def)

text \<open>C25: \<open>RenameTable\<close> renames the configuration in place before the new name is checked. When the
  new name is too long the error is returned, but the old table's configuration in memory already
  has the new name and the new partition names, while its file is untouched.\<close>

theorem RenameTable_failure_keeps_new_name:
  assumes "synced n" "mem_cat (nRouter n) db = Some m" "m fromTable = Some c" "m toTable = None"
    and "NAME_CHAR_LEN < length toTable + TABLE_NAME_SUFFIX"
  shows "\<exists>n'. RenameTable io db fromTable toTable n = (Inl ER_TOO_LONG_IDENT, n')
    \<and> nDisk n' = nDisk n
    \<and> conf_of (nRouter n') db fromTable = Some (rename_config fromTable toTable c)"
proof -
  let ?r = "nRouter n"
  have db: "has_db ?r db" "conf_of ?r db = m" using assms(2) by (auto simp: mem_cat_def split: if_splits)
  from assms(3) db(2) obtain tb where tb: "tab ?r db fromTable = Some tb" "c = roHeap ?r ! tbConfig tb"
    by (auto simp: conf_of_def)
  have lt: "tbConfig tb < length (roHeap ?r)" using assms(1) tb(1) by (auto simp: synced_def router_ok_def table_ok_def)
  have to: "tab ?r db toTable = None" using assms(4) db(2) by (auto simp: conf_of_def)
  let ?r' = "?r\<lparr>roHeap := (roHeap ?r)[tbConfig tb := rename_config fromTable toTable c]\<rparr>"
  have "getRenameTableConfig db fromTable toTable ?r = (Inr (tbConfig tb), ?r')"
    using tb to db(1) by (simp add: getRenameTableConfig_def tab_def has_db_def Let_def)
  then have "RenameTable io db fromTable toTable n = (Inl ER_TOO_LONG_IDENT, n\<lparr>nRouter := ?r'\<rparr>)"
    using assms(5) by (simp add: RenameTable_def on_router_def createTable_def)
  moreover have "tab ?r' db fromTable = Some tb" using tb(1) by (simp add: tab_def tables_of_def)
  ultimately show ?thesis using lt by (simp add: conf_of_def)
qed

lemma RenameTable_failure_keeps_new_name_witness:
  "\<exists>n'. RenameTable (io_ok 1) ''db'' ''l'' (replicate 60 CHR ''x'') list_node = (Inl ER_TOO_LONG_IDENT, n')
    \<and> nDisk n' = nDisk list_node
    \<and> conf_of (nRouter n') ''db'' ''l'' = Some (rename_config ''l'' (replicate 60 CHR ''x'') list_conf)"
proof -
  have "length (replicate 60 CHR ''x'') \<noteq> length ''l''" unfolding length_replicate by simp
  then have "replicate 60 CHR ''x'' \<noteq> ''l''" by metis
  then show ?thesis
    by (intro RenameTable_failure_keeps_new_name [OF list_node_synced, where m = "[''l'' \<mapsto> list_conf]"])
      (auto simp: list_node_cat NAME_CHAR_LEN_def TABLE_NAME_SUFFIX_def)
qed

text \<open>C27: the name check of \<open>CreateDatabase\<close> lets \<open>..\<close> through. Creating that database and dropping it
  again removes the parent of the metadata directory, with the files of every database, and then
  panics because the version file has nowhere to go.\<close>

theorem dotdot_database_removes_metadata:
  assumes "\<not> has_db (nRouter n) ''..''" "dkMetadir (nDisk n) = parent @ [meta]" "disk_ok (nDisk n)"
  shows "\<exists>n1 n2. CreateDatabase (io_ok ts) ''..'' n = (Inr (), n1)
    \<and> DropDatabase (io_ok ts) ''..'' n1 = (Inl (GoPanic ''update.version.error:%v''), n2)
    \<and> (\<forall>p \<in> keys (dkDirs (nDisk n2)). \<not> prefix parent p)"
proof -
  let ?r = "(nRouter n)\<lparr>roSchemas := AList.update ''..'' \<lparr>scDB = ''..'', scTables = []\<rparr> (roSchemas (nRouter n))\<rparr>"
  from UpdateVersion_keeps [OF assms(3), of "io_ok ts"] obtain d where
    d: "UpdateVersion (io_ok ts) (nDisk n) = (Inr (), d)" "dkMetadir d = parent @ [meta]" "disk_ok d"
    using assms(2) by (auto simp: io_ok_def)
  have in_keys: "take k (parent @ [meta]) \<in> keys (dkDirs e)" if "disk_ok e" "dkMetadir e = parent @ [meta]" for k e
    using that by (auto simp: disk_ok_def)
  from in_keys [OF assms(3,2), of "length parent"] have "map_of (dkDirs (nDisk n)) parent \<noteq> None"
    by (simp add: map_of_None_keys)
  then have "\<not> Stat_IsNotExist parent (dkDirs (nDisk n))" by (simp add: Stat_IsNotExist_def)
  then have create: "CreateDatabase (io_ok ts) ''..'' n = (Inr (), n\<lparr>nRouter := ?r, nDisk := d\<rparr>)"
    using assms(1,2) d(1)
    by (simp add: CreateDatabase_def NAME_CHAR_LEN_def checkNameInvalid_def addDatabase_def has_db_def on_router_def
        on_disk_def writeDatabaseFrmData_def path_join_def update_version_def)
  let ?ds = "filter (\<lambda>e. \<not> prefix parent (fst e)) (dkDirs d)"
  have "\<not> is_file (take k parent) (dkDirs d)" if "k \<le> length parent" for k
    using in_keys [OF d(3,2), of k] d(3) that by (auto simp: disk_ok_def)
  from this [of "length parent"] this
  have rm: "remove_file parent (dkDirs d) = dkDirs d" "\<not> below_file parent (dkDirs d)"
    by (auto simp: remove_file_def below_file_def list_ex_iff)
  have "map_of ?ds (parent @ [meta]) = None"
    using map_of_filter_key [of "\<lambda>p. \<not> prefix parent p" "dkDirs d" "parent @ [meta]"] by simp
  then have "DropDatabase (io_ok ts) ''..'' (n\<lparr>nRouter := ?r, nDisk := d\<rparr>) =
      (Inl (GoPanic ''update.version.error:%v''),
       n\<lparr>nRouter := ?r\<lparr>roSchemas := AList.delete ''..'' (roSchemas ?r)\<rparr>, nDisk := d\<lparr>dkDirs := ?ds\<rparr>\<rparr>)"
    using d(2) rm
    by (simp add: DropDatabase_def dropDatabase_def on_router_def on_disk_def RemoveAll_def path_join_def
        update_version_def UpdateVersion_def WriteFile_def io_ok_def)
  with create show ?thesis by auto
qed

lemma dotdot_database_removes_metadata_witness:
  "\<exists>n1 n2. CreateDatabase (io_ok 1) ''..'' list_node = (Inr (), n1)
    \<and> DropDatabase (io_ok 1) ''..'' n1 = (Inl (GoPanic ''update.version.error:%v''), n2)
    \<and> (\<forall>p \<in> keys (dkDirs (nDisk n2)). \<not> prefix [''data''] p)"
proof (rule dotdot_database_removes_metadata [where meta = "''meta''"])
  show "disk_ok (nDisk list_node)" using list_node_synced by (simp add: synced_def)
qed (auto simp: list_node_def has_db_def)

text \<open>C1: \<open>CreateDatabase\<close> takes any existing path for the directory of the database. A database with
  the name of a file in the metadata directory, such as \<open>version.json\<close>, is reported as created and is in
  memory, but it gets no directory: memory and files disagree, and the next reload has lost it.\<close>

theorem database_named_like_file_is_lost:
  assumes "synced n" "io_good io" "is_file (dkMetadir (nDisk n) @ [db]) (dkDirs (nDisk n))"
  shows "\<exists>n1 n2. CreateDatabase io db n = (Inr (), n1)
    \<and> mem_cat (nRouter n1) = (mem_cat (nRouter n))(db \<mapsto> Map.empty) \<and> dir_map (nDisk n1) db = None \<and> \<not> synced n1
    \<and> ReLoad io n1 = (Inr (), n2) \<and> mem_cat (nRouter n2) = mem_cat (nRouter n) \<and> mem_cat (nRouter n2) db = None"
proof -
  let ?r = "(nRouter n)\<lparr>roSchemas := AList.update db \<lparr>scDB = db, scTables = []\<rparr> (roSchemas (nRouter n))\<rparr>"
  have dok: "disk_ok (nDisk n)" using assms(1) by (simp add: synced_def)
  then have "db \<in> set meta_files" using assms(3) by (simp add: disk_ok_def)
  then have name: "plain_name db" "length db \<le> NAME_CHAR_LEN" "\<not> checkNameInvalid db"
    by (auto simp: meta_files_def plain_name_def NAME_CHAR_LEN_def checkNameInvalid_def)
  have "dkMetadir (nDisk n) @ [db] \<notin> keys (dkDirs (nDisk n))" using dok assms(3) by (auto simp: disk_ok_def)
  then have dm: "dir_map (nDisk n) db = None" by (simp add: dir_map_None)
  with assms(1) have no: "\<not> has_db (nRouter n) db" "mem_cat (nRouter n) db = None"
    by (auto simp: synced_def mem_cat_def split: if_splits)
  from UpdateVersion_keeps [OF dok, of io] assms(2) obtain d where
    d: "UpdateVersion io (nDisk n) = (Inr (), d)" "dir_map d = dir_map (nDisk n)" "disk_ok d"
    by (auto simp: io_good_def)
  have run: "CreateDatabase io db n = (Inr (), \<lparr>nRouter = ?r, nDisk = d\<rparr>)"
    using name no(1) assms(3) d(1)
    by (cases n) (simp add: CreateDatabase_def addDatabase_def has_db_def on_router_def on_disk_def plain_name_def
        writeDatabaseFrmData_def Stat_IsNotExist_def update_version_def path_join_def)
  have sy: "synced \<lparr>nRouter = nRouter n, nDisk = d\<rparr>" using assms(1) d(2,3) by (simp add: synced_def)
  from LoadConfig_synced [OF sy, of io "clear ?r"] assms(2) obtain n2 where
    "LoadConfig io \<lparr>nRouter = clear ?r, nDisk = d\<rparr> = (Inr (), n2)" "mem_cat (nRouter n2) = mem_cat (nRouter n)"
    by (auto simp: io_good_def clear_views(3))
  moreover have mc: "mem_cat ?r = (mem_cat (nRouter n))(db \<mapsto> Map.empty)" using addDatabase_views(4) [OF no(1)] .
  moreover have "\<not> synced \<lparr>nRouter = ?r, nDisk = d\<rparr>"
  proof
    assume "synced \<lparr>nRouter = ?r, nDisk = d\<rparr>"
    then have "dir_map d db = map_option frm_map (mem_cat ?r db)" by (simp add: synced_def)
    then show False by (simp add: mc d(2) dm)
  qed
  ultimately show ?thesis using run no(2) d(2) dm by (auto simp: ReLoad_def)
qed

definition stamped_node :: Node where
  "stamped_node = empty_node\<lparr>nDisk := \<lparr>dkMetadir = [''meta''],
     dkDirs = [([], []), ([''meta''], [(''version.json'', FrmVersion 1)])]\<rparr>\<rparr>"

lemma stamped_node_synced: "synced stamped_node"
proof -
  have "UpdateVersion (io_ok 1) (nDisk empty_node) = (Inr (), nDisk stamped_node)"
    by (simp add: UpdateVersion_def WriteFile_def stamped_node_def empty_node_def io_ok_def)
  with update_version_synced [OF empty_node_synced, of "io_ok 1"] show ?thesis
    by (auto simp: update_version_def on_disk_def stamped_node_def io_ok_def)
qed

lemma database_named_like_file_is_lost_witness:
  "\<exists>n1 n2. CreateDatabase (io_ok 2) ''version.json'' stamped_node = (Inr (), n1)
    \<and> mem_cat (nRouter n1) = [''version.json'' \<mapsto> Map.empty] \<and> \<not> synced n1
    \<and> ReLoad (io_ok 2) n1 = (Inr (), n2) \<and> mem_cat (nRouter n2) = Map.empty"
proof -
  have "mem_cat (nRouter stamped_node) = Map.empty"
    by (simp add: stamped_node_def empty_node_cat)
  moreover have "is_file (dkMetadir (nDisk stamped_node) @ [''version.json'']) (dkDirs (nDisk stamped_node))"
    by (simp add: stamped_node_def is_file_def)
  ultimately show ?thesis
    using database_named_like_file_is_lost [OF stamped_node_synced io_ok_good, of "''version.json''" 2] by auto
qed

end
