(* ===== verification/Radon_Value.thy ===== *)
theory Radon_Value
  imports Radon_Prelude "HOL-Library.Option_ord"
begin

section \<open>Values and their comparison\<close>

text \<open>
  The values of the vendored \<open>sqltypes\<close> package and their comparison
  (\<open>src/src/vendor/github.com/xelabs/go-mysqlstack/sqlparser/depends/sqltypes/arithmetic.go\<close>).

  A value is its type class and its content: integers are kept as the number their text denotes,
  every other value as its text. A value of a result is well formed for its type, so the parse errors
  of \<open>newNumeric\<close> do not arise, and no result has a tuple.
\<close>

datatype Value =
    VNull
  | VSigned int
  | VUnsigned int
  | VNumber string
  | VTemporal string
  | VText string

fun isNumber :: "Value \<Rightarrow> bool" where
  "isNumber (VSigned _) = True"
| "isNumber (VUnsigned _) = True"
| "isNumber (VNumber _) = True"
| "isNumber _ = False"

fun raw :: "Value \<Rightarrow> string" where
  "raw VNull = []"
| "raw (VSigned i) = sprintf_d i"
| "raw (VUnsigned i) = sprintf_d i"
| "raw (VNumber s) = s"
| "raw (VTemporal s) = s"
| "raw (VText s) = s"

fun int_value :: "Value \<Rightarrow> int option" where
  "int_value (VSigned i) = Some i"
| "int_value (VUnsigned i) = Some i"
| "int_value _ = None"

definition compare_ord :: "'a::linorder \<Rightarrow> 'a \<Rightarrow> int" where
  "compare_ord x y = (if x < y then - 1 else if x = y then 0 else 1)"

text \<open>
  \<open>NullsafeCompare\<close>. Two integers compare as numbers, whatever their signedness; the comparison of
  floating-point, decimal and mixed operands is the parameter \<open>ncmp\<close>.
\<close>

type_synonym num_compare = "Value \<Rightarrow> Value \<Rightarrow> int"

definition compareNumeric :: "num_compare \<Rightarrow> Value \<Rightarrow> Value \<Rightarrow> int" where
  "compareNumeric ncmp v1 v2 =
     (case (int_value v1, int_value v2) of
        (Some a, Some b) \<Rightarrow> compare_ord a b
      | _ \<Rightarrow> ncmp v1 v2)"

definition NullsafeCompare :: "num_compare \<Rightarrow> Value \<Rightarrow> Value \<Rightarrow> int" where
  "NullsafeCompare ncmp v1 v2 =
     (if v1 = VNull then (if v2 = VNull then 0 else - 1)
      else if v2 = VNull then 1
      else if isNumber v1 \<or> isNumber v2 then compareNumeric ncmp v1 v2
      else compare_ord (raw v1) (raw v2))"

definition minmax :: "num_compare \<Rightarrow> Value \<Rightarrow> Value \<Rightarrow> bool \<Rightarrow> Value" where
  "minmax ncmp v1 v2 mn =
     (if v1 = VNull then v2
      else if v2 = VNull then v1
      else if mn = (NullsafeCompare ncmp v1 v2 < 0) then v1 else v2)"

definition value_Min :: "num_compare \<Rightarrow> Value \<Rightarrow> Value \<Rightarrow> Value" where
  "value_Min ncmp v1 v2 = minmax ncmp v1 v2 True"

definition value_Max :: "num_compare \<Rightarrow> Value \<Rightarrow> Value \<Rightarrow> Value" where
  "value_Max ncmp v1 v2 = minmax ncmp v1 v2 False"

subsection \<open>When the comparison is an order\<close>

text \<open>The comparison is a total preorder on a set of values.\<close>

definition cmp_order :: "('a \<Rightarrow> 'a \<Rightarrow> int) \<Rightarrow> 'a set \<Rightarrow> bool" where
  "cmp_order cmp S \<longleftrightarrow>
     (\<forall>a \<in> S. \<forall>b \<in> S. cmp b a = - cmp a b)
     \<and> (\<forall>a \<in> S. \<forall>b \<in> S. \<forall>c \<in> S. cmp a b \<le> 0 \<longrightarrow> cmp b c \<le> 0 \<longrightarrow> cmp a c \<le> 0)"

lemma cmp_order_mono: "cmp_order cmp T \<Longrightarrow> S \<subseteq> T \<Longrightarrow> cmp_order cmp S"
  unfolding cmp_order_def by blast

lemma cmp_order_sym: "cmp_order cmp S \<Longrightarrow> a \<in> S \<Longrightarrow> b \<in> S \<Longrightarrow> cmp b a = - cmp a b"
  unfolding cmp_order_def by blast

lemma cmp_order_refl: "cmp_order cmp S \<Longrightarrow> a \<in> S \<Longrightarrow> cmp a a = 0"
  using cmp_order_sym [of cmp S a a] by simp

lemma cmp_order_trans:
  "cmp_order cmp S \<Longrightarrow> a \<in> S \<Longrightarrow> b \<in> S \<Longrightarrow> c \<in> S \<Longrightarrow> cmp a b \<le> 0 \<Longrightarrow> cmp b c \<le> 0 \<Longrightarrow> cmp a c \<le> 0"
  unfolding cmp_order_def by blast

text \<open>Values that compare equal compare alike with every other value.\<close>

lemma cmp_order_eq_left:
  assumes "cmp_order cmp S" "a \<in> S" "b \<in> S" "c \<in> S" "cmp a b = 0"
  shows "cmp a c \<le> 0 \<longleftrightarrow> cmp b c \<le> 0" "cmp c a \<le> 0 \<longleftrightarrow> cmp c b \<le> 0" "cmp a c = 0 \<longleftrightarrow> cmp b c = 0"
proof -
  have ba: "cmp b a = 0" using cmp_order_sym [OF assms(1,2,3)] assms(5) by simp
  note tr = cmp_order_trans [OF assms(1)]
  show l: "cmp a c \<le> 0 \<longleftrightarrow> cmp b c \<le> 0"
    using tr [of a b c] tr [of b a c] assms(2-5) ba by auto
  show r: "cmp c a \<le> 0 \<longleftrightarrow> cmp c b \<le> 0"
    using tr [of c a b] tr [of c b a] assms(2-5) ba by auto
  have "cmp a c = - cmp c a" "cmp b c = - cmp c b"
    using cmp_order_sym [OF assms(1)] assms(2-4) by blast+
  with l r show "cmp a c = 0 \<longleftrightarrow> cmp b c = 0" by linarith
qed

lemma cmp_order_less_le:
  assumes "cmp_order cmp S" "a \<in> S" "b \<in> S" "c \<in> S" "cmp a b < 0" "cmp b c \<le> 0"
  shows "cmp a c < 0"
proof (rule ccontr)
  assume "\<not> cmp a c < 0"
  then have "cmp c a \<le> 0" using cmp_order_sym [OF assms(1,2,4)] by simp
  from cmp_order_trans [OF assms(1,3,4,2) assms(6) this] cmp_order_sym [OF assms(1,2,3)] assms(5) show False by simp
qed

lemma cmp_order_le_less:
  assumes "cmp_order cmp S" "a \<in> S" "b \<in> S" "c \<in> S" "cmp a b \<le> 0" "cmp b c < 0"
  shows "cmp a c < 0"
proof (rule ccontr)
  assume "\<not> cmp a c < 0"
  then have "cmp c a \<le> 0" using cmp_order_sym [OF assms(1,2,4)] by simp
  from cmp_order_trans [OF assms(1,4,2,3) this assms(5)] cmp_order_sym [OF assms(1,3,4)] assms(6) show False by simp
qed

lemma compare_ord_props:
  "compare_ord y x = - compare_ord x y" "compare_ord x y \<le> 0 \<longleftrightarrow> x \<le> y" "compare_ord x y = 0 \<longleftrightarrow> x = y"
  by (auto simp: compare_ord_def)

text \<open>Columns of integers, and columns without numbers, are ordered: such values compare as their ranks.\<close>

lemma cmp_order_rank:
  fixes k :: "'a \<Rightarrow> 'k::linorder"
  assumes "\<And>a b. a \<in> S \<Longrightarrow> b \<in> S \<Longrightarrow> cmp a b = compare_ord (k a) (k b)"
  shows "cmp_order cmp S"
  unfolding cmp_order_def by (auto simp: assms compare_ord_props(1) [symmetric] compare_ord_props(2))

lemma int_value_isNumber: "int_value v = Some i \<Longrightarrow> isNumber v \<and> v \<noteq> VNull"
  by (cases v) auto

lemma NullsafeCompare_ints:
  assumes "\<forall>v \<in> S. v = VNull \<or> int_value v \<noteq> None"
  shows "cmp_order (NullsafeCompare ncmp) S"
proof (rule cmp_order_rank)
  fix a b assume "a \<in> S" "b \<in> S"
  with assms consider "a = VNull" "b = VNull" | j where "a = VNull" "int_value b = Some j"
    | i where "int_value a = Some i" "b = VNull" | i j where "int_value a = Some i" "int_value b = Some j"
    by (metis option.exhaust)
  then show "NullsafeCompare ncmp a b = compare_ord (int_value a) (int_value b)"
    by cases (auto simp: NullsafeCompare_def compareNumeric_def compare_ord_def dest: int_value_isNumber)
qed

lemma NullsafeCompare_texts:
  assumes "\<forall>v \<in> S. \<not> isNumber v"
  shows "cmp_order (NullsafeCompare ncmp) S"
  by (rule cmp_order_rank [where k = "\<lambda>v. if v = VNull then None else Some (raw v)"])
    (use assms in \<open>auto simp: NullsafeCompare_def compare_ord_def\<close>)

end
