(* ===== verification/Radon_Result.thy ===== *)
theory Radon_Result
  imports Radon_Value
begin

section \<open>Results and sorting\<close>

text \<open>
  \<open>sqltypes.Result\<close> with \<open>AppendResult\<close>, \<open>Limit\<close> and \<open>RemoveColumns\<close>, and what the executor uses of
  \<open>sort.Slice\<close>. A slice of length zero and \<open>nil\<close> are one: no list of fields is empty without being
  \<open>nil\<close>. The warnings, extras and the stream state of a result are not used by the executor.
\<close>

datatype FieldType = TSigned | TUnsigned | TFloat | TDecimal | TTemporal | TOther

record Field =
  fName :: string
  fTable :: string
  fType :: FieldType
  fDecimals :: "32 word"
  fColumnLength :: "32 word"

type_synonym row = "Value list"

record Result =
  rsFields :: "Field list"
  rsRowsAffected :: "64 word"
  rsInsertID :: "64 word"
  rsRows :: "row list"

definition empty_Result :: Result where
  "empty_Result = \<lparr>rsFields = [], rsRowsAffected = 0, rsInsertID = 0, rsRows = []\<rparr>"

text \<open>Every row has one value for each field.\<close>

definition Result_ok :: "Result \<Rightarrow> bool" where
  "Result_ok rs \<longleftrightarrow> (\<forall>row \<in> set (rsRows rs). length row = length (rsFields rs))"

definition AppendResult :: "Result \<Rightarrow> Result \<Rightarrow> Result" where
  "AppendResult result src =
     (if rsRowsAffected src = 0 \<and> rsFields src = [] then result
      else result
        \<lparr>rsFields := (if rsFields result = [] then rsFields src else rsFields result),
         rsRowsAffected := rsRowsAffected result + rsRowsAffected src,
         rsInsertID := (if rsInsertID src \<noteq> 0 then rsInsertID src else rsInsertID result),
         rsRows := rsRows result @ rsRows src\<rparr>)"

text \<open>Arithmetic on Go's \<open>int\<close>, which has 64 bits.\<close>

definition int64 :: "int \<Rightarrow> int" where
  "int64 x = (x + 2 ^ 63) mod 2 ^ 64 - 2 ^ 63"

text \<open>\<open>Limit\<close>: the slice expression panics when its bounds are not ordered.\<close>

definition Result_Limit :: "int \<Rightarrow> int \<Rightarrow> Result \<Rightarrow> Result res" where
  "Result_Limit offset limit rs =
     (let count = int (length (rsRows rs));
          start = (if count < offset then count else offset);
          end0 = int64 (offset + limit);
          end = (if count < end0 then count else end0)
      in if start < 0 \<or> end < start then Inl (GoPanic ''slice bounds out of range'')
         else Inr (rs\<lparr>rsRows := drop (nat start) (take (nat end) (rsRows rs))\<rparr>))"

text \<open>The entries of a list whose positions are not listed.\<close>

definition drop_idxs :: "nat list \<Rightarrow> 'a list \<Rightarrow> 'a list" where
  "drop_idxs idxs xs = map snd (filter (\<lambda>(i, _). i \<notin> set idxs) (enumerate 0 xs))"

definition RemoveColumns :: "nat list \<Rightarrow> Result \<Rightarrow> Result" where
  "RemoveColumns idxs rs =
     (if idxs = [] then rs
      else rs\<lparr>rsFields := drop_idxs idxs (rsFields rs), rsRows := map (drop_idxs idxs) (rsRows rs)\<rparr>)"

lemma int64_id: "- (2 ^ 63) \<le> x \<Longrightarrow> x < 2 ^ 63 \<Longrightarrow> int64 x = x"
  by (simp add: int64_def)

lemma length_drop_idxs: "length (drop_idxs idxs xs) = length (filter (\<lambda>i. i \<notin> set idxs) [0..<length xs])"
proof -
  have "map fst (filter (\<lambda>(i, _). i \<notin> set idxs) (enumerate 0 xs)) = filter (\<lambda>i. i \<notin> set idxs) (map fst (enumerate 0 xs))"
    by (simp only: filter_map comp_def case_prod_unfold)
  from arg_cong [OF this, of length] show ?thesis by (simp add: drop_idxs_def)
qed

lemma drop_idxs_length: "length xs = length ys \<Longrightarrow> length (drop_idxs idxs xs) = length (drop_idxs idxs ys)"
  by (simp add: length_drop_idxs)

lemma Result_ok_RemoveColumns: "Result_ok rs \<Longrightarrow> Result_ok (RemoveColumns idxs rs)"
  by (auto simp: Result_ok_def RemoveColumns_def intro: drop_idxs_length)

lemma Result_ok_AppendResult:
  assumes "Result_ok rs" "Result_ok src" "rsFields rs \<noteq> [] \<Longrightarrow> length (rsFields rs) = length (rsFields src)"
    and "rsFields rs = [] \<Longrightarrow> rsRows rs = []"
  shows "Result_ok (AppendResult rs src)"
  using assms by (auto simp: Result_ok_def AppendResult_def)

lemma Result_Limit_nonneg:
  assumes "0 \<le> offset" "0 \<le> limit" "offset + limit < 2 ^ 63"
  shows "Result_Limit offset limit rs = Inr (rs\<lparr>rsRows := take (nat limit) (drop (nat offset) (rsRows rs))\<rparr>)"
proof -
  have "int64 (offset + limit) = offset + limit" using assms by (intro int64_id) auto
  moreover have "take (nat limit) (drop (nat offset) xs) = drop (nat offset) (take (nat (offset + limit)) xs)" for xs :: "row list"
    using assms by (simp add: take_drop nat_add_distrib add.commute)
  ultimately show ?thesis using assms by (auto simp: Result_Limit_def Let_def not_less)
qed

subsection \<open>\<open>sort.Slice\<close>\<close>

text \<open>
  The comparators of the executor answer true on ties, so they are the order and not its strict part.
  What the executor relies on: the sorted slice is a permutation, and it is in order whenever the
  comparator is a total preorder on the rows. Which of two equal rows comes first is open.
\<close>

type_synonym 'a slice_sort = "('a \<Rightarrow> 'a \<Rightarrow> bool) \<Rightarrow> 'a list \<Rightarrow> 'a list"

definition total_preorder :: "('a \<Rightarrow> 'a \<Rightarrow> bool) \<Rightarrow> 'a set \<Rightarrow> bool" where
  "total_preorder le S \<longleftrightarrow>
     (\<forall>a \<in> S. \<forall>b \<in> S. le a b \<or> le b a)
     \<and> (\<forall>a \<in> S. \<forall>b \<in> S. \<forall>c \<in> S. le a b \<longrightarrow> le b c \<longrightarrow> le a c)"

lemma total_preorder_mono: "total_preorder le T \<Longrightarrow> S \<subseteq> T \<Longrightarrow> total_preorder le S"
  unfolding total_preorder_def by (meson subsetD)

lemma total_preorder_total: "total_preorder le S \<Longrightarrow> a \<in> S \<Longrightarrow> b \<in> S \<Longrightarrow> le a b \<or> le b a"
  unfolding total_preorder_def by blast

lemma total_preorder_trans:
  "total_preorder le S \<Longrightarrow> a \<in> S \<Longrightarrow> b \<in> S \<Longrightarrow> c \<in> S \<Longrightarrow> le a b \<Longrightarrow> le b c \<Longrightarrow> le a c"
  unfolding total_preorder_def by blast

definition sorts :: "'a slice_sort \<Rightarrow> bool" where
  "sorts srt \<longleftrightarrow>
     (\<forall>le xs. mset (srt le xs) = mset xs \<and> (total_preorder le (set xs) \<longrightarrow> sorted_wrt le (srt le xs)))"

locale slice_sorting =
  fixes srt :: "'a slice_sort"
  assumes sorts: "sorts srt"
begin

lemma mset_srt [simp]: "mset (srt le xs) = mset xs"
  using sorts by (simp add: sorts_def)

lemma set_srt [simp]: "set (srt le xs) = set xs"
  by (rule mset_eq_setD [OF mset_srt])

lemma length_srt [simp]: "length (srt le xs) = length xs"
  by (rule mset_eq_length [OF mset_srt])

lemma sorted_srt: "total_preorder le (set xs) \<Longrightarrow> sorted_wrt le (srt le xs)"
  using sorts by (simp add: sorts_def)

end

text \<open>An insertion sort is one such sort.\<close>

fun insert_by :: "('a \<Rightarrow> 'a \<Rightarrow> bool) \<Rightarrow> 'a \<Rightarrow> 'a list \<Rightarrow> 'a list" where
  "insert_by le x [] = [x]"
| "insert_by le x (y # ys) = (if le x y then x # y # ys else y # insert_by le x ys)"

fun insertion_sort :: "'a slice_sort" where
  "insertion_sort le [] = []"
| "insertion_sort le (x # xs) = insert_by le x (insertion_sort le xs)"

lemma mset_insert_by: "mset (insert_by le x xs) = add_mset x (mset xs)"
  by (induction xs) auto

lemma set_insert_by: "set (insert_by le x xs) = insert x (set xs)"
  using arg_cong [OF mset_insert_by, of set_mset] by simp

lemma mset_insertion_sort: "mset (insertion_sort le xs) = mset xs"
  by (induction xs) (auto simp: mset_insert_by)

lemma set_insertion_sort: "set (insertion_sort le xs) = set xs"
  using arg_cong [OF mset_insertion_sort, of set_mset] by simp

lemma sorted_insert_by:
  "total_preorder le (insert x (set xs)) \<Longrightarrow> sorted_wrt le xs \<Longrightarrow> sorted_wrt le (insert_by le x xs)"
proof (induction xs)
  case (Cons y ys)
  have "total_preorder le (insert x (set ys))" by (rule total_preorder_mono [OF Cons.prems(1)]) auto
  with Cons have ih: "sorted_wrt le (insert_by le x ys)" by simp
  show ?case
  proof (cases "le x y")
    case True
    moreover have "le x z" if "z \<in> set ys" for z
      using total_preorder_trans [OF Cons.prems(1), of x y z] Cons.prems(2) True that by simp
    ultimately show ?thesis using Cons.prems by simp
  next
    case False
    then have "le y x" using total_preorder_total [OF Cons.prems(1), of x y] by simp
    with False ih Cons.prems(2) show ?thesis by (auto simp: set_insert_by)
  qed
qed simp

lemma sorted_insertion_sort: "total_preorder le (set xs) \<Longrightarrow> sorted_wrt le (insertion_sort le xs)"
proof (induction xs)
  case (Cons x xs)
  have "total_preorder le (set xs)" by (rule total_preorder_mono [OF Cons.prems]) auto
  with Cons show ?case by (simp add: sorted_insert_by set_insertion_sort)
qed simp

lemma sorts_insertion_sort: "sorts insertion_sort"
  by (simp add: sorts_def mset_insertion_sort sorted_insertion_sort)

interpretation isort: slice_sorting insertion_sort
  by unfold_locales (rule sorts_insertion_sort)

subsection \<open>Lexicographic comparison of rows\<close>

text \<open>
  The body of the comparators: the first key on which the rows differ decides, with its direction;
  rows equal on every key compare as true.
\<close>

fun keys_le :: "num_compare \<Rightarrow> (nat \<times> bool) list \<Rightarrow> row \<Rightarrow> row \<Rightarrow> bool" where
  "keys_le ncmp [] a b = True"
| "keys_le ncmp ((idx, desc) # ks) a b =
     (let cmp = NullsafeCompare ncmp (a ! idx) (b ! idx)
      in if cmp = 0 then keys_le ncmp ks a b
         else (if desc then - cmp else cmp) < 0)"

definition keys_order :: "num_compare \<Rightarrow> nat list \<Rightarrow> row set \<Rightarrow> bool" where
  "keys_order ncmp idxs S \<longleftrightarrow> (\<forall>i \<in> set idxs. cmp_order (NullsafeCompare ncmp) ((\<lambda>row. row ! i) ` S))"

lemma keys_order_mono: "keys_order ncmp idxs T \<Longrightarrow> S \<subseteq> T \<Longrightarrow> keys_order ncmp idxs S"
  unfolding keys_order_def by (meson cmp_order_mono image_mono)

lemma keys_le_total:
  assumes "keys_order ncmp (map fst ks) S" "a \<in> S" "b \<in> S"
  shows "keys_le ncmp ks a b \<or> keys_le ncmp ks b a"
  using assms(1)
proof (induction ks)
  case (Cons k ks)
  obtain i d where k: "k = (i, d)" by force
  have "cmp_order (NullsafeCompare ncmp) ((\<lambda>row. row ! i) ` S)"
    using Cons.prems by (simp add: k keys_order_def)
  from cmp_order_sym [OF this, of "a ! i" "b ! i"] assms(2,3)
  have "NullsafeCompare ncmp (b ! i) (a ! i) = - NullsafeCompare ncmp (a ! i) (b ! i)" by simp
  moreover have "keys_le ncmp ks a b \<or> keys_le ncmp ks b a" using Cons by (simp add: keys_order_def)
  ultimately show ?case by (simp add: k Let_def) linarith
qed simp

text \<open>The sign of a comparison over three rows, and the tie that passes to the next key.\<close>

lemma lex_sign:
  fixes x y z :: int
  assumes t: "x \<le> 0 \<Longrightarrow> y \<le> 0 \<Longrightarrow> z \<le> 0" "0 \<le> y \<Longrightarrow> 0 \<le> x \<Longrightarrow> 0 \<le> z" "y \<le> 0 \<Longrightarrow> 0 \<le> z \<Longrightarrow> 0 \<le> x"
    "z \<le> 0 \<Longrightarrow> 0 \<le> y \<Longrightarrow> x \<le> 0" "0 \<le> z \<Longrightarrow> x \<le> 0 \<Longrightarrow> 0 \<le> y" "0 \<le> x \<Longrightarrow> z \<le> 0 \<Longrightarrow> y \<le> 0"
  and ih: "P \<Longrightarrow> Q \<Longrightarrow> R"
  and "(if x = 0 then P else (if d then - x else x) < 0)"
    "(if y = 0 then Q else (if d then - y else y) < 0)"
  shows "(if z = 0 then R else (if d then - z else z) < 0)"
proof (cases d)
  case True
  then have "0 \<le> x" "0 \<le> y" using assms(8,9) by (simp_all split: if_splits)
  moreover from this have "0 \<le> z" by (intro t(2))
  moreover have "x = 0 \<and> y = 0" if "z = 0" using t(4,6) that calculation by force
  ultimately show ?thesis using True assms(8,9) ih by auto
next
  case False
  then have "x \<le> 0" "y \<le> 0" using assms(8,9) by (simp_all split: if_splits)
  moreover from this have "z \<le> 0" by (intro t(1))
  moreover have "x = 0 \<and> y = 0" if "z = 0" using t(3,5) that calculation by force
  ultimately show ?thesis using False assms(8,9) ih by auto
qed

lemma keys_le_trans:
  assumes "keys_order ncmp (map fst ks) S" "a \<in> S" "b \<in> S" "c \<in> S" "keys_le ncmp ks a b" "keys_le ncmp ks b c"
  shows "keys_le ncmp ks a c"
  using assms(1,5,6)
proof (induction ks)
  case (Cons k ks)
  obtain i d where k: "k = (i, d)" by force
  let ?c = "\<lambda>x y. NullsafeCompare ncmp (x ! i) (y ! i)"
  have o: "cmp_order (NullsafeCompare ncmp) ((\<lambda>row. row ! i) ` S)"
    using Cons.prems(1) by (simp add: k keys_order_def)
  have sym: "?c y x = - ?c x y" if "x \<in> S" "y \<in> S" for x y
    using cmp_order_sym [OF o, of "x ! i" "y ! i"] that by simp
  have tr: "?c x z \<le> 0" if "x \<in> S" "y \<in> S" "z \<in> S" "?c x y \<le> 0" "?c y z \<le> 0" for x y z
    using cmp_order_trans [OF o, of "x ! i" "y ! i" "z ! i"] that by simp
  have ih: "keys_le ncmp ks a c" if "keys_le ncmp ks a b" "keys_le ncmp ks b c"
    using Cons that by (simp add: keys_order_def)
  define x y z where "x = ?c a b" and "y = ?c b c" and "z = ?c a c"
  note xyz = x_def y_def z_def
  have rev: "?c b a = - x" "?c c b = - y" "?c c a = - z" unfolding xyz by (rule sym, rule assms, rule assms)+
  have t1: "x \<le> 0 \<Longrightarrow> y \<le> 0 \<Longrightarrow> z \<le> 0" using tr [OF assms(2,3,4), folded xyz] .
  have t2: "0 \<le> y \<Longrightarrow> 0 \<le> x \<Longrightarrow> 0 \<le> z" using tr [OF assms(4,3,2), unfolded rev] by simp
  have t3: "y \<le> 0 \<Longrightarrow> 0 \<le> z \<Longrightarrow> 0 \<le> x" using tr [OF assms(3,4,2), folded xyz, unfolded rev] by simp
  have t4: "z \<le> 0 \<Longrightarrow> 0 \<le> y \<Longrightarrow> x \<le> 0" using tr [OF assms(2,4,3), folded xyz, unfolded rev] by simp
  have t5: "0 \<le> z \<Longrightarrow> x \<le> 0 \<Longrightarrow> 0 \<le> y" using tr [OF assms(4,2,3), folded xyz, unfolded rev] by simp
  have t6: "0 \<le> x \<Longrightarrow> z \<le> 0 \<Longrightarrow> y \<le> 0" using tr [OF assms(3,2,4), folded xyz, unfolded rev] by simp
  have c: "(if x = 0 then keys_le ncmp ks a b else (if d then - x else x) < 0)"
    "(if y = 0 then keys_le ncmp ks b c else (if d then - y else y) < 0)"
    using Cons.prems(2,3) unfolding k keys_le.simps Let_def xyz .
  have "(if z = 0 then keys_le ncmp ks a c else (if d then - z else z) < 0)"
    by (rule lex_sign [of x y z, OF _ _ _ _ _ _ _ c]) (fact t1 t2 t3 t4 t5 t6 ih)+
  then show ?case unfolding k keys_le.simps Let_def xyz .
qed simp

lemma keys_le_preorder:
  assumes "keys_order ncmp (map fst ks) S"
  shows "total_preorder (keys_le ncmp ks) S"
  unfolding total_preorder_def using keys_le_total [OF assms] keys_le_trans [OF assms] by blast

end
