(* ===== verification/Radon_HashTable.thy ===== *)
theory Radon_HashTable
  imports Radon_Prelude
begin

section \<open>The hash table of the executor\<close>

text \<open>
  \<open>src/src/vendor/github.com/xelabs/go-mysqlstack/sqlparser/depends/common/hash_table.go\<close>: chained
  buckets found by a 64-bit FNV-1a hash, used for \<open>UNION DISTINCT\<close> and the \<open>DISTINCT\<close> aggregates. The
  interface the clients rely on, a map from keys to the values put under them, is the locale
  \<open>key_table\<close>; what the clients do with it, keeping the first item of each key, is proved there.
\<close>

unbundle bit_operations_syntax

definition hash64a :: "string \<Rightarrow> 64 word" where
  "hash64a data = foldl (\<lambda>h c. (h XOR of_char c) * 1099511628211) 14695981039346656037 data"

type_synonym 'v chain = "(string \<times> 'v list) list"

fun entry_put :: "string \<Rightarrow> 'v \<Rightarrow> 'v chain \<Rightarrow> 'v chain" where
  "entry_put key v [] = [(key, [v])]"
| "entry_put key v ((k, vs) # e) = (if k = key then (k, vs @ [v]) # e else (k, vs) # entry_put key v e)"

fun entry_get :: "string \<Rightarrow> 'v chain \<Rightarrow> 'v list option" where
  "entry_get key [] = None"
| "entry_get key ((k, vs) # e) = (if k = key then Some vs else entry_get key e)"

record 'v HashTable =
  htEntry :: "'v chain list"
  htMap :: "(64 word \<times> nat) list"
  htSize :: nat

definition NewHashTable :: "'v HashTable" where
  "NewHashTable = \<lparr>htEntry = [], htMap = [], htSize = 0\<rparr>"

definition table_Put :: "string \<Rightarrow> 'v \<Rightarrow> 'v HashTable \<Rightarrow> 'v HashTable" where
  "table_Put key v h =
     (let bucket = hash64a key
      in (case map_of (htMap h) bucket of
            None \<Rightarrow> h\<lparr>htMap := AList.update bucket (length (htEntry h)) (htMap h), htEntry := htEntry h @ [[(key, [v])]],
                      htSize := htSize h + 1\<rparr>
          | Some index \<Rightarrow> h\<lparr>htEntry := (htEntry h)[index := entry_put key v (htEntry h ! index)], htSize := htSize h + 1\<rparr>))"

definition table_Get :: "'v HashTable \<Rightarrow> string \<Rightarrow> 'v list option" where
  "table_Get h key =
     (case map_of (htMap h) (hash64a key) of
        None \<Rightarrow> None
      | Some index \<Rightarrow> entry_get key (htEntry h ! index))"

text \<open>The entries in the order in which the iterator of \<open>Next\<close> returns them.\<close>

definition table_Next :: "'v HashTable \<Rightarrow> (string \<times> 'v list) list" where
  "table_Next h = concat (htEntry h)"

subsection \<open>The interface\<close>

locale key_table =
  fixes empty :: 't
    and put :: "'k \<Rightarrow> 'v \<Rightarrow> 't \<Rightarrow> 't"
    and get :: "'t \<Rightarrow> 'k \<Rightarrow> 'v list option"
    and entries :: "'t \<Rightarrow> ('k \<times> 'v list) list"
    and inv :: "'t \<Rightarrow> bool"
  assumes inv_empty: "inv empty"
    and inv_put: "inv t \<Longrightarrow> inv (put k v t)"
    and get_empty: "get empty k = None"
    and get_put: "inv t \<Longrightarrow> get (put k v t) k' =
      (if k' = k then Some ((case get t k of None \<Rightarrow> [] | Some vs \<Rightarrow> vs) @ [v]) else get t k')"
    and entries_get: "inv t \<Longrightarrow> map_of (entries t) = get t"
    and entries_distinct: "inv t \<Longrightarrow> distinct_keys (entries t)"
begin

text \<open>The loop of the clients: an item is put under its key unless the key is present.\<close>

lemma first_of_key:
  assumes "inv t"
  shows "inv (fold (\<lambda>x t. if get t (key x) = None then put (key x) x t else t) xs t)
    \<and> get (fold (\<lambda>x t. if get t (key x) = None then put (key x) x t else t) xs t) k =
        (case get t k of Some vs \<Rightarrow> Some vs | None \<Rightarrow> map_option (\<lambda>x. [x]) (find (\<lambda>x. key x = k) xs))"
  using assms
proof (induction xs arbitrary: t)
  case (Cons x xs)
  then show ?case
    using Cons.IH [of "put (key x) x t"] Cons.IH [of t]
    by (auto simp: inv_put get_put split: option.splits)
qed (auto split: option.split)

lemma entries_mem: "inv t \<Longrightarrow> (k, vs) \<in> set (entries t) \<longleftrightarrow> get t k = Some vs"
  using entries_get [of t] entries_distinct [of t] map_of_in_set by metis

lemma dom_get: "inv t \<Longrightarrow> dom (get t) = keys (entries t)"
  by (simp add: entries_get [symmetric] dom_map_of_conv_image_fst)

lemma length_entries: "inv t \<Longrightarrow> length (entries t) = card (dom (get t))"
  using entries_distinct [of t] by (simp add: dom_get distinct_keys_def distinct_card flip: set_map)

lemma length_entries_put:
  assumes "inv t" "get t k = None"
  shows "length (entries (put k v t)) = Suc (length (entries t))"
proof -
  have "dom (get (put k v t)) = insert k (dom (get t))"
    using get_put [OF assms(1), of k v] by (auto simp: dom_def split: if_splits)
  moreover have "finite (dom (get t))" using assms(1) by (simp add: dom_get)
  ultimately show ?thesis using assms by (simp add: length_entries inv_put domIff)
qed

end

subsection \<open>The hash table is such a map\<close>

text \<open>
  The buckets of the map are numbered by their place, every key of a chain hashes to the chain's
  bucket, and no chain has a key twice.
\<close>

definition HashTable_inv :: "'v HashTable \<Rightarrow> bool" where
  "HashTable_inv h \<longleftrightarrow>
     distinct_keys (htMap h)
     \<and> (\<forall>i < length (htEntry h). \<exists>b. map_of (htMap h) b = Some i
          \<and> (\<forall>(k, _) \<in> set (htEntry h ! i). hash64a k = b) \<and> distinct_keys (htEntry h ! i))
     \<and> (\<forall>b i. map_of (htMap h) b = Some i \<longrightarrow> i < length (htEntry h))
     \<and> (\<forall>b b' i. map_of (htMap h) b = Some i \<longrightarrow> map_of (htMap h) b' = Some i \<longrightarrow> b = b')"

lemma entry_get_map_of: "entry_get key e = map_of e key"
  by (induction key e rule: entry_get.induct) auto

lemma entry_put_get:
  "map_of (entry_put key v e) k =
     (if k = key then Some ((case map_of e key of None \<Rightarrow> [] | Some vs \<Rightarrow> vs) @ [v]) else map_of e k)"
  by (induction key v e rule: entry_put.induct) auto

lemma keys_entry_put: "keys (entry_put key v e) = insert key (keys e)"
  by (induction key v e rule: entry_put.induct) auto

lemma distinct_entry_put: "distinct_keys e \<Longrightarrow> distinct_keys (entry_put key v e)"
  using keys_entry_put [of _ v]
  by (induction key v e rule: entry_put.induct) (auto simp: distinct_keys_def)

lemma HashTable_inv_New: "HashTable_inv NewHashTable"
  by (simp add: HashTable_inv_def NewHashTable_def)

lemma HashTable_inv_chain:
  assumes "HashTable_inv h" "i < length (htEntry h)"
  shows "distinct_keys (htEntry h ! i)"
    and "k \<in> keys (htEntry h ! i) \<Longrightarrow> map_of (htMap h) (hash64a k) = Some i"
  using assms unfolding HashTable_inv_def by force+

lemma HashTable_inv_index: "HashTable_inv h \<Longrightarrow> map_of (htMap h) b = Some i \<Longrightarrow> i < length (htEntry h)"
  unfolding HashTable_inv_def by blast

lemma HashTable_inv_bucket:
  "HashTable_inv h \<Longrightarrow> map_of (htMap h) b = Some i \<Longrightarrow> map_of (htMap h) b' = Some i \<Longrightarrow> b = b'"
  unfolding HashTable_inv_def by blast

lemma HashTable_inv_Put:
  assumes "HashTable_inv h"
  shows "HashTable_inv (table_Put key v h)"
proof (cases "map_of (htMap h) (hash64a key)")
  case None
  have "\<exists>b. map_of (AList.update (hash64a key) (length (htEntry h)) (htMap h)) b = Some i
      \<and> (\<forall>(k, _) \<in> set (htEntry h ! i). hash64a k = b) \<and> distinct_keys (htEntry h ! i)"
    if "i < length (htEntry h)" for i
  proof -
    from assms that obtain b where b: "map_of (htMap h) b = Some i"
      "\<forall>(k, _) \<in> set (htEntry h ! i). hash64a k = b" "distinct_keys (htEntry h ! i)"
      unfolding HashTable_inv_def by blast
    with None have "b \<noteq> hash64a key" by auto
    with b show ?thesis by (intro exI [of _ b]) (simp add: update_conv')
  qed
  note chains = this
  have new: "\<exists>b. map_of (AList.update (hash64a key) (length (htEntry h)) (htMap h)) b = Some i
      \<and> (\<forall>(k, _) \<in> set ((htEntry h @ [[(key, [v])]]) ! i). hash64a k = b) \<and> distinct_keys ((htEntry h @ [[(key, [v])]]) ! i)"
    if "i < Suc (length (htEntry h))" for i
  proof (cases "i = length (htEntry h)")
    case True
    then show ?thesis by (intro exI [of _ "hash64a key"]) (simp add: update_conv' distinct_keys_def)
  next
    case False
    with chains [of i] that show ?thesis by (simp add: nth_append)
  qed
  have fresh: "map_of (htMap h) b \<noteq> Some (length (htEntry h))" for b
    using HashTable_inv_index [OF assms] by blast
  have put: "table_Put key v h = h\<lparr>htMap := AList.update (hash64a key) (length (htEntry h)) (htMap h),
      htEntry := htEntry h @ [[(key, [v])]], htSize := htSize h + 1\<rparr>"
    using None by (simp add: table_Put_def Let_def)
  show ?thesis unfolding HashTable_inv_def
  proof (intro conjI allI impI)
    show "distinct_keys (htMap (table_Put key v h))" using assms by (simp add: put HashTable_inv_def)
  qed (use new HashTable_inv_index [OF assms] HashTable_inv_bucket [OF assms] fresh in
      \<open>auto simp: put update_conv' less_Suc_eq split: if_splits\<close>)
next
  case (Some i)
  note i = HashTable_inv_index [OF assms Some]
  have "\<exists>b. map_of (htMap h) b = Some j
      \<and> (\<forall>(k, _) \<in> set ((htEntry h)[i := entry_put key v (htEntry h ! i)] ! j). hash64a k = b)
      \<and> distinct_keys ((htEntry h)[i := entry_put key v (htEntry h ! i)] ! j)"
    if "j < length (htEntry h)" for j
  proof (cases "j = i")
    case True
    have "hash64a k = hash64a key" if "(k, vs) \<in> set (entry_put key v (htEntry h ! i))" for k vs
    proof -
      have "k \<in> keys (entry_put key v (htEntry h ! i))" using that by force
      then consider "k = key" | "k \<in> keys (htEntry h ! i)" by (auto simp: keys_entry_put)
      then show ?thesis
      proof cases
        case 2
        from assms i obtain b where "map_of (htMap h) b = Some i" "\<forall>(k, _) \<in> set (htEntry h ! i). hash64a k = b"
          unfolding HashTable_inv_def by blast
        with 2 have "map_of (htMap h) (hash64a k) = Some i" by force
        with Some HashTable_inv_bucket [OF assms] show ?thesis by blast
      qed simp
    qed
    with True i Some HashTable_inv_chain(1) [OF assms i] show ?thesis
      by (intro exI [of _ "hash64a key"]) (auto intro: distinct_entry_put)
  next
    case False
    with assms that show ?thesis unfolding HashTable_inv_def by simp
  qed
  with assms Some show ?thesis by (simp add: table_Put_def HashTable_inv_def)
qed

lemma table_Get_Put:
  assumes "HashTable_inv h"
  shows "table_Get (table_Put key v h) k =
    (if k = key then Some ((case table_Get h key of None \<Rightarrow> [] | Some vs \<Rightarrow> vs) @ [v]) else table_Get h k)"
proof (cases "map_of (htMap h) (hash64a key)")
  case None
  then show ?thesis
    using HashTable_inv_index [OF assms]
    by (auto simp: table_Put_def table_Get_def update_conv' nth_append entry_get_map_of split: option.split)
next
  case (Some i)
  then show ?thesis
    using HashTable_inv_index [OF assms] HashTable_inv_bucket [OF assms]
    by (auto simp: table_Put_def table_Get_def entry_get_map_of entry_put_get nth_list_update split: option.split)
qed

lemma map_of_concat:
  assumes "\<And>j. j < length es \<Longrightarrow> j \<noteq> i \<Longrightarrow> k \<notin> keys (es ! j)"
  shows "map_of (concat es) k = (if i < length es then map_of (es ! i) k else None)"
  using assms
proof (induction es arbitrary: i)
  case (Cons e es)
  show ?case
  proof (cases i)
    case 0
    have "k \<notin> keys (es ! j)" if "j < length es" for j using Cons.prems [of "Suc j"] that 0 by simp
    then have "k \<notin> keys (concat es)" by (auto simp: in_set_conv_nth) (metis fst_conv imageI nth_mem)
    then have "map_of (concat es) k = None" by (simp only: map_of_None_keys not_False_eq_True)
    with 0 show ?thesis by (simp add: map_add_def split: option.split)
  next
    case (Suc m)
    have "map_of e k = None" using Cons.prems [of 0] Suc by (simp add: map_of_None_keys)
    moreover have "k \<notin> keys (es ! j)" if "j < length es" "j \<noteq> m" for j using Cons.prems [of "Suc j"] that Suc by simp
    ultimately show ?thesis using Cons.IH [of m] Suc by (simp add: map_add_def split: option.split)
  qed
qed simp

lemma distinct_keys_concat:
  assumes "\<And>i. i < length es \<Longrightarrow> distinct_keys (es ! i)"
    and "\<And>i j. i < length es \<Longrightarrow> j < length es \<Longrightarrow> i \<noteq> j \<Longrightarrow> keys (es ! i) \<inter> keys (es ! j) = {}"
  shows "distinct_keys (concat es)"
  using assms
proof (induction es)
  case (Cons e es)
  have "distinct_keys (concat es)"
    using Cons.prems(1) [of "Suc _"] Cons.prems(2) [of "Suc _" "Suc _"] by (intro Cons.IH) auto
  moreover have "keys e \<inter> keys (concat es) = {}"
  proof -
    have "keys e \<inter> keys (es ! j) = {}" if "j < length es" for j using Cons.prems(2) [of 0 "Suc j"] that by simp
    then show ?thesis by (auto simp: in_set_conv_nth) (metis disjoint_iff fst_conv image_eqI nth_mem)
  qed
  ultimately show ?case using Cons.prems(1) [of 0] by (auto simp: distinct_keys_def map_concat)
qed simp

lemma table_Next_Get: "HashTable_inv h \<Longrightarrow> map_of (table_Next h) = table_Get h"
proof
  fix k assume h: "HashTable_inv h"
  show "map_of (table_Next h) k = table_Get h k"
  proof (cases "map_of (htMap h) (hash64a k)")
    case None
    have "k \<notin> keys (htEntry h ! j)" if "j < length (htEntry h)" for j
      using HashTable_inv_chain(2) [OF h that, of k] None by auto
    then show ?thesis using map_of_concat [of "htEntry h" "length (htEntry h)" k] None
      by (simp add: table_Next_def table_Get_def)
  next
    case (Some i)
    have "k \<notin> keys (htEntry h ! j)" if "j < length (htEntry h)" "j \<noteq> i" for j
      using HashTable_inv_chain(2) [OF h that(1), of k] Some that(2) by auto
    then show ?thesis using map_of_concat [of "htEntry h" i k] Some HashTable_inv_index [OF h Some]
      by (simp add: table_Next_def table_Get_def entry_get_map_of)
  qed
qed

lemma table_Next_distinct: "HashTable_inv h \<Longrightarrow> distinct_keys (table_Next h)"
  unfolding table_Next_def
proof (rule distinct_keys_concat)
  fix i j assume h: "HashTable_inv h" and ij: "i < length (htEntry h)" "j < length (htEntry h)" "i \<noteq> j"
  show "keys (htEntry h ! i) \<inter> keys (htEntry h ! j) = {}"
    using HashTable_inv_chain(2) [OF h ij(1)] HashTable_inv_chain(2) [OF h ij(2)] ij(3) by fastforce
qed (rule HashTable_inv_chain(1))

interpretation hash_table: key_table NewHashTable table_Put table_Get table_Next HashTable_inv
  by unfold_locales
    (simp_all add: HashTable_inv_New HashTable_inv_Put table_Get_Put table_Next_Get table_Next_distinct,
      simp add: table_Get_def NewHashTable_def)

end
