(* ===== verification/Radon_Aggregate.thy ===== *)
theory Radon_Aggregate
  imports Radon_Result Radon_HashTable
begin

section \<open>Aggregation of rows\<close>

text \<open>
  \<open>src/src/executor/engine/operator/aggregate_operator.go\<close> with the aggregations it runs
  (\<open>sqltypes/aggregation.go\<close>). The arithmetic on floating-point and decimal numbers, the cast of a
  sum and the truth of a text are parameters (\<open>arith\<close>); the sum of two signed integers, which a
  pushed-down \<open>COUNT\<close> needs, is written out.
\<close>

datatype AggrType = AggrTypeNull | AggrTypeCount | AggrTypeSum | AggrTypeMin | AggrTypeMax | AggrTypeAvg | AggrTypeGroupBy

record Aggregator =
  agField :: string
  agIndex :: nat
  agType :: AggrType
  agDistinct :: bool

record AggregatePlan =
  apNormalAggrs :: "Aggregator list"
  apGroupAggrs :: "Aggregator list"
  apIsPushDown :: bool

definition AggregatePlan_Empty :: "AggregatePlan \<Rightarrow> bool" where
  "AggregatePlan_Empty p \<longleftrightarrow> apNormalAggrs p = [] \<and> apGroupAggrs p = []"

record arith =
  arCompare :: num_compare
  arSum :: "Value \<Rightarrow> Value \<Rightarrow> FieldType \<Rightarrow> int \<Rightarrow> Value res"
  arAdd :: "Value \<Rightarrow> Value \<Rightarrow> FieldType \<Rightarrow> int \<Rightarrow> Value res"
  arDiv :: "Value \<Rightarrow> Value \<Rightarrow> FieldType \<Rightarrow> int \<Rightarrow> Value res"
  arCast :: "Value \<Rightarrow> FieldType \<Rightarrow> Value res"
  arBool :: "Value \<Rightarrow> bool"

record Aggregation =
  anDistinct :: bool
  anIndex :: nat
  anType :: AggrType
  anFieldType :: FieldType
  anIsPushDown :: bool
  anPrec :: int

record AggEvaluateContext =
  ecCount :: int
  ecVal :: Value
  ecHasErr :: bool
  ecBuffer :: "unit HashTable"

subsection \<open>Null-safe arithmetic\<close>

definition NullsafeAdd :: "arith \<Rightarrow> Value \<Rightarrow> Value \<Rightarrow> FieldType \<Rightarrow> int \<Rightarrow> Value res" where
  "NullsafeAdd ar v1 v2 ty prec =
     (if v1 = VNull then Inr v2
      else if v2 = VNull then Inr v1
      else case (v1, v2, ty) of
        (VSigned a, VSigned b, TSigned) \<Rightarrow>
          if (0 < a \<and> 2 ^ 63 - 1 - a < b) \<or> (a < 0 \<and> b < - (2 ^ 63) - a)
          then Inl (GoError ''BIGINT.value.is.out.of.range.in: %v + %v'') else Inr (VSigned (a + b))
      | _ \<Rightarrow> arAdd ar v1 v2 ty prec)"

definition NullsafeSum :: "arith \<Rightarrow> Value \<Rightarrow> Value \<Rightarrow> FieldType \<Rightarrow> int \<Rightarrow> Value res" where
  "NullsafeSum ar acc v ty prec =
     (if acc = VNull then Inr v else if v = VNull then Inr acc else arSum ar acc v ty prec)"

definition NullsafeDiv :: "arith \<Rightarrow> Value \<Rightarrow> Value \<Rightarrow> FieldType \<Rightarrow> int \<Rightarrow> Value res" where
  "NullsafeDiv ar v1 v2 ty prec =
     (if v1 = VNull \<or> v2 = VNull then Inr VNull else arDiv ar v1 v2 ty prec)"

definition value_Cast :: "arith \<Rightarrow> Value \<Rightarrow> FieldType \<Rightarrow> Value res" where
  "value_Cast ar v ty = (if v = VNull then Inr VNull else arCast ar v ty)"

definition CastToBool :: "arith \<Rightarrow> Value \<Rightarrow> bool" where
  "CastToBool ar v =
     (if v = VNull then False
      else case int_value v of Some i \<Rightarrow> i \<noteq> 0 | None \<Rightarrow> arBool ar v)"

text \<open>The value \<open>0\<close> of a type, which stands for a failed evaluation.\<close>

fun zero_of :: "FieldType \<Rightarrow> Value" where
  "zero_of TSigned = VSigned 0"
| "zero_of TUnsigned = VUnsigned 0"
| "zero_of TFloat = VNumber ''0''"
| "zero_of TDecimal = VNumber ''0''"
| "zero_of TTemporal = VTemporal ''0''"
| "zero_of TOther = VText ''0''"

subsection \<open>One aggregation\<close>

definition NewAggregation :: "nat \<Rightarrow> AggrType \<Rightarrow> bool \<Rightarrow> bool \<Rightarrow> Aggregation" where
  "NewAggregation index aggrTyp isDistinct isPushDown =
     \<lparr>anDistinct = isDistinct, anIndex = index, anType = aggrTyp, anFieldType = TOther, anIsPushDown = isPushDown,
      anPrec = - 1\<rparr>"

definition InitEvalCtx :: "Aggregation \<Rightarrow> row option \<Rightarrow> AggEvaluateContext" where
  "InitEvalCtx aggr x =
     (let v = (case x of None \<Rightarrow> VNull | Some r \<Rightarrow> r ! anIndex aggr);
          live = \<not> anIsPushDown aggr \<and> v \<noteq> VNull
      in \<lparr>ecCount = (if live then 1 else 0), ecVal = v, ecHasErr = False,
          ecBuffer = (if live \<and> anDistinct aggr then table_Put (raw v) () NewHashTable else NewHashTable)\<rparr>)"

text \<open>\<open>FixField\<close>: the type, length and decimals of the aggregated column.\<close>

definition is_integral :: "FieldType \<Rightarrow> bool" where
  "is_integral ty \<longleftrightarrow> ty = TSigned \<or> ty = TUnsigned"

definition fix_avg :: "Field \<Rightarrow> Field" where
  "fix_avg f =
     (let f1 = f\<lparr>fColumnLength := fColumnLength f + 4\<rparr>; decimals = fDecimals f + 4 in
      if is_integral (fType f) \<or> fType f = TDecimal then
        f1\<lparr>fColumnLength := fColumnLength f1 + (if fType f = TUnsigned then 1 else 0) + (if fDecimals f = 0 then 1 else 0),
           fType := TDecimal, fDecimals := (if 30 < decimals then 30 else decimals)\<rparr>
      else if fType f = TFloat then f1\<lparr>fDecimals := (if 31 < decimals then 31 else decimals)\<rparr>
      else if fType f = TTemporal then f1\<lparr>fType := TDecimal, fDecimals := decimals\<rparr>
      else f1\<lparr>fType := TFloat, fDecimals := 31\<rparr>)"

abbreviation DecimalLongLongDigits :: "32 word" where "DecimalLongLongDigits \<equiv> 22"
abbreviation DoubleDigits :: "32 word" where "DoubleDigits \<equiv> 15"

definition fix_sum :: "Field \<Rightarrow> Field" where
  "fix_sum f =
     (if is_integral (fType f) \<or> fType f = TDecimal then
        f\<lparr>fColumnLength := fColumnLength f + DecimalLongLongDigits + (if fType f = TUnsigned then 1 else 0), fType := TDecimal\<rparr>
      else if fType f = TFloat then
        f\<lparr>fColumnLength := (if fDecimals f < 31 then fColumnLength f + DoubleDigits + 2 else 23)\<rparr>
      else if fType f = TTemporal then f\<lparr>fType := TDecimal\<rparr>
      else f\<lparr>fDecimals := 31, fColumnLength := 23, fType := TFloat\<rparr>)"

definition FixField :: "Aggregation \<Rightarrow> Field \<Rightarrow> Aggregation \<times> Field" where
  "FixField aggr field =
     (let field1 =
        (if \<not> anIsPushDown aggr \<or> anType aggr = AggrTypeAvg then
           (case anType aggr of
              AggrTypeCount \<Rightarrow> field\<lparr>fDecimals := 0, fColumnLength := 21, fType := TSigned\<rparr>
            | AggrTypeAvg \<Rightarrow> fix_avg field
            | AggrTypeSum \<Rightarrow> fix_sum field
            | _ \<Rightarrow> field)
         else field)
      in (aggr\<lparr>anPrec := (if fType field1 = TDecimal \<or> fType field1 = TFloat \<and> fDecimals field1 < 31
                         then uint (fDecimals field1) else anPrec aggr),
               anFieldType := fType field1\<rparr>, field1))"

text \<open>The new value of the context, by the kind of aggregation.\<close>

definition aggr_step :: "arith \<Rightarrow> Aggregation \<Rightarrow> Value \<Rightarrow> AggEvaluateContext \<Rightarrow> AggEvaluateContext" where
  "aggr_step ar aggr v ctx =
     (let added = NullsafeSum ar (ecVal ctx) v (anFieldType aggr) (anPrec aggr);
          with_val = (\<lambda>c r. case r of Inl _ \<Rightarrow> c\<lparr>ecVal := VNull, ecHasErr := True\<rparr> | Inr w \<Rightarrow> c\<lparr>ecVal := w\<rparr>)
      in case anType aggr of
           AggrTypeMin \<Rightarrow> ctx\<lparr>ecVal := value_Min (arCompare ar) (ecVal ctx) v\<rparr>
         | AggrTypeMax \<Rightarrow> ctx\<lparr>ecVal := value_Max (arCompare ar) (ecVal ctx) v\<rparr>
         | AggrTypeSum \<Rightarrow> with_val (ctx\<lparr>ecCount := ecCount ctx + 1\<rparr>) added
         | AggrTypeCount \<Rightarrow>
             if anIsPushDown aggr then with_val ctx (NullsafeAdd ar (ecVal ctx) v (anFieldType aggr) (anPrec aggr))
             else ctx\<lparr>ecCount := ecCount ctx + 1\<rparr>
         | AggrTypeAvg \<Rightarrow> if anIsPushDown aggr then ctx else with_val (ctx\<lparr>ecCount := ecCount ctx + 1\<rparr>) added
         | _ \<Rightarrow> ctx)"

definition Aggregation_Update :: "arith \<Rightarrow> Aggregation \<Rightarrow> row \<Rightarrow> AggEvaluateContext \<Rightarrow> AggEvaluateContext" where
  "Aggregation_Update ar aggr x ctx =
     (let v = x ! anIndex aggr in
      if ecHasErr ctx then ctx
      else if v = VNull then ctx
      else if \<not> anIsPushDown aggr \<and> anDistinct aggr then
        (if table_Get (ecBuffer ctx) (raw v) = None
         then aggr_step ar aggr v (ctx\<lparr>ecBuffer := table_Put (raw v) () (ecBuffer ctx)\<rparr>)
         else ctx)
      else aggr_step ar aggr v ctx)"

definition GetResult :: "arith \<Rightarrow> Aggregation \<Rightarrow> AggEvaluateContext \<Rightarrow> Value" where
  "GetResult ar aggr ctx =
     (if ecHasErr ctx then zero_of (anFieldType aggr)
      else case (case anType aggr of
          AggrTypeAvg \<Rightarrow> if anIsPushDown aggr then Inr VNull
            else NullsafeDiv ar (ecVal ctx) (VSigned (ecCount ctx)) (anFieldType aggr) (anPrec aggr)
        | AggrTypeMax \<Rightarrow> Inr (ecVal ctx)
        | AggrTypeMin \<Rightarrow> Inr (ecVal ctx)
        | AggrTypeSum \<Rightarrow> value_Cast ar (ecVal ctx) (anFieldType aggr)
        | AggrTypeCount \<Rightarrow> Inr (if anIsPushDown aggr then ecVal ctx else VSigned (ecCount ctx))
        | _ \<Rightarrow> Inr VNull) of
        Inl _ \<Rightarrow> zero_of (anFieldType aggr)
      | Inr v \<Rightarrow> v)"

definition NewAggEvalCtxs :: "Aggregation list \<Rightarrow> row option \<Rightarrow> AggEvaluateContext list" where
  "NewAggEvalCtxs aggrs x = map (\<lambda>aggr. InitEvalCtx aggr x) aggrs"

text \<open>\<open>GetResults\<close>: a pushed-down average takes the sum and the count from the two aggregations after it.\<close>

fun GetResults :: "arith \<Rightarrow> (Aggregation \<times> AggEvaluateContext) list \<Rightarrow> row \<Rightarrow> (row \<times> nat list) res" where
  "GetResults ar [] x = Inr (x, [])"
| "GetResults ar ((aggr, ctx) # rest) x =
     (if anIsPushDown aggr \<and> anType aggr = AggrTypeAvg then
        (case rest of
           (_, c1) # (_, c2) # rest' \<Rightarrow>
             rbind (GetResults ar rest' (x[anIndex aggr :=
               (case NullsafeDiv ar (ecVal c1) (ecVal c2) (anFieldType aggr) (anPrec aggr) of
                  Inl _ \<Rightarrow> zero_of (anFieldType aggr) | Inr v \<Rightarrow> v)]))
               (\<lambda>(row, deIdxs). Inr (row, (anIndex aggr + 1) # deIdxs))
         | _ \<Rightarrow> Inl (GoPanic ''index out of range''))
      else GetResults ar rest (x[anIndex aggr := GetResult ar aggr ctx]))"

subsection \<open>The operator\<close>

definition keysEqual :: "num_compare \<Rightarrow> nat list \<Rightarrow> row \<Rightarrow> row \<Rightarrow> bool" where
  "keysEqual ncmp idxs row1 row2 = list_all (\<lambda>i. NullsafeCompare ncmp (row1 ! i) (row2 ! i) = 0) idxs"

type_synonym group = "row \<times> AggEvaluateContext list"

definition add_row :: "arith \<Rightarrow> Aggregation list \<Rightarrow> nat list \<Rightarrow> row \<Rightarrow> group list \<Rightarrow> group list" where
  "add_row ar aggrs idxs row groups =
     (if groups = [] then [(row, NewAggEvalCtxs aggrs (Some row))]
      else case last groups of (g, ctxs) \<Rightarrow>
        if keysEqual (arCompare ar) idxs g row
        then butlast groups @ [(g, map2 (\<lambda>aggr ctx. Aggregation_Update ar aggr row ctx) aggrs ctxs)]
        else groups @ [(row, NewAggEvalCtxs aggrs (Some row))])"

text \<open>The aggregations in order, each fixing the field it aggregates.\<close>

fun new_aggrs :: "bool \<Rightarrow> Aggregator list \<Rightarrow> Field list \<Rightarrow> Aggregation list \<times> Field list" where
  "new_aggrs pd [] fs = ([], fs)"
| "new_aggrs pd (a # as) fs =
     (let (aggr, f) = FixField (NewAggregation (agIndex a) (agType a) (agDistinct a) pd) (fs ! agIndex a);
          (aggrs, fs') = new_aggrs pd as (fs[agIndex a := f])
      in (aggr # aggrs, fs'))"

fun group_results :: "arith \<Rightarrow> Aggregation list \<Rightarrow> group list \<Rightarrow> (row list \<times> nat list) res" where
  "group_results ar aggrs [] = Inr ([], [])"
| "group_results ar aggrs ((g, ctxs) # gs) =
     rbind (GetResults ar (zip aggrs ctxs) g) (\<lambda>(row, deIdxs).
     rbind (group_results ar aggrs gs) (\<lambda>(rows, _). Inr (row # rows, deIdxs)))"

text \<open>
  \<open>aggregate\<close>. A plan numbers columns of the result; an index beyond them is an index out of range,
  reported before any row is read.
\<close>

definition Aggregate_Execute :: "row slice_sort \<Rightarrow> arith \<Rightarrow> AggregatePlan \<Rightarrow> Result \<Rightarrow> Result res" where
  "Aggregate_Execute srt ar plan rs =
     (if AggregatePlan_Empty plan then Inr rs
      else if list_ex (\<lambda>a. length (rsFields rs) \<le> agIndex a) (apNormalAggrs plan @ apGroupAggrs plan)
      then Inl (GoPanic ''index out of range'')
      else
        let idxs = map agIndex (apGroupAggrs plan);
            rows = (if idxs = [] then rsRows rs
                    else srt (keys_le (arCompare ar) (map (\<lambda>i. (i, False)) idxs)) (rsRows rs));
            (aggrs, fs) = new_aggrs (apIsPushDown plan) (apNormalAggrs plan) (rsFields rs);
            groups = fold (add_row ar aggrs idxs) rows []
        in rbind (if groups = [] \<and> aggrs \<noteq> []
                  then group_results ar aggrs [(replicate (length fs) VNull, NewAggEvalCtxs aggrs None)]
                  else group_results ar aggrs groups)
             (\<lambda>(rows', deIdxs). Inr (RemoveColumns deIdxs (rs\<lparr>rsFields := fs, rsRows := rows'\<rparr>))))"

subsection \<open>Runs of equal keys\<close>

function runs :: "('a \<Rightarrow> 'a \<Rightarrow> bool) \<Rightarrow> 'a list \<Rightarrow> 'a list list" where
  "runs eq [] = []"
| "runs eq (x # xs) = (x # takeWhile (eq x) xs) # runs eq (dropWhile (eq x) xs)"
  by pat_completeness auto
termination
  by (relation "measure (length \<circ> snd)") (auto intro: le_imp_less_Suc length_dropWhile_le)

lemma concat_runs: "concat (runs eq xs) = xs"
  by (induction eq xs rule: runs.induct) auto

lemma runs_nonempty: "g \<in> set (runs eq xs) \<Longrightarrow> g \<noteq> []"
  by (induction eq xs rule: runs.induct) auto

text \<open>In a sorted list the rows of one run are equal to each other, and to no row of another run.\<close>

lemma runs_sorted:
  assumes "total_preorder le S" "\<And>a b. a \<in> S \<Longrightarrow> b \<in> S \<Longrightarrow> eq a b \<longleftrightarrow> le a b \<and> le b a"
    and "set xs \<subseteq> S" "sorted_wrt le xs"
  shows "(\<forall>g \<in> set (runs eq xs). \<forall>a \<in> set g. \<forall>b \<in> set g. eq a b)
    \<and> sorted_wrt (\<lambda>g h. \<forall>a \<in> set g. \<forall>b \<in> set h. \<not> eq a b) (runs eq xs)"
  using assms(3,4)
proof (induction xs rule: length_induct)
  case (1 xs)
  show ?case
  proof (cases xs)
    case (Cons x ys)
    define g rest where "g = x # takeWhile (eq x) ys" and "rest = dropWhile (eq x) ys"
    note tr = total_preorder_trans [OF assms(1)]
    have ys: "takeWhile (eq x) ys @ rest = ys" by (simp add: rest_def)
    have sub: "x \<in> S" "set ys \<subseteq> S" "set rest \<subseteq> S" "set g \<subseteq> S"
      using 1(2) Cons set_dropWhileD [of _ "eq x" ys] set_takeWhileD [of _ "eq x" ys]
      by (auto simp: g_def rest_def)
    have srt: "sorted_wrt le rest" using 1(3) Cons ys by (metis sorted_wrt.simps(2) sorted_wrt_append)
    have xx: "eq x x" using assms(2) [of x x] total_preorder_total [OF assms(1), of x x] sub(1) by blast
    have gx: "eq x a" if "a \<in> set g" for a using that xx by (auto simp: g_def dest: set_takeWhileD)
    have out: "\<not> eq x b" if b: "b \<in> set rest" for b
    proof
      assume xb: "eq x b"
      obtain y zs where rest: "rest = y # zs" using b by (cases rest) auto
      then have "\<not> eq x y" using hd_dropWhile [of "eq x" ys] by (simp add: rest_def)
      have "le x y" using 1(3) Cons rest ys by (metis in_set_conv_decomp sorted_wrt.simps(2))
      have "le y b" using srt rest b total_preorder_total [OF assms(1), of y y] sub(3) by auto
      moreover have "le b x" using xb assms(2) [of x b] sub b by blast
      ultimately have "le y x" using tr [of y b x] rest b sub by auto
      with \<open>le x y\<close> \<open>\<not> eq x y\<close> assms(2) [of x y] rest sub show False by simp
    qed
    have lx: "a \<in> S \<and> le x a \<and> le a x" if "a \<in> set g" for a
      using gx [OF that] assms(2) [of x a] sub(1,4) that by auto
    have ab: "eq a b" if "a \<in> set g" "b \<in> set g" for a b
      using tr [of a x b] tr [of b x a] lx [OF that(1)] lx [OF that(2)] assms(2) [of a b] sub(1) by simp
    have sep: "\<not> eq a b" if "a \<in> set g" "b \<in> set rest" for a b
    proof
      assume "eq a b"
      then have "eq x b"
        using tr [of x a b] tr [of b a x] lx [OF that(1)] assms(2) [of a b] assms(2) [of x b] sub(1,3) that(2) by auto
      with out [OF that(2)] show False by simp
    qed
    have "length rest < length xs" using Cons length_dropWhile_le [of "eq x" ys] by (simp add: rest_def)
    with 1(1) sub(3) srt have ih: "(\<forall>g \<in> set (runs eq rest). \<forall>a \<in> set g. \<forall>b \<in> set g. eq a b)
      \<and> sorted_wrt (\<lambda>g h. \<forall>a \<in> set g. \<forall>b \<in> set h. \<not> eq a b) (runs eq rest)" by blast
    have mem: "b \<in> set rest" if "h \<in> set (runs eq rest)" "b \<in> set h" for h b
      using that concat_runs [of eq rest] by (metis UN_iff set_concat)
    have "runs eq xs = g # runs eq rest" by (simp add: Cons g_def rest_def)
    with ih ab sep mem show ?thesis by auto
  qed simp
qed

lemma keysEqual_le:
  assumes "keys_order ncmp idxs S" "a \<in> S" "b \<in> S"
  shows "keysEqual ncmp idxs a b \<longleftrightarrow>
    keys_le ncmp (map (\<lambda>i. (i, False)) idxs) a b \<and> keys_le ncmp (map (\<lambda>i. (i, False)) idxs) b a"
  using assms(1)
proof (induction idxs)
  case (Cons i idxs)
  have "cmp_order (NullsafeCompare ncmp) ((\<lambda>row. row ! i) ` S)" using Cons.prems by (simp add: keys_order_def)
  from cmp_order_sym [OF this, of "a ! i" "b ! i"] assms(2,3)
  have "NullsafeCompare ncmp (b ! i) (a ! i) = - NullsafeCompare ncmp (a ! i) (b ! i)" by simp
  with Cons show ?case by (auto simp: keysEqual_def keys_order_def Let_def)
qed (simp add: keysEqual_def)

subsection \<open>The loop over the rows builds the runs\<close>

definition eval_run :: "arith \<Rightarrow> Aggregation list \<Rightarrow> row list \<Rightarrow> AggEvaluateContext list" where
  "eval_run ar aggrs g = map (\<lambda>aggr. fold (Aggregation_Update ar aggr) (tl g) (InitEvalCtx aggr (Some (hd g)))) aggrs"

lemma add_row_Nil: "add_row ar aggrs idxs row [] = [(row, NewAggEvalCtxs aggrs (Some row))]"
  by (simp add: add_row_def)

lemma add_row_snoc:
  "add_row ar aggrs idxs row (gs @ [(g, ctxs)]) =
     (if keysEqual (arCompare ar) idxs g row
      then gs @ [(g, map2 (\<lambda>aggr. Aggregation_Update ar aggr row) aggrs ctxs)]
      else (gs @ [(g, ctxs)]) @ [(row, NewAggEvalCtxs aggrs (Some row))])"
  by (simp add: add_row_def)

lemmas add_row_one = add_row_snoc [where gs = "[]", simplified append_Nil]

lemma fold_add_row_prefix:
  "fold (add_row ar aggrs idxs) rows (gs @ [(g, ctxs)]) = gs @ fold (add_row ar aggrs idxs) rows [(g, ctxs)]"
proof (induction rows arbitrary: gs g ctxs)
  case (Cons row rows)
  show ?case
    using Cons.IH [of "gs @ [(g, ctxs)]" row] Cons.IH [of "[(g, ctxs)]" row] Cons.IH [of gs g]
    by (simp add: add_row_snoc add_row_one)
qed simp

lemma map2_twice: "map2 f xs (map2 g xs ys) = map2 (\<lambda>x y. f x (g x y)) xs ys"
proof (induction xs arbitrary: ys)
  case (Cons x xs)
  then show ?case by (cases ys) simp_all
qed simp

lemma map2_second: "length ys = length xs \<Longrightarrow> map2 (\<lambda>_ y. y) xs ys = ys"
  by (induction xs ys rule: list_induct2') auto

lemma fold_add_row_run:
  assumes "length ctxs = length aggrs"
  shows "fold (add_row ar aggrs idxs) rows [(g, ctxs)] =
    (g, map2 (\<lambda>aggr. fold (Aggregation_Update ar aggr) (takeWhile (keysEqual (arCompare ar) idxs g) rows)) aggrs ctxs)
      # fold (add_row ar aggrs idxs) (dropWhile (keysEqual (arCompare ar) idxs g) rows) []"
  using assms
proof (induction rows arbitrary: ctxs)
  case Nil
  then show ?case by (simp add: map2_second id_def)
next
  case (Cons row rows)
  show ?case
  proof (cases "keysEqual (arCompare ar) idxs g row")
    case True
    with Cons.IH [of "map2 (\<lambda>aggr. Aggregation_Update ar aggr row) aggrs ctxs"] Cons.prems show ?thesis
      by (simp add: add_row_one map2_twice)
  next
    case False
    with Cons.prems fold_add_row_prefix [of ar aggrs idxs rows "[(g, ctxs)]"] show ?thesis
      by (simp add: add_row_one add_row_Nil map2_second id_def)
  qed
qed

lemma fold_add_row_runs:
  "fold (add_row ar aggrs idxs) rows [] =
     map (\<lambda>g. (hd g, eval_run ar aggrs g)) (runs (keysEqual (arCompare ar) idxs) rows)"
proof (induction "keysEqual (arCompare ar) idxs" rows rule: runs.induct)
  case (2 row rows)
  have "map2 (\<lambda>aggr. fold (Aggregation_Update ar aggr) g) aggrs (NewAggEvalCtxs aggrs (Some row)) = eval_run ar aggrs (row # g)" for g
    by (simp add: eval_run_def NewAggEvalCtxs_def list_eq_iff_nth_eq)
  with 2 fold_add_row_run [of "NewAggEvalCtxs aggrs (Some row)" aggrs ar idxs rows row] show ?case
    by (simp add: add_row_Nil NewAggEvalCtxs_def)
qed simp

subsection \<open>What an aggregation computes\<close>

text \<open>The values of a column, without the nulls.\<close>

definition column :: "nat \<Rightarrow> row list \<Rightarrow> Value list" where
  "column i g = filter (\<lambda>v. v \<noteq> VNull) (map (\<lambda>row. row ! i) g)"

lemma column_simps [simp]:
  "column i [] = []"
  "column i (row # g) = (if row ! i = VNull then column i g else (row ! i) # column i g)"
  by (simp_all add: column_def)

definition agg_value_ok :: "num_compare \<Rightarrow> bool \<Rightarrow> Aggregator \<Rightarrow> row list \<Rightarrow> Value \<Rightarrow> bool" where
  "agg_value_ok ncmp pd a g v =
     (let c = column (agIndex a) g in
      case agType a of
        AggrTypeCount \<Rightarrow>
          if pd then v = (if c = [] then VNull else VSigned (sum_list (map (the \<circ> int_value) c)))
          else v = VSigned (if agDistinct a then int (card (raw ` set c)) else int (length c))
      | AggrTypeMin \<Rightarrow> (c = [] \<and> v = VNull) \<or> (v \<in> set c \<and> (\<forall>w \<in> set c. NullsafeCompare ncmp v w \<le> 0))
      | AggrTypeMax \<Rightarrow> (c = [] \<and> v = VNull) \<or> (v \<in> set c \<and> (\<forall>w \<in> set c. NullsafeCompare ncmp w v \<le> 0))
      | _ \<Rightarrow> False)"

text \<open>
  The inputs for which that is promised: a pushed-down count adds non-negative signed integers whose
  sum is in range; a minimum or maximum is over values that compare as an order.
\<close>

definition agg_input_ok :: "num_compare \<Rightarrow> bool \<Rightarrow> Aggregator \<Rightarrow> row list \<Rightarrow> bool" where
  "agg_input_ok ncmp pd a rows \<longleftrightarrow>
     (let c = column (agIndex a) rows in
      case agType a of
        AggrTypeCount \<Rightarrow>
          pd \<longrightarrow> (\<forall>v \<in> set c. \<exists>n \<ge> 0. v = VSigned n) \<and> sum_list (map (the \<circ> int_value) c) < 2 ^ 63
      | AggrTypeMin \<Rightarrow> (pd \<or> \<not> agDistinct a) \<and> cmp_order (NullsafeCompare ncmp) (set c)
      | AggrTypeMax \<Rightarrow> (pd \<or> \<not> agDistinct a) \<and> cmp_order (NullsafeCompare ncmp) (set c)
      | _ \<Rightarrow> False)"

definition aggr_of :: "bool \<Rightarrow> Aggregator \<Rightarrow> Aggregation \<Rightarrow> bool" where
  "aggr_of pd a aggr \<longleftrightarrow>
     anIndex aggr = agIndex a \<and> anType aggr = agType a \<and> anDistinct aggr = agDistinct a \<and> anIsPushDown aggr = pd"

lemma fold_count:
  assumes "anType aggr = AggrTypeCount" "\<not> anIsPushDown aggr" "\<not> anDistinct aggr" "\<not> ecHasErr ctx"
  shows "\<not> ecHasErr (fold (Aggregation_Update ar aggr) xs ctx)
    \<and> ecCount (fold (Aggregation_Update ar aggr) xs ctx) = ecCount ctx + int (length (column (anIndex aggr) xs))"
  using assms(4)
proof (induction xs arbitrary: ctx)
  case (Cons x xs)
  then show ?case
    using assms(1-3) Cons.IH [of "Aggregation_Update ar aggr x ctx"]
    by (auto simp: Aggregation_Update_def aggr_step_def Let_def)
qed simp

definition distinct_inv :: "string set \<Rightarrow> AggEvaluateContext \<Rightarrow> bool" where
  "distinct_inv K ctx \<longleftrightarrow> \<not> ecHasErr ctx \<and> HashTable_inv (ecBuffer ctx) \<and> finite K
     \<and> (\<forall>k. table_Get (ecBuffer ctx) k = None \<longleftrightarrow> k \<notin> K) \<and> ecCount ctx = int (card K)"

lemma distinct_inv_Update:
  assumes "anType aggr = AggrTypeCount" "\<not> anIsPushDown aggr" "anDistinct aggr" "distinct_inv K ctx"
  shows "distinct_inv (K \<union> raw ` set (column (anIndex aggr) [x])) (Aggregation_Update ar aggr x ctx)"
proof (cases "x ! anIndex aggr = VNull \<or> raw (x ! anIndex aggr) \<in> K")
  case True
  with assms show ?thesis
    by (auto simp: distinct_inv_def Aggregation_Update_def Let_def insert_absorb)
next
  case False
  with assms show ?thesis
    by (auto simp: distinct_inv_def Aggregation_Update_def Let_def aggr_step_def
        hash_table.inv_put hash_table.get_put)
qed

lemma fold_count_distinct:
  assumes "anType aggr = AggrTypeCount" "\<not> anIsPushDown aggr" "anDistinct aggr" "distinct_inv K ctx"
  shows "distinct_inv (K \<union> raw ` set (column (anIndex aggr) xs)) (fold (Aggregation_Update ar aggr) xs ctx)"
  using assms(4)
proof (induction xs arbitrary: K ctx)
  case (Cons x xs)
  from Cons.IH [OF distinct_inv_Update [OF assms(1-3) Cons.prems, where ar = ar and x = x]] show ?case
    by (cases "x ! anIndex aggr = VNull") (simp_all add: Un_assoc)
qed simp

lemma fold_count_pushdown:
  assumes "anType aggr = AggrTypeCount" "anIsPushDown aggr" "anFieldType aggr = TSigned"
    and "\<forall>v \<in> set (column (anIndex aggr) xs). \<exists>n \<ge> 0. v = VSigned n" "\<not> ecHasErr ctx"
    and "ecVal ctx = VNull \<or> (\<exists>n \<ge> 0. ecVal ctx = VSigned n)"
    and "sum_list (map (the \<circ> int_value) (column (anIndex aggr) xs))
      + (case int_value (ecVal ctx) of None \<Rightarrow> 0 | Some n \<Rightarrow> n) < 2 ^ 63"
  shows "\<not> ecHasErr (fold (Aggregation_Update ar aggr) xs ctx)
    \<and> ecVal (fold (Aggregation_Update ar aggr) xs ctx) =
        (if column (anIndex aggr) xs = [] then ecVal ctx
         else VSigned (sum_list (map (the \<circ> int_value) (column (anIndex aggr) xs))
           + (case int_value (ecVal ctx) of None \<Rightarrow> 0 | Some n \<Rightarrow> n)))"
  using assms(4-7)
proof (induction xs arbitrary: ctx)
  case (Cons x xs)
  let ?v = "x ! anIndex aggr" and ?c = "column (anIndex aggr) xs"
  show ?case
  proof (cases "?v = VNull")
    case True
    with Cons show ?thesis by (simp add: Aggregation_Update_def)
  next
    case False
    with Cons.prems(1) obtain n where n: "?v = VSigned n" "0 \<le> n" by auto
    have nonneg: "0 \<le> sum_list (map (the \<circ> int_value) ?c)"
      using Cons.prems(1) False by (intro sum_list_nonneg) fastforce
    let ?m = "case int_value (ecVal ctx) of None \<Rightarrow> 0 | Some n \<Rightarrow> n"
    have m: "0 \<le> ?m" using Cons.prems(3) by auto
    have "?m + n < 2 ^ 63" using Cons.prems(4) False n nonneg by (simp add: comp_def)
    then have upd: "Aggregation_Update ar aggr x ctx = ctx\<lparr>ecVal := VSigned (?m + n)\<rparr>"
      using Cons.prems(2,3) assms(1-3) n m False
      by (auto simp: Aggregation_Update_def aggr_step_def NullsafeAdd_def Let_def)
    show ?thesis
      using Cons.IH [of "ctx\<lparr>ecVal := VSigned (?m + n)\<rparr>"] Cons.prems n m False by (simp add: upd algebra_simps)
  qed
qed simp


lemma minmax_nonnull: "v2 \<noteq> VNull \<Longrightarrow> minmax ncmp v1 v2 mn \<noteq> VNull"
  by (simp add: minmax_def)

text \<open>The smaller of two values, or the larger, against everything they were compared with.\<close>

definition extreme :: "num_compare \<Rightarrow> bool \<Rightarrow> Value list \<Rightarrow> Value \<Rightarrow> bool" where
  "extreme ncmp mn c v \<longleftrightarrow> (c = [] \<and> v = VNull)
     \<or> (v \<in> set c \<and> (\<forall>w \<in> set c. if mn then NullsafeCompare ncmp v w \<le> 0 else NullsafeCompare ncmp w v \<le> 0))"

lemma extreme_step:
  assumes "extreme ncmp mn c v" "cmp_order (NullsafeCompare ncmp) (insert w (set c))" "w \<noteq> VNull" "VNull \<notin> set c"
  shows "extreme ncmp mn (c @ [w]) (minmax ncmp v w mn)"
proof (cases "c = []")
  case True
  with assms cmp_order_refl [OF assms(2), of w] show ?thesis by (auto simp: extreme_def minmax_def)
next
  case False
  with assms(1) have v: "v \<in> set c" "\<forall>u \<in> set c. if mn then NullsafeCompare ncmp v u \<le> 0 else NullsafeCompare ncmp u v \<le> 0"
    by (auto simp: extreme_def)
  let ?n = "NullsafeCompare ncmp v w"
  note tr = cmp_order_trans [OF assms(2)]
  have wv: "NullsafeCompare ncmp w v = - ?n" using cmp_order_sym [OF assms(2), of v w] v(1) by simp
  have ww: "NullsafeCompare ncmp w w = 0" using cmp_order_refl [OF assms(2)] by simp
  have nn: "v \<noteq> VNull" using v(1) assms(4) by auto
  show ?thesis
  proof (cases "mn = (?n < 0)")
    case True
    then have "if mn then ?n \<le> 0 else NullsafeCompare ncmp w v \<le> 0" using wv by auto
    with True v nn assms(3) show ?thesis by (auto simp: extreme_def minmax_def)
  next
    case F: False
    have "if mn then NullsafeCompare ncmp w u \<le> 0 else NullsafeCompare ncmp u w \<le> 0" if "u \<in> set c" for u
      using tr [of w v u] tr [of u v w] v that wv F by (auto split: if_splits)
    with F ww nn assms(3) show ?thesis by (auto simp: extreme_def minmax_def)
  qed
qed

lemma fold_extreme:
  assumes "anType aggr = (if mn then AggrTypeMin else AggrTypeMax)" "anIsPushDown aggr \<or> \<not> anDistinct aggr"
    and "\<not> ecHasErr ctx" "extreme (arCompare ar) mn c (ecVal ctx)" "VNull \<notin> set c"
    and "cmp_order (NullsafeCompare (arCompare ar)) (set c \<union> set (column (anIndex aggr) xs))"
  shows "\<not> ecHasErr (fold (Aggregation_Update ar aggr) xs ctx)
    \<and> extreme (arCompare ar) mn (c @ column (anIndex aggr) xs) (ecVal (fold (Aggregation_Update ar aggr) xs ctx))"
  using assms(3-6)
proof (induction xs arbitrary: ctx c)
  case (Cons x xs)
  let ?v = "x ! anIndex aggr"
  show ?case
  proof (cases "?v = VNull")
    case True
    with Cons show ?thesis by (simp add: Aggregation_Update_def)
  next
    case False
    have upd: "Aggregation_Update ar aggr x ctx = ctx\<lparr>ecVal := minmax (arCompare ar) (ecVal ctx) ?v mn\<rparr>"
      using assms(1,2) Cons.prems(1) False
      by (auto simp: Aggregation_Update_def aggr_step_def value_Min_def value_Max_def split: if_splits)
    have "extreme (arCompare ar) mn (c @ [?v]) (minmax (arCompare ar) (ecVal ctx) ?v mn)"
      using Cons.prems False by (intro extreme_step) (auto intro: cmp_order_mono)
    with Cons.IH [of "ctx\<lparr>ecVal := minmax (arCompare ar) (ecVal ctx) ?v mn\<rparr>" "c @ [?v]"] Cons.prems False
    show ?thesis by (simp add: upd Un_commute)
  qed
qed simp

lemma agg_value:
  assumes "aggr_of pd a aggr" "pd \<and> agType a = AggrTypeCount \<longrightarrow> anFieldType aggr = TSigned"
    and "agg_input_ok (arCompare ar) pd a g" "g \<noteq> []"
  shows "agg_value_ok (arCompare ar) pd a g
    (GetResult ar aggr (fold (Aggregation_Update ar aggr) (tl g) (InitEvalCtx aggr (Some (hd g)))))"
proof -
  obtain x xs where g: "g = x # xs" using assms(4) by (cases g) auto
  let ?i = "agIndex a" and ?ctx = "InitEvalCtx aggr (Some x)"
  let ?r = "fold (Aggregation_Update ar aggr) xs ?ctx"
  have an: "anIndex aggr = ?i" "anType aggr = agType a" "anDistinct aggr = agDistinct a" "anIsPushDown aggr = pd"
    using assms(1) by (simp_all add: aggr_of_def)
  have init: "\<not> ecHasErr ?ctx" "ecVal ?ctx = x ! ?i" "ecCount ?ctx = (if \<not> pd \<and> x ! ?i \<noteq> VNull then 1 else 0)"
    by (simp_all add: InitEvalCtx_def an Let_def)
  consider (count) "agType a = AggrTypeCount" "\<not> pd" "\<not> agDistinct a" | (dcount) "agType a = AggrTypeCount" "\<not> pd" "agDistinct a"
    | (pcount) "agType a = AggrTypeCount" "pd" | (extreme) "agType a = AggrTypeMin \<or> agType a = AggrTypeMax"
    using assms(3) by (cases "agType a"; cases pd) (auto simp: agg_input_ok_def Let_def split: if_splits)
  then show ?thesis
  proof cases
    case count
    with fold_count [of aggr ?ctx ar xs] init an show ?thesis by (auto simp: g agg_value_ok_def GetResult_def)
  next
    case dcount
    have "distinct_inv (raw ` set (column ?i [x])) ?ctx"
      using dcount an
      by (simp add: distinct_inv_def InitEvalCtx_def Let_def hash_table.inv_empty hash_table.inv_put
          hash_table.get_empty hash_table.get_put)
    from fold_count_distinct [OF _ _ _ this, of aggr xs ar] dcount an
    have "distinct_inv (raw ` set (column ?i g)) ?r" by (simp add: g split: if_splits)
    with dcount an show ?thesis by (simp add: g agg_value_ok_def GetResult_def distinct_inv_def)
  next
    case pcount
    with fold_count_pushdown [of aggr xs ?ctx ar] init an assms(2,3) show ?thesis
      by (auto simp: g agg_value_ok_def agg_input_ok_def GetResult_def comp_def add.commute Let_def split: if_splits)
  next
    case extreme
    define mn where "mn = (agType a = AggrTypeMin)"
    with extreme have extr: "agType a = (if mn then AggrTypeMin else AggrTypeMax)" by auto
    have "extreme (arCompare ar) mn (column ?i [x]) (ecVal ?ctx)"
      using extr assms(3) init cmp_order_refl by (fastforce simp: extreme_def g agg_input_ok_def Let_def split: if_splits)
    with fold_extreme [of aggr mn ?ctx ar "column ?i [x]" xs] extr init an assms(3)
    show ?thesis
      by (auto simp: g agg_value_ok_def agg_input_ok_def GetResult_def extreme_def Let_def split: if_splits)
  qed
qed

subsection \<open>The operator as a whole\<close>

lemma FixField_of: "aggr_of pd a (fst (FixField (NewAggregation (agIndex a) (agType a) (agDistinct a) pd) f))"
  by (simp add: FixField_def NewAggregation_def aggr_of_def Let_def)

lemma new_aggrs_of: "list_all2 (aggr_of pd) as (fst (new_aggrs pd as fs))"
proof (induction as arbitrary: fs)
  case (Cons a as)
  then show ?case using FixField_of [of pd a "fs ! agIndex a"] by (simp add: case_prod_beta Let_def)
qed simp

lemma length_new_aggrs: "length (snd (new_aggrs pd as fs)) = length fs"
  by (induction as arbitrary: fs) (simp_all add: case_prod_beta Let_def)

lemma new_aggrs_pushdown:
  "\<forall>a \<in> set as. agType a \<noteq> AggrTypeAvg \<Longrightarrow>
     snd (new_aggrs True as fs) = fs
     \<and> list_all2 (\<lambda>a aggr. anFieldType aggr = fType (fs ! agIndex a)) as (fst (new_aggrs True as fs))"
  by (induction as arbitrary: fs) (simp_all add: FixField_def NewAggregation_def Let_def case_prod_beta)

definition put_results :: "arith \<Rightarrow> (Aggregation \<times> AggEvaluateContext) list \<Rightarrow> row \<Rightarrow> row" where
  "put_results ar acs x = fold (\<lambda>(aggr, ctx) x. x[anIndex aggr := GetResult ar aggr ctx]) acs x"

lemma GetResults_plain:
  "\<forall>(aggr, _) \<in> set acs. anType aggr \<noteq> AggrTypeAvg \<Longrightarrow> GetResults ar acs x = Inr (put_results ar acs x, [])"
  by (induction acs arbitrary: x) (auto simp: put_results_def)

lemma group_results_plain:
  assumes "\<forall>aggr \<in> set aggrs. anType aggr \<noteq> AggrTypeAvg"
  shows "group_results ar aggrs gs = Inr (map (\<lambda>(g, ctxs). put_results ar (zip aggrs ctxs) g) gs, [])"
proof (induction gs)
  case (Cons g gs)
  have "\<forall>(aggr, _) \<in> set (zip aggrs (snd g)). anType aggr \<noteq> AggrTypeAvg"
    using assms by (auto dest: set_zip_leftD)
  with Cons show ?case by (cases g) (simp add: GetResults_plain)
qed simp

lemma length_put_results: "length (put_results ar acs x) = length x"
  unfolding put_results_def by (induction acs arbitrary: x) auto

lemma put_results_other: "\<forall>(aggr, _) \<in> set acs. anIndex aggr \<noteq> i \<Longrightarrow> put_results ar acs x ! i = x ! i"
  unfolding put_results_def by (induction acs arbitrary: x) auto

lemma put_results_nth:
  assumes "distinct (map (anIndex \<circ> fst) acs)" "(aggr, ctx) \<in> set acs" "anIndex aggr < length x"
  shows "put_results ar acs x ! anIndex aggr = GetResult ar aggr ctx"
  using assms
proof (induction acs arbitrary: x)
  case (Cons ac acs)
  show ?case
  proof (cases "(aggr, ctx) = ac")
    case True
    have "\<forall>(aggr', _) \<in> set acs. anIndex aggr' \<noteq> anIndex aggr" using Cons.prems(1) True by force
    from put_results_other [OF this] True Cons.prems(3) show ?thesis by (auto simp: put_results_def)
  next
    case False
    with Cons.IH Cons.prems show ?thesis by (cases ac) (auto simp: put_results_def)
  qed
qed simp

text \<open>What the operator promises: one row for every class of rows with equal keys.\<close>

definition grouped ::
  "num_compare \<Rightarrow> AggregatePlan \<Rightarrow> row list \<Rightarrow> row list list \<Rightarrow> row list \<Rightarrow> bool" where
  "grouped ncmp plan rows gs out \<longleftrightarrow>
     (let same = keysEqual ncmp (map agIndex (apGroupAggrs plan)) in
      mset (concat gs) = mset rows \<and> [] \<notin> set gs
      \<and> (\<forall>g \<in> set gs. \<forall>a \<in> set g. \<forall>b \<in> set g. same a b)
      \<and> sorted_wrt (\<lambda>g h. \<forall>a \<in> set g. \<forall>b \<in> set h. \<not> same a b) gs
      \<and> list_all2 (\<lambda>g row. length row = length (hd g)
          \<and> (\<forall>i. i \<notin> set (map agIndex (apNormalAggrs plan)) \<longrightarrow> row ! i = hd g ! i)
          \<and> (\<forall>a \<in> set (apNormalAggrs plan). agg_value_ok ncmp (apIsPushDown plan) a g (row ! agIndex a))) gs out)"

lemma column_append: "column i (xs @ ys) = column i xs @ column i ys"
  by (simp add: column_def)

lemma mset_column: "mset xs = mset ys \<Longrightarrow> mset (column i xs) = mset (column i ys)"
  by (simp add: column_def)

lemma agg_input_ok_sub:
  assumes "agg_input_ok ncmp pd a rows" "mset (concat gs) = mset rows" "g \<in> set gs"
  shows "agg_input_ok ncmp pd a g"
proof -
  let ?i = "agIndex a" and ?sum = "\<lambda>c. sum_list (map (the \<circ> int_value) c)"
  from assms(3) obtain gs1 gs2 where gs: "gs = gs1 @ g # gs2" by (meson split_list)
  define rest where "rest = concat gs1 @ concat gs2"
  have "mset (g @ rest) = mset rows" using assms(2) by (simp add: gs rest_def ac_simps)
  from mset_column [OF this, of ?i] have m: "mset (column ?i rows) = mset (column ?i g @ column ?i rest)"
    by (simp add: column_append)
  have sub: "set (column ?i rows) = set (column ?i g) \<union> set (column ?i rest)" using mset_eq_setD [OF m] by simp
  have sum: "?sum (column ?i rows) = ?sum (column ?i g) + ?sum (column ?i rest)"
    using arg_cong [OF m, of "\<lambda>M. sum_mset (image_mset (the \<circ> int_value) M)"]
    by (simp flip: sum_mset_sum_list mset_map)
  show ?thesis
  proof (cases "agType a = AggrTypeCount \<and> pd")
    case True
    with assms(1) have "\<forall>v \<in> set (column ?i rows). \<exists>n \<ge> 0. v = VSigned n" "?sum (column ?i rows) < 2 ^ 63"
      by (simp_all add: agg_input_ok_def Let_def)
    moreover have "0 \<le> (the \<circ> int_value) v" if "v \<in> set (column ?i rest)" for v
    proof -
      have "v \<in> set (column ?i rows)" using that sub by simp
      with calculation(1) obtain n where "0 \<le> n" "v = VSigned n" by blast
      then show ?thesis by simp
    qed
    then have "0 \<le> ?sum (column ?i rest)" by (intro sum_list_nonneg) auto
    ultimately show ?thesis using True sub sum by (simp add: agg_input_ok_def Let_def)
  next
    case False
    have "cmp_order (NullsafeCompare ncmp) (set (column ?i g))" if "cmp_order (NullsafeCompare ncmp) (set (column ?i rows))"
      by (rule cmp_order_mono [OF that]) (simp add: sub)
    with False assms(1) show ?thesis by (cases "agType a") (simp_all add: agg_input_ok_def Let_def)
  qed
qed

lemma put_results_ok:
  assumes "list_all2 (aggr_of pd) as aggrs" "distinct (map agIndex as)" "\<forall>a \<in> set as. agIndex a < length (hd g)"
    and "\<forall>(a, aggr) \<in> set (zip as aggrs). agg_value_ok ncmp pd a g (GetResult ar aggr (f aggr))"
  shows "length (put_results ar (zip aggrs (map f aggrs)) (hd g)) = length (hd g)
    \<and> (\<forall>i. i \<notin> set (map agIndex as) \<longrightarrow> put_results ar (zip aggrs (map f aggrs)) (hd g) ! i = hd g ! i)
    \<and> (\<forall>a \<in> set as. agg_value_ok ncmp pd a g (put_results ar (zip aggrs (map f aggrs)) (hd g) ! agIndex a))"
proof -
  let ?acs = "zip aggrs (map f aggrs)"
  have idx: "map anIndex aggrs = map agIndex as"
    using assms(1) by (induction rule: list_all2_induct) (auto simp: aggr_of_def)
  then have d: "distinct (map (anIndex \<circ> fst) ?acs)" using assms(2) by (simp flip: map_map)
  have "put_results ar ?acs (hd g) ! i = hd g ! i" if "i \<notin> set (map agIndex as)" for i
  proof (rule put_results_other)
    show "\<forall>(aggr, _) \<in> set ?acs. anIndex aggr \<noteq> i"
      using that idx by (auto dest!: set_zip_leftD) (metis image_eqI list.set_map)
  qed
  moreover have "agg_value_ok ncmp pd a g (put_results ar ?acs (hd g) ! agIndex a)" if "a \<in> set as" for a
  proof -
    obtain n where n: "n < length as" "a = as ! n" using \<open>a \<in> set as\<close> by (auto simp: in_set_conv_nth)
    have l: "length aggrs = length as" using assms(1) by (simp add: list_all2_lengthD)
    let ?aggr = "aggrs ! n"
    have i: "anIndex ?aggr = agIndex a" using assms(1) n by (auto simp: list_all2_conv_all_nth aggr_of_def)
    have "(?aggr, f ?aggr) \<in> set ?acs" using n l by (auto simp: set_zip intro!: exI [of _ n])
    from put_results_nth [OF d this] i assms(3) that
    have "put_results ar ?acs (hd g) ! agIndex a = GetResult ar ?aggr (f ?aggr)" by simp
    moreover have "(a, ?aggr) \<in> set (zip as aggrs)" using n l by (auto simp: set_zip)
    ultimately show ?thesis using assms(4) by auto
  qed
  ultimately show ?thesis by (simp add: length_put_results)
qed

definition plan_ok :: "arith \<Rightarrow> AggregatePlan \<Rightarrow> Result \<Rightarrow> bool" where
  "plan_ok ar plan rs \<longleftrightarrow> Result_ok rs
     \<and> keys_order (arCompare ar) (map agIndex (apGroupAggrs plan)) (set (rsRows rs))
     \<and> (\<forall>a \<in> set (apNormalAggrs plan @ apGroupAggrs plan). agIndex a < length (rsFields rs))
     \<and> distinct (map agIndex (apNormalAggrs plan))
     \<and> (\<forall>a \<in> set (apNormalAggrs plan). agg_input_ok (arCompare ar) (apIsPushDown plan) a (rsRows rs)
          \<and> (apIsPushDown plan \<longrightarrow> agType a = AggrTypeCount \<longrightarrow> fType (rsFields rs ! agIndex a) = TSigned))"

lemma plan_ok_no_avg: "plan_ok ar plan rs \<Longrightarrow> a \<in> set (apNormalAggrs plan) \<Longrightarrow> agType a \<noteq> AggrTypeAvg"
  by (auto simp: plan_ok_def agg_input_ok_def Let_def)

lemma plan_ok_aggr:
  assumes "plan_ok ar plan rs" "aggrs = fst (new_aggrs (apIsPushDown plan) (apNormalAggrs plan) (rsFields rs))"
    and "(a, aggr) \<in> set (zip (apNormalAggrs plan) aggrs)"
  shows "aggr_of (apIsPushDown plan) a aggr" "a \<in> set (apNormalAggrs plan)" "anType aggr \<noteq> AggrTypeAvg"
    and "apIsPushDown plan \<and> agType a = AggrTypeCount \<longrightarrow> anFieldType aggr = TSigned"
proof -
  let ?as = "apNormalAggrs plan"
  show a: "a \<in> set ?as" using assms(3) by (rule set_zip_leftD)
  show of: "aggr_of (apIsPushDown plan) a aggr"
    using new_aggrs_of [of "apIsPushDown plan" ?as "rsFields rs"] assms(2,3) by (auto simp: list_all2_iff)
  show "anType aggr \<noteq> AggrTypeAvg" using of plan_ok_no_avg [OF assms(1) a] by (simp add: aggr_of_def)
  have "anFieldType aggr = fType (rsFields rs ! agIndex a)" if "apIsPushDown plan"
    using new_aggrs_pushdown [of ?as "rsFields rs"] plan_ok_no_avg [OF assms(1)] assms(2,3) that
    by (auto simp: list_all2_iff)
  then show "apIsPushDown plan \<and> agType a = AggrTypeCount \<longrightarrow> anFieldType aggr = TSigned"
    using assms(1) a by (auto simp: plan_ok_def)
qed

lemma Aggregate_Execute_runs:
  assumes "plan_ok ar plan rs" "apGroupAggrs plan \<noteq> []" "idxs = map agIndex (apGroupAggrs plan)"
    and "aggrs = fst (new_aggrs (apIsPushDown plan) (apNormalAggrs plan) (rsFields rs))"
    and "gs = runs (keysEqual (arCompare ar) idxs) (srt (keys_le (arCompare ar) (map (\<lambda>i. (i, False)) idxs)) (rsRows rs))"
    and "gs \<noteq> []"
  shows "Aggregate_Execute srt ar plan rs = Inr (rs\<lparr>
    rsFields := snd (new_aggrs (apIsPushDown plan) (apNormalAggrs plan) (rsFields rs)),
    rsRows := map (\<lambda>g. put_results ar (zip aggrs (eval_run ar aggrs g)) (hd g)) gs\<rparr>)"
proof -
  have l: "length aggrs = length (apNormalAggrs plan)"
    using new_aggrs_of [of "apIsPushDown plan" "apNormalAggrs plan" "rsFields rs"] assms(4) by (simp add: list_all2_lengthD)
  have noavg: "\<forall>aggr \<in> set aggrs. anType aggr \<noteq> AggrTypeAvg"
    using plan_ok_aggr(3) [OF assms(1,4)] l by (metis in_set_impl_in_set_zip2)
  have idxs: "idxs \<noteq> []" using assms(2,3) by simp
  have "\<not> list_ex (\<lambda>a. length (rsFields rs) \<le> agIndex a) (apNormalAggrs plan @ apGroupAggrs plan)"
    using assms(1) by (simp add: plan_ok_def list_ex_iff ball_Un) (meson not_le)
  then show ?thesis
    unfolding Aggregate_Execute_def Let_def case_prod_beta
    using assms(2,6) idxs
    by (simp add: AggregatePlan_Empty_def group_results_plain [OF noavg] assms(3-5) [symmetric] fold_add_row_runs
        RemoveColumns_def comp_def)
qed

lemma group_row_ok:
  assumes "plan_ok ar plan rs" "aggrs = fst (new_aggrs (apIsPushDown plan) (apNormalAggrs plan) (rsFields rs))"
    and "mset (concat gs) = mset (rsRows rs)" "g \<in> set gs" "g \<noteq> []"
    and "row = put_results ar (zip aggrs (eval_run ar aggrs g)) (hd g)"
  shows "length row = length (hd g)
    \<and> (\<forall>i. i \<notin> set (map agIndex (apNormalAggrs plan)) \<longrightarrow> row ! i = hd g ! i)
    \<and> (\<forall>a \<in> set (apNormalAggrs plan). agg_value_ok (arCompare ar) (apIsPushDown plan) a g (row ! agIndex a))"
  unfolding assms(6) eval_run_def
proof (rule put_results_ok)
  show "list_all2 (aggr_of (apIsPushDown plan)) (apNormalAggrs plan) aggrs" unfolding assms(2) by (rule new_aggrs_of)
  show "distinct (map agIndex (apNormalAggrs plan))" using assms(1) by (simp add: plan_ok_def)
  have "hd g \<in> set (concat gs)" using assms(4,5) by (auto intro!: bexI [of _ g])
  then have "hd g \<in> set (rsRows rs)" unfolding mset_eq_setD [OF assms(3)] .
  with assms(1) show "\<forall>a \<in> set (apNormalAggrs plan). agIndex a < length (hd g)" by (auto simp: plan_ok_def Result_ok_def)
  have "agg_value_ok (arCompare ar) (apIsPushDown plan) a g
      (GetResult ar aggr (fold (Aggregation_Update ar aggr) (tl g) (InitEvalCtx aggr (Some (hd g)))))"
    if m: "(a, aggr) \<in> set (zip (apNormalAggrs plan) aggrs)" for a aggr
  proof (rule agg_value)
    show "agg_input_ok (arCompare ar) (apIsPushDown plan) a g"
      using agg_input_ok_sub [OF _ assms(3,4)] assms(1) plan_ok_aggr(2) [OF assms(1,2) m] by (simp add: plan_ok_def)
  qed (use plan_ok_aggr [OF assms(1,2) m] assms(5) in blast)+
  then show "\<forall>(a, aggr) \<in> set (zip (apNormalAggrs plan) aggrs). agg_value_ok (arCompare ar) (apIsPushDown plan) a g
      (GetResult ar aggr (fold (Aggregation_Update ar aggr) (tl g) (InitEvalCtx aggr (Some (hd g)))))" by blast
qed


definition demo_arith :: arith where
  "demo_arith = \<lparr>arCompare = (\<lambda>_ _. 0), arSum = (\<lambda>_ _ _ _. Inr VNull), arAdd = (\<lambda>_ _ _ _. Inr VNull),
     arDiv = (\<lambda>_ _ _ _. Inr VNull), arCast = (\<lambda>v _. Inr v), arBool = (\<lambda>_. False)\<rparr>"

definition demo_field :: "string \<Rightarrow> Field" where
  "demo_field name = \<lparr>fName = name, fTable = ''t'', fType = TSigned, fDecimals = 0, fColumnLength = 11\<rparr>"

text \<open>\<open>SELECT count(a), b FROM t GROUP BY b\<close> over four rows in two groups.\<close>

definition demo_rs :: Result where
  "demo_rs = \<lparr>rsFields = [demo_field ''a'', demo_field ''b''], rsRowsAffected = 4, rsInsertID = 0,
     rsRows = [[VSigned 7, VSigned 2], [VNull, VSigned 1], [VSigned 8, VSigned 2], [VSigned 9, VSigned 1]]\<rparr>"

definition demo_plan :: AggregatePlan where
  "demo_plan = \<lparr>apNormalAggrs = [\<lparr>agField = ''a'', agIndex = 0, agType = AggrTypeCount, agDistinct = False\<rparr>],
     apGroupAggrs = [\<lparr>agField = ''b'', agIndex = 1, agType = AggrTypeGroupBy, agDistinct = False\<rparr>],
     apIsPushDown = False\<rparr>"

lemma demo_plan_ok: "plan_ok demo_arith demo_plan demo_rs"
  unfolding plan_ok_def keys_order_def
  by (auto simp: demo_plan_def demo_rs_def Result_ok_def agg_input_ok_def intro!: NullsafeCompare_ints)


text \<open>Over no rows the operator makes up a row, also under GROUP BY, where a query over no rows has no
  group: the group columns are null, and a count that was not pushed down is 0.\<close>

theorem Aggregate_empty_input_row:
  assumes "sorts srt" "plan_ok ar plan rs" "apNormalAggrs plan \<noteq> []" "rsRows rs = []"
  shows "\<exists>rs' row. Aggregate_Execute srt ar plan rs = Inr rs' \<and> rsRows rs' = [row]
    \<and> (\<forall>b \<in> set (apGroupAggrs plan). agIndex b \<notin> set (map agIndex (apNormalAggrs plan)) \<longrightarrow> row ! agIndex b = VNull)
    \<and> (\<forall>a \<in> set (apNormalAggrs plan). agType a = AggrTypeCount \<and> \<not> apIsPushDown plan \<longrightarrow> row ! agIndex a = VSigned 0)"
proof -
  let ?as = "apNormalAggrs plan" and ?pd = "apIsPushDown plan"
  define aggrs fs where "aggrs = fst (new_aggrs ?pd ?as (rsFields rs))" and "fs = snd (new_aggrs ?pd ?as (rsFields rs))"
  define row where "row = put_results ar (zip aggrs (NewAggEvalCtxs aggrs None)) (replicate (length fs) VNull)"
  have of: "list_all2 (aggr_of ?pd) ?as aggrs" unfolding aggrs_def by (rule new_aggrs_of)
  then have l: "length aggrs = length ?as" and idx: "map anIndex aggrs = map agIndex ?as"
    by (auto simp: list_all2_conv_all_nth aggr_of_def intro: nth_equalityI)
  have noavg: "\<forall>aggr \<in> set aggrs. anType aggr \<noteq> AggrTypeAvg"
    using plan_ok_aggr(3) [OF assms(2) aggrs_def] l by (metis in_set_impl_in_set_zip2)
  have len: "length fs = length (rsFields rs)" by (simp add: fs_def length_new_aggrs)
  have bound: "\<forall>a \<in> set (?as @ apGroupAggrs plan). agIndex a < length fs" using assms(2) len by (simp add: plan_ok_def)
  have "\<not> list_ex (\<lambda>a. length (rsFields rs) \<le> agIndex a) (?as @ apGroupAggrs plan)"
    using bound len by (simp add: list_ex_iff ball_Un) (meson not_le)
  moreover have "srt le [] = []" for le
    using slice_sorting.length_srt [OF slice_sorting.intro [OF assms(1)], of le "[]"] by simp
  ultimately have exec: "Aggregate_Execute srt ar plan rs = Inr (rs\<lparr>rsFields := fs, rsRows := [row]\<rparr>)"
    unfolding Aggregate_Execute_def Let_def case_prod_beta
    using assms(3,4) l
    by (auto simp: AggregatePlan_Empty_def group_results_plain [OF noavg] aggrs_def [symmetric] fs_def [symmetric]
        RemoveColumns_def row_def simp del: group_results.simps)
  have other: "row ! i = VNull" if i: "i < length fs" "i \<notin> set (map agIndex ?as)" for i
  proof -
    have "\<forall>(aggr, _) \<in> set (zip aggrs (NewAggEvalCtxs aggrs None)). anIndex aggr \<noteq> i"
      using i(2) unfolding idx [symmetric] set_map by (blast dest: set_zip_leftD)
    then show ?thesis unfolding row_def using i(1) by (simp add: put_results_other)
  qed
  have count: "row ! agIndex a = VSigned 0" if a: "a \<in> set ?as" "agType a = AggrTypeCount" "\<not> ?pd" for a
  proof -
    obtain n where n: "n < length ?as" "a = ?as ! n" using a(1) by (auto simp: in_set_conv_nth)
    let ?aggr = "aggrs ! n"
    have an: "anIndex ?aggr = agIndex a" "anType ?aggr = AggrTypeCount" "\<not> anIsPushDown ?aggr"
      using of n a by (auto simp: list_all2_conv_all_nth aggr_of_def)
    have "(?aggr, InitEvalCtx ?aggr None) \<in> set (zip aggrs (NewAggEvalCtxs aggrs None))"
      using n l by (auto simp: set_zip NewAggEvalCtxs_def)
    moreover have "distinct (map (anIndex \<circ> fst) (zip aggrs (NewAggEvalCtxs aggrs None)))"
      using assms(2) idx by (simp add: plan_ok_def NewAggEvalCtxs_def flip: map_map)
    ultimately have "row ! agIndex a = GetResult ar ?aggr (InitEvalCtx ?aggr None)"
      unfolding row_def an(1) [symmetric] using bound a(1) an(1) by (intro put_results_nth) auto
    then show ?thesis using an by (simp add: GetResult_def InitEvalCtx_def)
  qed
  show ?thesis using exec other count bound by (intro exI [of _ "rs\<lparr>rsFields := fs, rsRows := [row]\<rparr>"] exI [of _ row]) auto
qed

theorem Aggregate_empty_input_row_witness:
  "plan_ok demo_arith demo_plan (demo_rs\<lparr>rsRows := []\<rparr>)
   \<and> (\<exists>rs' row. Aggregate_Execute insertion_sort demo_arith demo_plan (demo_rs\<lparr>rsRows := []\<rparr>) = Inr rs'
        \<and> rsRows rs' = [row] \<and> row ! 1 = VNull \<and> row ! 0 = VSigned 0)"
proof -
  have ok: "plan_ok demo_arith demo_plan (demo_rs\<lparr>rsRows := []\<rparr>)"
    by (auto simp: plan_ok_def keys_order_def cmp_order_def demo_plan_def demo_rs_def Result_ok_def agg_input_ok_def)
  from Aggregate_empty_input_row [OF sorts_insertion_sort this] ok show ?thesis
    by (force simp: demo_plan_def)
qed

end
