(* ===== verification/Radon_Operator.thy ===== *)
theory Radon_Operator
  imports Radon_Aggregate Radon_Sql
begin

section \<open>ORDER BY, LIMIT and the chain of operators\<close>

text \<open>
  \<open>src/src/executor/engine/operator/{orderby_operator,limit_operator,operator}.go\<close> and
  \<open>src/src/planner/builder/limit_plan.go\<close>. The planner pushes \<open>LIMIT offset + count\<close> to every shard and
  the operators sort what comes back and cut the window out of it.
\<close>

record OrderBy =
  obField :: string
  obTable :: string
  obDirection :: string

abbreviation DESC :: string where "DESC \<equiv> ''DESC''"

record OrderByPlan =
  opOrderBys :: "OrderBy list"
  opRemovedIdxs :: "nat list"

record LimitPlan =
  lpOffset :: int
  lpLimit :: int

datatype ChildPlan = ChildAggregate AggregatePlan | ChildOrderby OrderByPlan | ChildLimit LimitPlan

subsection \<open>ORDER BY\<close>

fun find_field :: "OrderBy \<Rightarrow> Field list \<Rightarrow> nat \<Rightarrow> nat option" where
  "find_field ob [] k = None"
| "find_field ob (f # fs) k =
     (if fName f = obField ob \<and> (obTable ob = [] \<or> obTable ob = fTable f) then Some k else find_field ob fs (k + 1))"

text \<open>
  The keys of the comparator, up to the first one whose field the result does not have; the flag tells
  whether all were found.
\<close>

fun resolve :: "Field list \<Rightarrow> OrderBy list \<Rightarrow> (nat \<times> bool) list \<times> bool" where
  "resolve fs [] = ([], True)"
| "resolve fs (ob # obs) =
     (case find_field ob fs 0 of
        None \<Rightarrow> ([], False)
      | Some i \<Rightarrow> (case resolve fs obs of (ks, ok) \<Rightarrow> ((i, obDirection ob = DESC) # ks, ok)))"

text \<open>
  A missing field is an error once two rows are compared that agree on the keys before it, which every
  sort does for two such rows that end up side by side.
\<close>

fun has_tie :: "num_compare \<Rightarrow> nat list \<Rightarrow> row list \<Rightarrow> bool" where
  "has_tie ncmp idxs [] = False"
| "has_tie ncmp idxs (r # rs) = (list_ex (keysEqual ncmp idxs r) rs \<or> has_tie ncmp idxs rs)"

definition OrderBy_Execute :: "row slice_sort \<Rightarrow> num_compare \<Rightarrow> OrderByPlan \<Rightarrow> Result \<Rightarrow> Result res" where
  "OrderBy_Execute srt ncmp plan rs =
     (case resolve (rsFields rs) (opOrderBys plan) of (ks, ok) \<Rightarrow>
        if \<not> ok \<and> has_tie ncmp (map fst ks) (rsRows rs)
        then Inl (GoError ''can.not.find.the.orderby.field[%s].direction.asc'')
        else Inr (RemoveColumns (opRemovedIdxs plan) (rs\<lparr>rsRows := srt (keys_le ncmp ks) (rsRows rs)\<rparr>)))"

definition Limit_Execute :: "LimitPlan \<Rightarrow> Result \<Rightarrow> Result res" where
  "Limit_Execute plan rs = Result_Limit (lpOffset plan) (lpLimit plan) rs"

fun ExecSubPlan :: "row slice_sort \<Rightarrow> arith \<Rightarrow> ChildPlan list \<Rightarrow> Result \<Rightarrow> Result res" where
  "ExecSubPlan srt ar [] rs = Inr rs"
| "ExecSubPlan srt ar (subPlan # ps) rs =
     rbind (case subPlan of
              ChildAggregate p \<Rightarrow> Aggregate_Execute srt ar p rs
            | ChildOrderby p \<Rightarrow> OrderBy_Execute srt (arCompare ar) p rs
            | ChildLimit p \<Rightarrow> Limit_Execute p rs)
       (ExecSubPlan srt ar ps)"

subsection \<open>The plan of a LIMIT\<close>

text \<open>The clause: its offset and its row count, where they are given.\<close>

record Limit =
  liOffset :: "expr option"
  liRowcount :: "expr option"

definition int_literal :: "expr option \<Rightarrow> bool" where
  "int_literal e = (case e of None \<Rightarrow> True | Some (SQLValE v) \<Rightarrow> svType v = IntVal | Some _ \<Rightarrow> False)"

definition LimitPlan_analyze :: "Limit \<Rightarrow> unit res" where
  "LimitPlan_analyze node =
     (if int_literal (liOffset node) \<and> int_literal (liRowcount node) then Inr ()
      else Inl (GoError ''unsupported: limit.offset.or.counts.must.be.IntVal''))"

definition limit_number :: "expr option \<Rightarrow> int res" where
  "limit_number e =
     (case e of
        Some (SQLValE v) \<Rightarrow>
          (case go_atoi (svVal v) of Some i \<Rightarrow> Inr i | None \<Rightarrow> Inl (GoError ''strconv.ParseInt''))
      | _ \<Rightarrow> Inr 0)"

text \<open>\<open>Build\<close> gives the plan and the clause that replaces the original one in the queries to the shards.\<close>

definition LimitPlan_Build :: "Limit option \<Rightarrow> (LimitPlan \<times> Limit option) res" where
  "LimitPlan_Build node =
     (case node of
        None \<Rightarrow> Inr (\<lparr>lpOffset = 0, lpLimit = 0\<rparr>, None)
      | Some l \<Rightarrow>
          rbind (LimitPlan_analyze l) (\<lambda>_.
          rbind (limit_number (liOffset l)) (\<lambda>offset.
          rbind (limit_number (liRowcount l)) (\<lambda>limit.
            Inr (\<lparr>lpOffset = offset, lpLimit = limit\<rparr>,
                 Some \<lparr>liOffset = None, liRowcount =
                   Some (SQLValE \<lparr>svType = IntVal, svVal = sprintf_d (int64 (offset + limit))\<rparr>)\<rparr>)))))"

subsection \<open>Pushing a LIMIT down\<close>

text \<open>
  An answer to \<open>ORDER BY ... LIMIT o, l\<close>: the window of some ordering of the rows. Which rows of a tie
  are in it is open, in MySQL as here.
\<close>

definition window :: "('a \<Rightarrow> 'a \<Rightarrow> bool) \<Rightarrow> nat \<Rightarrow> nat \<Rightarrow> 'a list \<Rightarrow> 'a list \<Rightarrow> bool" where
  "window le off cnt rows out \<longleftrightarrow> (\<exists>zs. mset zs = mset rows \<and> sorted_wrt le zs \<and> out = take cnt (drop off zs))"

text \<open>The rows below a given one are a prefix of a sorted list.\<close>

lemma sorted_prefix_below:
  assumes "total_preorder le S" "set T \<subseteq> S" "d \<in> S" "sorted_wrt le T" "n \<le> length (filter (\<lambda>x. le x d) T)"
    and "a \<in> set (take n T)"
  shows "le a d"
proof (rule ccontr)
  assume not: "\<not> le a d"
  obtain j where j: "j < n" "j < length T" "a = T ! j" using assms(6) by (auto simp: in_set_conv_nth)
  have "\<not> le x d" if x: "x \<in> set (drop j T)" for x
  proof
    assume "le x d"
    have xS: "x \<in> S" "a \<in> S" using x assms(2) j by (auto dest: in_set_dropD)
    have "drop j T = a # drop (Suc j) T" using j by (simp add: Cons_nth_drop_Suc)
    with x sorted_wrt_drop [OF assms(4), of j] total_preorder_total [OF assms(1) xS(2) xS(2)]
    have "le a x" by auto
    with total_preorder_trans [OF assms(1) xS(2,1) assms(3)] \<open>le x d\<close> not show False by blast
  qed
  then have "filter (\<lambda>x. le x d) (drop j T) = []" by (simp add: filter_empty_conv)
  then have "length (filter (\<lambda>x. le x d) T) = length (filter (\<lambda>x. le x d) (take j T))"
    by (metis append_Nil2 append_take_drop_id filter_append)
  also have "\<dots> \<le> j" by (rule order_trans [OF length_filter_le]) simp
  finally show False using assms(5) j by simp
qed

lemma list_all2_in_left: "list_all2 P xs ys \<Longrightarrow> x \<in> set xs \<Longrightarrow> \<exists>y \<in> set ys. P x y"
  by (induction rule: list_all2_induct) auto

lemma pushed_below:
  assumes "total_preorder le (set (concat shards))" "list_all2 (\<lambda>zs d. mset zs = mset d \<and> sorted_wrt le zs) zss shards"
    and "mset T = mset (concat (map (take n) zss))" "sorted_wrt le T" "zs \<in> set zss" "d \<in> set (drop n zs)" "a \<in> set (take n T)"
  shows "le a d"
proof (rule sorted_prefix_below [OF assms(1) _ _ assms(4) _ assms(7)])
  from assms(2,5) obtain sh where sh: "sh \<in> set shards" "mset zs = mset sh" "sorted_wrt le zs"
    using list_all2_in_left [OF assms(2,5)] by blast
  have zsub: "set zs' \<subseteq> set (concat shards)" if "zs' \<in> set zss" for zs'
  proof -
    from assms(2) that obtain sh' where "sh' \<in> set shards" "mset zs' = mset sh'"
      using list_all2_in_left [OF assms(2)] by blast
    then have "set zs' = set sh'" by (blast dest: mset_eq_setD)
    with \<open>sh' \<in> set shards\<close> show ?thesis by auto
  qed
  show "set T \<subseteq> set (concat shards)"
  proof
    fix x assume "x \<in> set T"
    then obtain zs' where "zs' \<in> set zss" "x \<in> set (take n zs')" using mset_eq_setD [OF assms(3)] by auto
    with zsub show "x \<in> set (concat shards)" by (blast dest: in_set_takeD)
  qed
  show "d \<in> set (concat shards)" using zsub [OF assms(5)] assms(6) by (blast dest: in_set_dropD)
  have len: "length (take n zs) = n" using assms(6) by (cases "n < length zs") auto
  have "sorted_wrt le (take n zs @ drop n zs)" using sh(3) by simp
  then have "\<forall>x \<in> set (take n zs). le x d" using assms(6) unfolding sorted_wrt_append by blast
  then have n: "n = size (filter_mset (\<lambda>x. le x d) (mset (take n zs)))"
    using len by (metis filter_True mset_filter size_mset)
  from assms(5) obtain xs ys where "zss = xs @ zs # ys" by (meson split_list)
  then have "mset (take n zs) \<subseteq># mset T" by (simp add: assms(3))
  then have "size (filter_mset (\<lambda>x. le x d) (mset (take n zs))) \<le> size (filter_mset (\<lambda>x. le x d) (mset T))"
    by (intro size_mset_mono multiset_filter_mono)
  with n show "n \<le> length (filter (\<lambda>x. le x d) T)" by (metis mset_filter size_mset)
qed

lemma windows_orderings:
  assumes "list_all2 (window le 0 n) shards tops"
  shows "\<exists>zss. list_all2 (\<lambda>zs d. mset zs = mset d \<and> sorted_wrt le zs) zss shards \<and> tops = map (take n) zss"
  using assms
proof (induction rule: list_all2_induct)
  case (Cons d ds t ts)
  then obtain zs zss where "mset zs = mset d" "sorted_wrt le zs" "t = take n zs"
    "list_all2 (\<lambda>zs d. mset zs = mset d \<and> sorted_wrt le zs) zss ds" "ts = map (take n) zss"
    by (auto simp: window_def)
  then show ?case by (intro exI [of _ "zs # zss"]) simp
qed simp

lemma mset_orderings:
  "list_all2 (\<lambda>zs d. mset zs = mset d \<and> sorted_wrt le zs) zss shards \<Longrightarrow>
     mset (concat shards) = mset (concat (map (take n) zss)) + mset (concat (map (drop n) zss))"
proof (induction rule: list_all2_induct)
  case (Cons zs zss d ds)
  have "mset d = mset (take n zs) + mset (drop n zs)" using Cons(1) by (metis append_take_drop_id mset_append)
  with Cons.IH show ?case by (simp add: ac_simps)
qed simp

lemma pushed_all:
  assumes "length (concat (map (take n) zss)) < n"
  shows "concat (map (drop n) zss) = []"
proof -
  have "length zs < n" if "zs \<in> set zss" for zs
  proof -
    have "length (take n zs) \<le> length (concat (map (take n) zss))"
      using that by (simp add: length_concat member_le_sum_list)
    with assms show ?thesis by simp
  qed
  then show ?thesis by fastforce
qed

context slice_sorting
begin

text \<open>The window over the first \<open>off + cnt\<close> rows of every shard is a window over all the rows.\<close>

lemma window_pushed:
  assumes "total_preorder le (set (concat shards))" "list_all2 (window le 0 (off + cnt)) shards tops"
  shows "window le off cnt (concat shards) (take cnt (drop off (srt le (concat tops))))"
proof -
  define n T where "n = off + cnt" and "T = srt le (concat tops)"
  from windows_orderings [OF assms(2)] obtain zss where
    zss: "list_all2 (\<lambda>zs d. mset zs = mset d \<and> sorted_wrt le zs) zss shards" and tops: "tops = map (take n) zss"
    by (auto simp: n_def)
  define R where "R = concat (map (drop n) zss)"
  have ms: "mset (concat shards) = mset T + mset R"
    using mset_orderings [OF zss, of n] by (simp add: T_def tops R_def)
  have sub: "set T \<subseteq> set (concat shards)" "set R \<subseteq> set (concat shards)"
    using arg_cong [OF ms, of set_mset] by auto
  have sT: "sorted_wrt le T" unfolding T_def
    using sub(1) by (intro sorted_srt total_preorder_mono [OF assms(1)]) (simp add: T_def)
  have below: "le a d" if "a \<in> set (take n T)" "d \<in> set R" for a d
  proof -
    from that(2) obtain zs where "zs \<in> set zss" "d \<in> set (drop n zs)" by (auto simp: R_def)
    then show ?thesis using pushed_below [OF assms(1) zss _ sT] that(1) by (simp add: T_def tops)
  qed
  define zs where "zs = take n T @ srt le (drop n T @ R)"
  have "sorted_wrt le (srt le (drop n T @ R))"
    using sub by (intro sorted_srt total_preorder_mono [OF assms(1)]) (auto dest: in_set_dropD)
  moreover have "le a b" if "a \<in> set (take n T)" "b \<in> set (drop n T)" for a b
    using sT that by (metis append_take_drop_id sorted_wrt_append)
  ultimately have "sorted_wrt le zs" using below sT by (auto simp: zs_def sorted_wrt_append sorted_wrt_take)
  moreover have "mset zs = mset (concat shards)"
  proof -
    have "mset T = mset (take n T) + mset (drop n T)" by (metis append_take_drop_id mset_append)
    then show ?thesis by (simp add: zs_def ms)
  qed
  moreover have "take cnt (drop off zs) = take cnt (drop off T)"
  proof (cases "n \<le> length T")
    case True
    then show ?thesis by (simp add: zs_def n_def drop_take)
  next
    case False
    then have "R = []" using pushed_all [of n zss] by (simp add: R_def T_def tops)
    with False length_srt [of le "[]"] show ?thesis by (simp add: zs_def)
  qed
  ultimately show ?thesis by (auto simp: window_def T_def)
qed

end

text \<open>The plan of a LIMIT and the clause it pushes agree: the pushed clause asks for the rows up to the end of the window.\<close>

lemma LimitPlan_pushed:
  assumes "LimitPlan_Build (Some l) = Inr (plan, pushed)" "0 \<le> lpOffset plan" "0 \<le> lpLimit plan"
    and "lpOffset plan + lpLimit plan < 2 ^ 63"
  shows "\<exists>p. pushed = Some p \<and> liOffset p = None \<and> limit_number (liRowcount p) = Inr (lpOffset plan + lpLimit plan)"
proof -
  from assms(1) have p: "pushed = Some \<lparr>liOffset = None, liRowcount =
      Some (SQLValE \<lparr>svType = IntVal, svVal = sprintf_d (int64 (lpOffset plan + lpLimit plan))\<rparr>)\<rparr>"
    by (auto simp: LimitPlan_Build_def rbind_eq_Inr)
  have "int64 (lpOffset plan + lpLimit plan) = lpOffset plan + lpLimit plan" using assms(2-4) by (intro int64_id) auto
  with assms(2-4) show ?thesis by (simp add: p limit_number_def go_atoi_sprintf_d)
qed

text \<open>C30: ORDER BY with LIMIT over shards. Let the planner push its clause, every shard answer its query with
  the first rows of some ordering of its rows, up to the pushed count, and the results be appended.
  Then sorting and cutting them is an answer to the original clause over all the rows, whatever
  \<open>sort.Slice\<close> does with ties, with the columns that were added for sorting removed.\<close>

theorem order_limit_pushdown:
  assumes "sorts srt" "LimitPlan_Build (Some l) = Inr (plan, Some pushed)" "0 \<le> lpOffset plan" "0 \<le> lpLimit plan"
    and "lpOffset plan + lpLimit plan < 2 ^ 63" "limit_number (liRowcount pushed) = Inr n"
    and "resolve (rsFields rs) (opOrderBys p) = (ks, True)"
    and "keys_order (arCompare ar) (map fst ks) (set (concat shards))"
    and "list_all2 (window (keys_le (arCompare ar) ks) 0 (nat n)) shards tops" "rsRows rs = concat tops" "Result_ok rs"
  shows "\<exists>rs' out. ExecSubPlan srt ar [ChildOrderby p, ChildLimit plan] rs = Inr rs'
    \<and> rsRows rs' = map (drop_idxs (opRemovedIdxs p)) out
    \<and> window (keys_le (arCompare ar) ks) (nat (lpOffset plan)) (nat (lpLimit plan)) (concat shards) out"
proof -
  let ?le = "keys_le (arCompare ar) ks" and ?o = "nat (lpOffset plan)" and ?l = "nat (lpLimit plan)"
  have "nat n = ?o + ?l" using LimitPlan_pushed [OF assms(2-5)] assms(3,4,6) by (auto simp: nat_add_distrib)
  with assms(9) have "window ?le ?o ?l (concat shards) (take ?l (drop ?o (srt ?le (concat tops))))"
    by (intro slice_sorting.window_pushed slice_sorting.intro assms(1) keys_le_preorder assms(8)) simp
  moreover have "map (drop_idxs []) rows = rows" for rows :: "row list" by (simp add: drop_idxs_def map_idI)
  ultimately show ?thesis
    using assms(7,10) Result_Limit_nonneg [OF assms(3-5)]
    by (cases "opRemovedIdxs p = []")
      (auto simp: OrderBy_Execute_def Limit_Execute_def RemoveColumns_def drop_map take_map
        intro!: exI [of _ "take ?l (drop ?o (srt ?le (concat tops)))"])
qed

text \<open>\<open>SELECT a FROM t ORDER BY a DESC LIMIT 1, 2\<close> over two shards.\<close>

definition demo_limit :: Limit where
  "demo_limit = \<lparr>liOffset = Some (SQLValE \<lparr>svType = IntVal, svVal = ''1''\<rparr>),
     liRowcount = Some (SQLValE \<lparr>svType = IntVal, svVal = ''2''\<rparr>)\<rparr>"

definition demo_order :: OrderByPlan where
  "demo_order = \<lparr>opOrderBys = [\<lparr>obField = ''a'', obTable = [], obDirection = DESC\<rparr>], opRemovedIdxs = []\<rparr>"

definition demo_shards :: "row list list" where
  "demo_shards = [[[VSigned 3], [VSigned 9], [VSigned 5], [VSigned 1]], [[VSigned 7]]]"

definition demo_tops :: "row list list" where
  "demo_tops = [[[VSigned 9], [VSigned 5], [VSigned 3]], [[VSigned 7]]]"

definition demo_merged :: Result where
  "demo_merged = \<lparr>rsFields = [demo_field ''a''], rsRowsAffected = 4, rsInsertID = 0, rsRows = concat demo_tops\<rparr>"

definition demo_pushed :: Limit where
  "demo_pushed = \<lparr>liOffset = None, liRowcount = Some (SQLValE \<lparr>svType = IntVal, svVal = ''3''\<rparr>)\<rparr>"

lemma demo_limit_plan: "LimitPlan_Build (Some demo_limit) = Inr (\<lparr>lpOffset = 1, lpLimit = 2\<rparr>, Some demo_pushed)"
  by code_simp

lemma demo_tops_window: "list_all2 (window (keys_le (\<lambda>_ _. 0) [(0, True)]) 0 3) demo_shards demo_tops"
proof -
  have "window (keys_le (\<lambda>_ _. 0) [(0, True)]) 0 3
      [[VSigned 3], [VSigned 9], [VSigned 5], [VSigned 1]] [[VSigned 9], [VSigned 5], [VSigned 3]]"
    unfolding window_def
    by (rule exI [of _ "[[VSigned 9], [VSigned 5], [VSigned 3], [VSigned 1]]"])
      (simp add: NullsafeCompare_def compareNumeric_def compare_ord_def)
  moreover have "window (keys_le (\<lambda>_ _. 0) [(0, True)]) 0 3 [[VSigned 7]] [[VSigned 7]]"
    unfolding window_def by (rule exI [of _ "[[VSigned 7]]"]) simp
  ultimately show ?thesis by (simp add: demo_shards_def demo_tops_def)
qed

theorem order_limit_pushdown_witness:
  "\<exists>rs' out. ExecSubPlan insertion_sort demo_arith [ChildOrderby demo_order, ChildLimit \<lparr>lpOffset = 1, lpLimit = 2\<rparr>] demo_merged = Inr rs'
    \<and> rsRows rs' = map (drop_idxs []) out \<and> window (keys_le (\<lambda>_ _. 0) [(0, True)]) 1 2 (concat demo_shards) out"
proof -
  have "limit_number (liRowcount demo_pushed) = Inr 3" by code_simp
  moreover have "keys_order (arCompare demo_arith) (map fst [(0, True)]) (set (concat demo_shards))"
    unfolding keys_order_def by (auto simp: demo_shards_def intro!: NullsafeCompare_ints)
  ultimately show ?thesis
    using order_limit_pushdown [OF sorts_insertion_sort demo_limit_plan, of 3 demo_merged demo_order "[(0, True)]" demo_arith
        demo_shards demo_tops] demo_tops_window
    by (simp add: demo_merged_def demo_order_def demo_field_def demo_arith_def Result_ok_def demo_tops_def)
qed

text \<open>C39: the sum of offset and count is computed in 64 bits. \<open>LIMIT 1, 9223372036854775807\<close> is accepted, the
  shards are asked for \<open>-9223372036854775808\<close> rows, and the LIMIT operator panics on every result.\<close>

theorem limit_overflow_panics:
  "\<exists>plan. LimitPlan_Build (Some \<lparr>liOffset = Some (SQLValE \<lparr>svType = IntVal, svVal = ''1''\<rparr>),
      liRowcount = Some (SQLValE \<lparr>svType = IntVal, svVal = ''9223372036854775807''\<rparr>)\<rparr>) =
        Inr (plan, Some \<lparr>liOffset = None, liRowcount = Some (SQLValE \<lparr>svType = IntVal, svVal = ''-9223372036854775808''\<rparr>)\<rparr>)
    \<and> (\<forall>rs. Limit_Execute plan rs = Inl (GoPanic ''slice bounds out of range''))"
proof -
  let ?plan = "\<lparr>lpOffset = 1, lpLimit = 9223372036854775807\<rparr>"
  have max: "sprintf_d 9223372036854775807 = ''9223372036854775807''"
    by (simp add: sprintf_d_def dec_string.simps digit_char_def char_of_def bit_0)
  have min: "sprintf_d (- 9223372036854775808) = ''-9223372036854775808''"
    by (simp add: sprintf_d_def dec_string.simps digit_char_def char_of_def bit_0)
  have one: "go_atoi ''1'' = Some 1" by code_simp
  have "go_atoi ''9223372036854775807'' = Some 9223372036854775807"
    using go_atoi_sprintf_d [of 9223372036854775807] by (simp add: max)
  then have "LimitPlan_Build (Some \<lparr>liOffset = Some (SQLValE \<lparr>svType = IntVal, svVal = ''1''\<rparr>),
      liRowcount = Some (SQLValE \<lparr>svType = IntVal, svVal = ''9223372036854775807''\<rparr>)\<rparr>) =
        Inr (?plan, Some \<lparr>liOffset = None, liRowcount = Some (SQLValE \<lparr>svType = IntVal, svVal = ''-9223372036854775808''\<rparr>)\<rparr>)"
    using one min
    by (simp add: LimitPlan_Build_def LimitPlan_analyze_def int_literal_def limit_number_def int64_def)
  moreover have "Limit_Execute ?plan rs = Inl (GoPanic ''slice bounds out of range'')" for rs
    by (simp add: Limit_Execute_def Result_Limit_def int64_def Let_def)
  ultimately show ?thesis by blast
qed

end
