(* ===== verification/Radon_Join.thy ===== *)
theory Radon_Join
  imports Radon_Operator
begin

section \<open>Joins\<close>

text \<open>
  \<open>src/src/executor/engine/merge_join.go\<close> and the row functions of \<open>join_engine.go\<close>. The workers of
  \<open>concatLeftAndRight\<close> append to the result under a mutex, in any order; the model takes the order of
  the loop that starts them, and the theorem is about the multiset of the rows, which no order changes.
\<close>

datatype JoinStrategy = Cartesian | SortMerge | NestLoop

record Comparison =
  cfLeft :: nat
  cfRight :: nat
  cfOperator :: string
  cfExchange :: bool

record JoinNode =
  jnStrategy :: JoinStrategy
  jnLeftKeys :: "nat list"
  jnRightKeys :: "nat list"
  jnCols :: "int list"
  jnCmpFilter :: "Comparison list"
  jnLeftTmpCols :: "nat list"
  jnRightTmpCols :: "nat list"
  jnVars :: "(string \<times> nat) list"
  jnIsLeftJoin :: bool
  jnHasRightFilter :: bool

subsection \<open>Rows\<close>

text \<open>A negative column number counts the left row's columns from 1, a positive one the right row's.\<close>

definition joinRows :: "row \<Rightarrow> row option \<Rightarrow> int list \<Rightarrow> row" where
  "joinRows lrow rrow cols =
     map (\<lambda>index. if index < 0 then lrow ! nat (- index - 1)
                  else case rrow of None \<Rightarrow> VNull | Some r \<Rightarrow> r ! nat (index - 1)) cols"

definition joinFields :: "Field list \<Rightarrow> Field list \<Rightarrow> int list \<Rightarrow> Field list" where
  "joinFields lfields rfields cols =
     map (\<lambda>index. if index < 0 then lfields ! nat (- index - 1) else rfields ! nat (index - 1)) cols"

definition join_limit :: go_err where
  "join_limit = GoError ''unsupported: join.row.count.exceeded.allowed.limit.of.'' "

text \<open>One row is appended, and the limit is checked after it.\<close>

definition emit :: "int \<Rightarrow> row \<Rightarrow> Result \<Rightarrow> Result res" where
  "emit maxrow row res =
     (let res' = res\<lparr>rsRows := rsRows res @ [row], rsRowsAffected := rsRowsAffected res + 1\<rparr>
      in if maxrow < int (length (rsRows res')) then Inl join_limit else Inr res')"

definition concatLeftAndNil :: "row list \<Rightarrow> JoinNode \<Rightarrow> int \<Rightarrow> Result \<Rightarrow> Result res" where
  "concatLeftAndNil lrows node maxrow res =
     (if jnIsLeftJoin node \<and> \<not> jnHasRightFilter node
      then fold_res (\<lambda>row. emit maxrow (joinRows row None (jnCols node))) lrows res
      else Inr res)"

definition cmp_match :: "string \<Rightarrow> int \<Rightarrow> bool" where
  "cmp_match operator cmp =
     (if operator = EqualStr then cmp = 0
      else if operator = LessThanStr then cmp = - 1
      else if operator = GreaterThanStr then cmp = 1
      else if operator = LessEqualStr then cmp \<noteq> 1
      else if operator = GreaterEqualStr then cmp \<noteq> - 1
      else if operator = NotEqualStr then cmp \<noteq> 0
      else if operator = NullSafeEqualStr then cmp = 0
      else True)"

definition filter_match :: "num_compare \<Rightarrow> row \<Rightarrow> row \<Rightarrow> Comparison \<Rightarrow> bool" where
  "filter_match ncmp lrow rrow f =
     (let v1 = lrow ! cfLeft f; v2 = rrow ! cfRight f;
          cmp = (if cfExchange f then NullsafeCompare ncmp v2 v1 else NullsafeCompare ncmp v1 v2)
      in cmp_match (cfOperator f) cmp \<and> (cfOperator f = NullSafeEqualStr \<or> v1 \<noteq> VNull \<and> v2 \<noteq> VNull))"

definition left_match :: "arith \<Rightarrow> JoinNode \<Rightarrow> row \<Rightarrow> bool" where
  "left_match ar node lrow = list_all (\<lambda>idx. CastToBool ar (lrow ! idx)) (jnLeftTmpCols node)"

definition right_null :: "JoinNode \<Rightarrow> row \<Rightarrow> bool" where
  "right_null node rrow = list_all (\<lambda>idx. rrow ! idx = VNull) (jnRightTmpCols node)"

text \<open>The work for one left row: the pairs that match, or the left row alone.\<close>

definition mathOps :: "arith \<Rightarrow> JoinNode \<Rightarrow> int \<Rightarrow> row list \<Rightarrow> row \<Rightarrow> Result \<Rightarrow> Result res" where
  "mathOps ar node maxrow rrows lrow res =
     (let matched = (if left_match ar node lrow
                     then filter (\<lambda>rrow. list_all (filter_match (arCompare ar) lrow rrow) (jnCmpFilter node)) rrows
                     else [])
      in rbind (fold_res (\<lambda>rrow res. if right_null node rrow then emit maxrow (joinRows lrow (Some rrow) (jnCols node)) res
                                     else Inr res) matched res)
           (\<lambda>res. if matched = [] \<and> jnIsLeftJoin node \<and> \<not> jnHasRightFilter node
                  then emit maxrow (joinRows lrow None (jnCols node)) res else Inr res))"

definition concatLeftAndRight :: "arith \<Rightarrow> row list \<Rightarrow> row list \<Rightarrow> JoinNode \<Rightarrow> int \<Rightarrow> Result \<Rightarrow> Result res" where
  "concatLeftAndRight ar lrows rrows node maxrow res = fold_res (mathOps ar node maxrow rrows) lrows res"

subsection \<open>Sort-merge join\<close>

text \<open>
  A cursor is the chunk of rows with the current key and the rows after it. \<open>fetchSameKeyRows\<close> takes
  the next chunk; without join keys all rows are one chunk.
\<close>

definition fetchSameKeyRows :: "num_compare \<Rightarrow> nat list \<Rightarrow> row list \<Rightarrow> row list option \<times> row list" where
  "fetchSameKeyRows ncmp joins rows =
     (case rows of
        [] \<Rightarrow> (None, [])
      | current # rest \<Rightarrow>
          if joins = [] then (Some rows, [])
          else (Some (current # takeWhile (keysEqual ncmp joins current) rest), dropWhile (keysEqual ncmp joins current) rest))"

text \<open>The comparison of the keys of two chunks, and whether it stopped at a null.\<close>

fun compare_keys :: "num_compare \<Rightarrow> (nat \<times> nat) list \<Rightarrow> row \<Rightarrow> row \<Rightarrow> int \<times> bool" where
  "compare_keys ncmp [] l r = (0, False)"
| "compare_keys ncmp ((li, ri) # ks) l r =
     (let cmp = NullsafeCompare ncmp (l ! li) (r ! ri)
      in if cmp \<noteq> 0 then (cmp, False)
         else if l ! li = VNull then (0, True)
         else compare_keys ncmp ks l r)"

fun cursor_size :: "row list option \<times> row list \<Rightarrow> nat" where
  "cursor_size (None, rest) = 0"
| "cursor_size (Some _, rest) = Suc (length rest)"

lemma cursor_fetch: "cursor_size (fetchSameKeyRows ncmp joins rest) \<le> length rest"
  by (cases rest) (auto simp: fetchSameKeyRows_def length_dropWhile_le)

function merge_loop ::
  "arith \<Rightarrow> JoinNode \<Rightarrow> int \<Rightarrow> row list option \<times> row list \<Rightarrow> row list option \<times> row list \<Rightarrow> Result \<Rightarrow> Result res" where
  "merge_loop ar node maxrow (None, lrest) r res = Inr res"
| "merge_loop ar node maxrow (Some lrows, lrest) (None, rrest) res = concatLeftAndNil (lrows @ lrest) node maxrow res"
| "merge_loop ar node maxrow (Some lrows, lrest) (Some rrows, rrest) res =
     (let lnext = fetchSameKeyRows (arCompare ar) (jnLeftKeys node) lrest;
          rnext = fetchSameKeyRows (arCompare ar) (jnRightKeys node) rrest;
          (cmp, isNull) = compare_keys (arCompare ar) (zip (jnLeftKeys node) (jnRightKeys node)) (hd lrows) (hd rrows)
      in if cmp = 0 then
           rbind (if isNull then concatLeftAndNil lrows node maxrow res
                  else concatLeftAndRight ar lrows rrows node maxrow res)
             (merge_loop ar node maxrow lnext rnext)
         else if 0 < cmp then merge_loop ar node maxrow (Some lrows, lrest) rnext res
         else rbind (concatLeftAndNil lrows node maxrow res) (merge_loop ar node maxrow lnext (Some rrows, rrest)))"
  by pat_completeness auto
termination
  by (relation "measure (\<lambda>(ar, node, maxrow, l, r, res). cursor_size l + cursor_size r)")
    (auto simp: le_imp_less_Suc cursor_fetch add_le_mono add_less_le_mono less_Suc_eq_le intro!: le_SucI add_mono)

definition mergeJoin :: "arith \<Rightarrow> row list \<Rightarrow> row list \<Rightarrow> JoinNode \<Rightarrow> int \<Rightarrow> Result \<Rightarrow> Result res" where
  "mergeJoin ar lrows rrows node maxrow res =
     merge_loop ar node maxrow (fetchSameKeyRows (arCompare ar) (jnLeftKeys node) lrows)
       (fetchSameKeyRows (arCompare ar) (jnRightKeys node) rrows) res"

definition sortMergeJoin :: "row slice_sort \<Rightarrow> arith \<Rightarrow> row list \<Rightarrow> row list \<Rightarrow> JoinNode \<Rightarrow> int \<Rightarrow> Result \<Rightarrow> Result res" where
  "sortMergeJoin srt ar lrows rrows node maxrow res =
     mergeJoin ar (srt (keys_le (arCompare ar) (map (\<lambda>i. (i, False)) (jnLeftKeys node))) lrows)
       (srt (keys_le (arCompare ar) (map (\<lambda>i. (i, False)) (jnRightKeys node))) rrows) node maxrow res"

definition cartesianProduct :: "row list \<Rightarrow> row list \<Rightarrow> JoinNode \<Rightarrow> int \<Rightarrow> Result \<Rightarrow> Result res" where
  "cartesianProduct lrows rrows node maxrow res =
     fold_res (\<lambda>lrow. fold_res (\<lambda>rrow. emit maxrow (joinRows lrow (Some rrow) (jnCols node))) rrows) lrows res"

subsection \<open>Rows that are emitted\<close>

text \<open>
  Every function above is an emission of a list of rows. The limit is exceeded exactly when the rows
  are too many, so it does not depend on their order.
\<close>

definition emit_all :: "int \<Rightarrow> row list \<Rightarrow> Result \<Rightarrow> Result res" where
  "emit_all maxrow rows = fold_res (emit maxrow) rows"

lemma concat_map_Nil [simp]: "concat (map (\<lambda>_. []) xs) = []"
  by (induction xs) simp_all

lemma emit_all_Nil [simp]: "emit_all maxrow [] res = Inr res"
  by (simp add: emit_all_def)

lemma emit_all_append: "emit_all maxrow (xs @ ys) res = rbind (emit_all maxrow xs res) (emit_all maxrow ys)"
  by (simp add: emit_all_def fold_res_append)

lemma emit_all_one: "emit maxrow row res = emit_all maxrow [row] res"
  by (cases "emit maxrow row res") (simp_all add: emit_all_def)

lemma emit_all_eq:
  "emit_all maxrow rows res =
     (if rows \<noteq> [] \<and> maxrow < int (length (rsRows res) + length rows) then Inl join_limit
      else Inr (res\<lparr>rsRows := rsRows res @ rows, rsRowsAffected := rsRowsAffected res + of_nat (length rows)\<rparr>))"
proof (induction rows arbitrary: res)
  case (Cons row rows)
  have "emit_all maxrow (row # rows) res = rbind (emit maxrow row res) (emit_all maxrow rows)"
    by (simp add: emit_all_def)
  then show ?case by (auto simp: Cons.IH emit_def Let_def add.assoc)
qed simp

lemma fold_res_emit_all:
  assumes "\<And>x res. x \<in> set xs \<Longrightarrow> f x res = emit_all maxrow (g x) res"
  shows "fold_res f xs res = emit_all maxrow (concat (map g xs)) res"
  using assms
proof (induction xs arbitrary: res)
  case (Cons x xs)
  then have "fold_res f xs = emit_all maxrow (concat (map g xs))" by (intro ext) simp
  with Cons.prems show ?case by (simp add: emit_all_append)
qed simp

definition outer_row :: "JoinNode \<Rightarrow> row \<Rightarrow> row list" where
  "outer_row node lrow =
     (if jnIsLeftJoin node \<and> \<not> jnHasRightFilter node then [joinRows lrow None (jnCols node)] else [])"

definition pairs :: "arith \<Rightarrow> JoinNode \<Rightarrow> row list \<Rightarrow> row \<Rightarrow> row list" where
  "pairs ar node rrows lrow =
     (let matched = (if left_match ar node lrow
                     then filter (\<lambda>rrow. list_all (filter_match (arCompare ar) lrow rrow) (jnCmpFilter node)) rrows
                     else [])
      in if matched = [] then outer_row node lrow
         else map (\<lambda>rrow. joinRows lrow (Some rrow) (jnCols node)) (filter (right_null node) matched))"

lemma concatLeftAndNil_emits:
  "concatLeftAndNil lrows node maxrow res = emit_all maxrow (concat (map (outer_row node) lrows)) res"
proof (cases "jnIsLeftJoin node \<and> \<not> jnHasRightFilter node")
  case True
  then show ?thesis
    by (simp add: concatLeftAndNil_def) (rule fold_res_emit_all, simp add: outer_row_def emit_all_one)
next
  case False
  then have "outer_row node = (\<lambda>_. [])" by (auto simp: outer_row_def)
  with False show ?thesis by (auto simp: concatLeftAndNil_def)
qed

lemma emits_matches:
  "fold_res (\<lambda>r res. if right_null node r then emit maxrow (joinRows l (Some r) (jnCols node)) res else Inr res) rs res
     = emit_all maxrow (map (\<lambda>r. joinRows l (Some r) (jnCols node)) (filter (right_null node) rs)) res"
proof -
  have "concat (map (\<lambda>r. if right_null node r then [joinRows l (Some r) (jnCols node)] else []) rs)
      = map (\<lambda>r. joinRows l (Some r) (jnCols node)) (filter (right_null node) rs)"
    by (induction rs) auto
  moreover have "fold_res (\<lambda>r res. if right_null node r then emit maxrow (joinRows l (Some r) (jnCols node)) res else Inr res) rs res
      = emit_all maxrow (concat (map (\<lambda>r. if right_null node r then [joinRows l (Some r) (jnCols node)] else []) rs)) res"
    by (rule fold_res_emit_all) (simp add: emit_all_one)
  ultimately show ?thesis by simp
qed

lemma mathOps_emits: "mathOps ar node maxrow rrows lrow res = emit_all maxrow (pairs ar node rrows lrow) res"
proof -
  define matched where "matched = (if left_match ar node lrow
    then filter (\<lambda>rrow. list_all (filter_match (arCompare ar) lrow rrow) (jnCmpFilter node)) rrows else [])"
  show ?thesis
    by (auto simp: mathOps_def pairs_def Let_def matched_def [symmetric] outer_row_def emit_all_one emits_matches)
qed

lemma concatLeftAndRight_emits:
  "concatLeftAndRight ar lrows rrows node maxrow res = emit_all maxrow (concat (map (pairs ar node rrows) lrows)) res"
  unfolding concatLeftAndRight_def by (rule fold_res_emit_all) (rule mathOps_emits)

text \<open>The rows the loop emits, by recursion on the rows that are left on both sides.\<close>

function merge_rows :: "arith \<Rightarrow> JoinNode \<Rightarrow> row list \<Rightarrow> row list \<Rightarrow> row list" where
  "merge_rows ar node [] rs = []"
| "merge_rows ar node (l # ls) [] = concat (map (outer_row node) (l # ls))"
| "merge_rows ar node (l # ls) (r # rs) =
     (let lk = keysEqual (arCompare ar) (jnLeftKeys node) l; rk = keysEqual (arCompare ar) (jnRightKeys node) r;
          lg = l # takeWhile lk ls; lrest = dropWhile lk ls; rg = r # takeWhile rk rs; rrest = dropWhile rk rs;
          (cmp, isNull) = compare_keys (arCompare ar) (zip (jnLeftKeys node) (jnRightKeys node)) l r
      in if cmp = 0
         then concat (map (if isNull then outer_row node else pairs ar node rg) lg) @ merge_rows ar node lrest rrest
         else if 0 < cmp then merge_rows ar node (l # ls) rrest
         else concat (map (outer_row node) lg) @ merge_rows ar node lrest (r # rs))"
  by pat_completeness auto
termination
  by (relation "measure (\<lambda>(ar, node, ls, rs). length ls + length rs)")
    (auto simp: le_imp_less_Suc less_Suc_eq_le length_dropWhile_le intro!: le_SucI add_mono)

lemma fetch_Cons:
  "fetchSameKeyRows ncmp joins (x # xs) =
     (Some (x # takeWhile (keysEqual ncmp joins x) xs), dropWhile (keysEqual ncmp joins x) xs)"
  by (cases "joins = []")
    (simp_all add: fetchSameKeyRows_def keysEqual_def takeWhile_eq_all_conv [THEN iffD2] dropWhile_eq_Nil_conv [THEN iffD2])

lemma merge_loop_emits:
  "merge_loop ar node maxrow (fetchSameKeyRows (arCompare ar) (jnLeftKeys node) ls)
     (fetchSameKeyRows (arCompare ar) (jnRightKeys node) rs) res = emit_all maxrow (merge_rows ar node ls rs) res"
proof (induction ar node ls rs arbitrary: res rule: merge_rows.induct)
  case (1 ar node rs)
  then show ?case by (simp add: fetchSameKeyRows_def [of _ _ "[]"])
next
  case (2 ar node l ls)
  then show ?case
    by (simp add: fetchSameKeyRows_def [of _ _ "[]"] fetch_Cons concatLeftAndNil_emits flip: map_append)
next
  case (3 ar node l ls r rs)
  obtain cmp isNull where c: "compare_keys (arCompare ar) (zip (jnLeftKeys node) (jnRightKeys node)) l r = (cmp, isNull)"
    by force
  let ?lrest = "dropWhile (keysEqual (arCompare ar) (jnLeftKeys node) l) ls"
  let ?rrest = "dropWhile (keysEqual (arCompare ar) (jnRightKeys node) r) rs"
  let ?loop = "\<lambda>ls rs. merge_loop ar node maxrow (fetchSameKeyRows (arCompare ar) (jnLeftKeys node) ls)
    (fetchSameKeyRows (arCompare ar) (jnRightKeys node) rs)"
  note ih = "3.IH" [OF refl refl refl refl refl refl c [symmetric] refl]
  consider "cmp = 0" | "0 < cmp" | "cmp < 0" by linarith
  then show ?case
  proof cases
    case 1
    then have "?loop ?lrest ?rrest = emit_all maxrow (merge_rows ar node ?lrest ?rrest)" by (intro ext ih(1))
    with 1 show ?thesis
      by (simp add: fetch_Cons c Let_def emit_all_append concatLeftAndNil_emits concatLeftAndRight_emits
          del: concat.simps list.map)
  next
    case 2
    then have "?loop (l # ls) ?rrest = emit_all maxrow (merge_rows ar node (l # ls) ?rrest)" by (intro ext ih(2)) auto
    with 2 show ?thesis by (simp add: fetch_Cons c Let_def)
  next
    case 3
    then have "?loop ?lrest (r # rs) = emit_all maxrow (merge_rows ar node ?lrest (r # rs))" by (intro ext ih(3)) auto
    with 3 show ?thesis
      by (simp add: fetch_Cons c Let_def emit_all_append concatLeftAndNil_emits del: concat.simps list.map)
  qed
qed

subsection \<open>Comparison of keys\<close>

definition key :: "nat list \<Rightarrow> row \<Rightarrow> Value list" where
  "key idxs row = map (\<lambda>i. row ! i) idxs"

fun lex :: "num_compare \<Rightarrow> Value list \<Rightarrow> Value list \<Rightarrow> int" where
  "lex ncmp (a # as) (b # bs) = (let c = NullsafeCompare ncmp a b in if c = 0 then lex ncmp as bs else c)"
| "lex ncmp _ _ = 0"

lemma lex_keysEqual: "keysEqual ncmp idxs a b \<longleftrightarrow> lex ncmp (key idxs a) (key idxs b) = 0"
  by (induction idxs) (auto simp: keysEqual_def key_def Let_def)

lemma lex_keys_le:
  "keys_le ncmp (map (\<lambda>i. (i, False)) idxs) a b \<longleftrightarrow> lex ncmp (key idxs a) (key idxs b) \<le> 0"
  by (induction idxs) (auto simp: key_def Let_def)

lemma lex_sym:
  assumes "length a = length b" "\<forall>p < length a. cmp_order (NullsafeCompare ncmp) {a ! p, b ! p}"
  shows "lex ncmp b a = - lex ncmp a b"
  using assms
proof (induction a b rule: list_induct2)
  case (Cons x xs y ys)
  have "\<forall>p < length xs. cmp_order (NullsafeCompare ncmp) {xs ! p, ys ! p}" using Cons.prems by fastforce
  moreover have "NullsafeCompare ncmp y x = - NullsafeCompare ncmp x y"
    using Cons.prems cmp_order_sym [of "NullsafeCompare ncmp" "{x, y}" x y] by fastforce
  ultimately show ?case using Cons.IH by (simp add: Let_def)
qed simp

lemma lex_trans:
  assumes "length a = length b" "length b = length c"
    and "\<forall>p < length a. cmp_order (NullsafeCompare ncmp) {a ! p, b ! p, c ! p}"
    and "lex ncmp a b \<le> 0" "lex ncmp b c \<le> 0"
  shows "lex ncmp a c \<le> 0"
  using assms
proof (induction a b c rule: list_induct3)
  case (Cons x xs y ys z zs)
  let ?c = "NullsafeCompare ncmp"
  have o: "cmp_order ?c {x, y, z}" using Cons.prems(1) by fastforce
  have "\<forall>p < length xs. cmp_order ?c {xs ! p, ys ! p, zs ! p}" using Cons.prems(1) by fastforce
  then have ih: "lex ncmp xs zs \<le> 0" if "lex ncmp xs ys \<le> 0" "lex ncmp ys zs \<le> 0" using Cons.IH that by blast
  have le: "?c x y \<le> 0" "?c y z \<le> 0" using Cons.prems(2,3) by (auto simp: Let_def split: if_splits)
  moreover from cmp_order_trans [OF o _ _ _ this] have "?c x z \<le> 0" by simp
  moreover have "?c x y = 0 \<and> ?c y z = 0" if z: "?c x z = 0"
  proof -
    have "?c x y < 0 \<Longrightarrow> ?c x z < 0" by (rule cmp_order_less_le [OF o _ _ _ _ le(2)]) simp_all
    moreover have "?c y z < 0 \<Longrightarrow> ?c x z < 0" by (rule cmp_order_le_less [OF o _ _ _ le(1)]) simp_all
    ultimately show ?thesis using z le by (metis le_less less_irrefl)
  qed
  ultimately show ?case using ih Cons.prems(2,3) by (auto simp: Let_def split: if_splits)
qed simp

text \<open>Key columns that compare as orders make the lexicographic comparison one.\<close>

lemma lex_order:
  assumes "\<forall>k \<in> K. length k = n" "\<forall>p < n. cmp_order (NullsafeCompare ncmp) ((\<lambda>k. k ! p) ` K)"
  shows "cmp_order (lex ncmp) K"
proof -
  have cols: "\<forall>p < n. cmp_order (NullsafeCompare ncmp) {a ! p, b ! p, c ! p}" if "a \<in> K" "b \<in> K" "c \<in> K" for a b c
  proof (intro allI impI)
    fix p assume "p < n"
    with assms(2) have "cmp_order (NullsafeCompare ncmp) ((\<lambda>k. k ! p) ` K)" by blast
    then show "cmp_order (NullsafeCompare ncmp) {a ! p, b ! p, c ! p}" by (rule cmp_order_mono) (use that in auto)
  qed
  show ?thesis unfolding cmp_order_def
  proof (intro conjI ballI impI)
    fix a b assume "a \<in> K" "b \<in> K"
    with lex_sym [of a b] cols [of a b b] assms(1) show "lex ncmp b a = - lex ncmp a b" by simp
  next
    fix a b c assume "a \<in> K" "b \<in> K" "c \<in> K" "lex ncmp a b \<le> 0" "lex ncmp b c \<le> 0"
    with lex_trans [of a b c] cols [of a b c] assms(1) show "lex ncmp a c \<le> 0" by simp
  qed
qed

lemma compare_keys_lex:
  assumes "length lks = length rks" "compare_keys ncmp (zip lks rks) l r = (cmp, isNull)"
  shows "if isNull then cmp = 0 \<and> VNull \<in> set (key lks l) \<and> VNull \<in> set (key rks r)
    else cmp = lex ncmp (key lks l) (key rks r) \<and> (cmp = 0 \<longrightarrow> VNull \<notin> set (key lks l))"
  using assms
proof (induction lks rks rule: list_induct2)
  case (Cons li lks ri rks)
  have null: "r ! ri = VNull" if "NullsafeCompare ncmp VNull (r ! ri) = 0"
    using that by (simp add: NullsafeCompare_def split: if_splits)
  show ?case
    using Cons null by (auto simp: key_def Let_def split: if_splits)
qed (simp add: key_def)

subsection \<open>The reference: a nested loop\<close>

text \<open>Rows whose keys are equal and not null, and what the join returns for a left row.\<close>

definition key_match :: "num_compare \<Rightarrow> JoinNode \<Rightarrow> row \<Rightarrow> row \<Rightarrow> bool" where
  "key_match ncmp node l r \<longleftrightarrow>
     list_all2 (\<lambda>a b. NullsafeCompare ncmp a b = 0 \<and> a \<noteq> VNull) (key (jnLeftKeys node) l) (key (jnRightKeys node) r)"

definition nested_loop :: "arith \<Rightarrow> JoinNode \<Rightarrow> row list \<Rightarrow> row list \<Rightarrow> row list" where
  "nested_loop ar node ls rs = concat (map (\<lambda>l. pairs ar node (filter (key_match (arCompare ar) node l) rs) l) ls)"

lemma key_match_lex:
  assumes "length (jnLeftKeys node) = length (jnRightKeys node)"
  shows "key_match ncmp node l r \<longleftrightarrow>
    lex ncmp (key (jnLeftKeys node) l) (key (jnRightKeys node) r) = 0 \<and> VNull \<notin> set (key (jnLeftKeys node) l)"
proof -
  have "list_all2 (\<lambda>a b. NullsafeCompare ncmp a b = 0 \<and> a \<noteq> VNull) as bs \<longleftrightarrow> lex ncmp as bs = 0 \<and> VNull \<notin> set as"
    if "length as = length bs" for as bs
    using that by (induction as bs rule: list_induct2) (auto simp: Let_def)
  then show ?thesis using assms by (simp add: key_match_def key_def)
qed

lemma pairs_Nil: "pairs ar node [] l = outer_row node l"
  by (simp add: pairs_def)

lemma filter_none: "(\<And>x. x \<in> set xs \<Longrightarrow> \<not> P x) \<Longrightarrow> filter P xs = []"
  by (simp add: filter_empty_conv)

lemma lex_preorder:
  assumes "cmp_order (lex ncmp) K" "key idxs ` S \<subseteq> K"
  shows "total_preorder (keys_le ncmp (map (\<lambda>i. (i, False)) idxs)) S"
  unfolding total_preorder_def lex_keys_le
proof (intro conjI ballI impI)
  fix a b assume "a \<in> S" "b \<in> S"
  with assms(2) cmp_order_sym [OF assms(1), of "key idxs a" "key idxs b"]
  show "lex ncmp (key idxs a) (key idxs b) \<le> 0 \<or> lex ncmp (key idxs b) (key idxs a) \<le> 0" by force
next
  fix a b c assume "a \<in> S" "b \<in> S" "c \<in> S"
    "lex ncmp (key idxs a) (key idxs b) \<le> 0" "lex ncmp (key idxs b) (key idxs c) \<le> 0"
  with assms(2) cmp_order_trans [OF assms(1), of "key idxs a" "key idxs b" "key idxs c"]
  show "lex ncmp (key idxs a) (key idxs c) \<le> 0" by blast
qed

text \<open>The first chunk of a sorted list of rows, and the rows after it.\<close>

lemma sorted_chunk:
  assumes "cmp_order (lex ncmp) K" "key idxs ` set (x # xs) \<subseteq> K"
    and "sorted_wrt (keys_le ncmp (map (\<lambda>i. (i, False)) idxs)) (x # xs)"
  shows "a \<in> set (x # takeWhile (keysEqual ncmp idxs x) xs) \<Longrightarrow> lex ncmp (key idxs x) (key idxs a) = 0"
    and "b \<in> set (dropWhile (keysEqual ncmp idxs x) xs) \<Longrightarrow> lex ncmp (key idxs x) (key idxs b) < 0"
    and "sorted_wrt (keys_le ncmp (map (\<lambda>i. (i, False)) idxs)) (dropWhile (keysEqual ncmp idxs x) xs)"
proof -
  let ?le = "keys_le ncmp (map (\<lambda>i. (i, False)) idxs)" and ?eq = "keysEqual ncmp idxs"
  show "sorted_wrt ?le (dropWhile (?eq x) xs)"
    using assms(3) by (metis sorted_wrt.simps(2) sorted_wrt_append takeWhile_dropWhile_id)
  show "lex ncmp (key idxs x) (key idxs a) = 0" if "a \<in> set (x # takeWhile (?eq x) xs)"
    using that assms(2) cmp_order_refl [OF assms(1)] by (auto simp: lex_keysEqual dest: set_takeWhileD)
  note pre = lex_preorder [OF assms(1,2)]
  have eq: "?eq a b \<longleftrightarrow> ?le a b \<and> ?le b a" if "a \<in> set (x # xs)" "b \<in> set (x # xs)" for a b
  proof -
    have "lex ncmp (key idxs b) (key idxs a) = - lex ncmp (key idxs a) (key idxs b)"
      by (rule cmp_order_sym [OF assms(1)]) (use assms(2) that in blast)+
    then show ?thesis by (auto simp: lex_keysEqual lex_keys_le)
  qed
  show "lex ncmp (key idxs x) (key idxs b) < 0" if "b \<in> set (dropWhile (?eq x) xs)"
  proof -
    have "sorted_wrt (\<lambda>g h. \<forall>a \<in> set g. \<forall>b \<in> set h. \<not> ?eq a b) (runs ?eq (x # xs))"
      using runs_sorted [OF pre eq subset_refl assms(3)] by blast
    then have "\<forall>h \<in> set (runs ?eq (dropWhile (?eq x) xs)). \<forall>b \<in> set h. \<not> ?eq x b"
      unfolding runs.simps sorted_wrt.simps list.set by blast
    moreover have "b \<in> set (concat (runs ?eq (dropWhile (?eq x) xs)))" using that by (simp only: concat_runs)
    ultimately have "\<not> ?eq x b" by auto
    moreover have "?le x b" using assms(3) that by (auto dest: set_dropWhileD)
    ultimately show ?thesis by (simp add: lex_keysEqual lex_keys_le)
  qed
qed

lemma cmp_order_chain:
  assumes "cmp_order cmp K" "a \<in> K" "b \<in> K" "c \<in> K" "d \<in> K" "cmp a b \<le> 0" "cmp b c < 0" "cmp c d \<le> 0"
  shows "cmp a d < 0" "cmp d a > 0"
proof -
  show "cmp a d < 0"
    by (rule cmp_order_less_le [OF assms(1,2,4,5) cmp_order_le_less [OF assms(1-4,6,7)] assms(8)])
  with cmp_order_sym [OF assms(1,2,5)] show "cmp d a > 0" by simp
qed

text \<open>A null in one of two equal keys is a null in the other.\<close>

lemma NullsafeCompare_null: "NullsafeCompare ncmp a b = 0 \<Longrightarrow> a = VNull \<longleftrightarrow> b = VNull"
  by (auto simp: NullsafeCompare_def split: if_splits)

lemma lex_null: "length a = length b \<Longrightarrow> lex ncmp a b = 0 \<Longrightarrow> VNull \<in> set a \<longleftrightarrow> VNull \<in> set b"
proof (induction a b rule: list_induct2)
  case (Cons x xs y ys)
  then show ?case using NullsafeCompare_null [of ncmp x y] by (auto simp: Let_def split: if_splits)
qed simp

lemma length_key [simp]: "length (key idxs row) = length idxs"
  by (simp add: key_def)

text \<open>Rows of one side that match no row of the other contribute nothing to the pairs.\<close>

lemma nested_loop_append: "nested_loop ar node (xs @ ys) rs = nested_loop ar node xs rs @ nested_loop ar node ys rs"
  by (simp add: nested_loop_def)

lemma nested_loop_cong:
  assumes "\<And>l. l \<in> set ls \<Longrightarrow> filter (key_match (arCompare ar) node l) rs = filter (key_match (arCompare ar) node l) rs'"
  shows "nested_loop ar node ls rs = nested_loop ar node ls rs'"
proof -
  have "map (\<lambda>l. pairs ar node (filter (key_match (arCompare ar) node l) rs) l) ls
      = map (\<lambda>l. pairs ar node (filter (key_match (arCompare ar) node l) rs') l) ls"
    by (rule map_cong) (simp_all add: assms)
  then show ?thesis by (simp only: nested_loop_def)
qed

lemma nested_loop_skip:
  assumes "\<And>l r. l \<in> set ls \<Longrightarrow> r \<in> set rg \<Longrightarrow> \<not> key_match (arCompare ar) node l r"
  shows "nested_loop ar node ls (rg @ rs) = nested_loop ar node ls rs"
  by (rule nested_loop_cong) (use assms in \<open>simp add: filter_none\<close>)

lemma nested_loop_none:
  assumes "\<And>l r. l \<in> set ls \<Longrightarrow> r \<in> set rs \<Longrightarrow> \<not> key_match (arCompare ar) node l r"
  shows "nested_loop ar node ls rs = concat (map (outer_row node) ls)"
proof -
  have "nested_loop ar node ls rs = nested_loop ar node ls []"
    by (rule nested_loop_cong) (use assms in \<open>simp add: filter_none\<close>)
  then show ?thesis by (simp add: nested_loop_def pairs_Nil)
qed

lemma nested_loop_all:
  assumes "\<And>l r. l \<in> set ls \<Longrightarrow> r \<in> set rg \<Longrightarrow> key_match (arCompare ar) node l r"
    and "\<And>l r. l \<in> set ls \<Longrightarrow> r \<in> set rs \<Longrightarrow> \<not> key_match (arCompare ar) node l r"
  shows "nested_loop ar node ls (rg @ rs) = concat (map (pairs ar node rg) ls)"
proof -
  have "map (\<lambda>l. pairs ar node (filter (key_match (arCompare ar) node l) (rg @ rs)) l) ls = map (pairs ar node rg) ls"
  proof (rule map_cong [OF refl])
    fix l assume "l \<in> set ls"
    then have "filter (key_match (arCompare ar) node l) rg = rg" "filter (key_match (arCompare ar) node l) rs = []"
      using assms by (simp_all add: filter_id_conv filter_empty_conv)
    then show "pairs ar node (filter (key_match (arCompare ar) node l) (rg @ rs)) l = pairs ar node rg l" by simp
  qed
  then show ?thesis by (simp only: nested_loop_def)
qed

text \<open>
  One turn of the loop: \<open>lg\<close> is the left chunk with the key of \<open>l\<close>, \<open>rg\<close> the right chunk with the key
  of \<open>r\<close>, and the rows after them have larger keys.
\<close>

definition chunk :: "num_compare \<Rightarrow> nat list \<Rightarrow> row \<Rightarrow> row list \<Rightarrow> row list \<Rightarrow> bool" where
  "chunk ncmp idxs x g rest \<longleftrightarrow>
     (\<forall>a \<in> set g. lex ncmp (key idxs x) (key idxs a) = 0) \<and> (\<forall>b \<in> set rest. lex ncmp (key idxs x) (key idxs b) < 0)"

lemma chunkD:
  assumes "cmp_order (lex ncmp) K" "chunk ncmp idxs x g rest" "key idxs ` set (x # g @ rest) \<subseteq> K"
  shows "a \<in> set g \<Longrightarrow> lex ncmp (key idxs a) (key idxs x) = 0"
    and "b \<in> set (g @ rest) \<Longrightarrow> lex ncmp (key idxs x) (key idxs b) \<le> 0"
proof -
  show "lex ncmp (key idxs a) (key idxs x) = 0" if "a \<in> set g"
    using cmp_order_sym [OF assms(1), of "key idxs x" "key idxs a"] assms(2,3) that by (auto simp: chunk_def)
  show "lex ncmp (key idxs x) (key idxs b) \<le> 0" if "b \<in> set (g @ rest)"
    using assms(2) that by (auto simp: chunk_def order.strict_implies_order)
qed

lemma chunk_null: "chunk ncmp idxs x g rest \<Longrightarrow> a \<in> set g \<Longrightarrow> VNull \<in> set (key idxs x) \<longleftrightarrow> VNull \<in> set (key idxs a)"
  by (rule lex_null [of _ _ ncmp]) (simp_all add: chunk_def)

lemma chunk_less:
  assumes "cmp_order (lex ncmp) K"
    and "chunk ncmp ix x g rest" "key ix ` set (x # g @ rest) \<subseteq> K"
    and "chunk ncmp iy y h rest'" "key iy ` set (y # h @ rest') \<subseteq> K"
    and "lex ncmp (key ix x) (key iy y) < 0" "a \<in> set g" "b \<in> set (h @ rest')"
  shows "lex ncmp (key ix a) (key iy b) < 0" "lex ncmp (key iy b) (key ix a) > 0"
proof -
  have "key ix a \<in> K" "key ix x \<in> K" "key iy y \<in> K" "key iy b \<in> K" using assms(3,5,7,8) by auto
  from cmp_order_chain [OF assms(1) this _ assms(6) chunkD(2) [OF assms(1,4,5,8)]] chunkD(1) [OF assms(1-3,7)]
  show "lex ncmp (key ix a) (key iy b) < 0" "lex ncmp (key iy b) (key ix a) > 0" by simp_all
qed

lemma chunk_equal:
  assumes "cmp_order (lex ncmp) K"
    and "chunk ncmp ix x g rest" "key ix ` set (x # g @ rest) \<subseteq> K"
    and "chunk ncmp iy y h rest'" "key iy ` set (y # h @ rest') \<subseteq> K"
    and "lex ncmp (key ix x) (key iy y) = 0" "a \<in> set g"
  shows "b \<in> set h \<Longrightarrow> lex ncmp (key ix a) (key iy b) = 0"
    and "b \<in> set rest' \<Longrightarrow> lex ncmp (key ix a) (key iy b) < 0"
    and "b \<in> set rest' \<Longrightarrow> lex ncmp (key iy b) (key ix a) > 0"
proof -
  have a: "key ix a \<in> K" "key ix x \<in> K" "key iy y \<in> K" using assms(3,5,7) by auto
  have ay: "lex ncmp (key ix a) (key iy y) = 0"
    using cmp_order_eq_left(3) [OF assms(1) a chunkD(1) [OF assms(1-3,7)]] assms(6) by simp
  show "lex ncmp (key ix a) (key iy b) = 0" if "b \<in> set h"
  proof -
    from that have "key iy b \<in> K" using assms(5) by auto
    with cmp_order_eq_left(3) [OF assms(1) a(1,3) this ay] assms(4) that show ?thesis by (simp add: chunk_def)
  qed
  have less: "lex ncmp (key ix a) (key iy b) < 0 \<and> lex ncmp (key iy b) (key ix a) > 0" if "b \<in> set rest'"
  proof -
    from that have b: "key iy b \<in> K" "lex ncmp (key iy y) (key iy b) < 0" using assms(4,5) by (auto simp: chunk_def)
    have "lex ncmp (key iy b) (key iy b) \<le> 0" using cmp_order_refl [OF assms(1) b(1)] by simp
    from cmp_order_chain [OF assms(1) a(1,3) b(1) b(1) _ b(2) this] ay show ?thesis by simp
  qed
  then show "b \<in> set rest' \<Longrightarrow> lex ncmp (key ix a) (key iy b) < 0"
    and "b \<in> set rest' \<Longrightarrow> lex ncmp (key iy b) (key ix a) > 0" by simp_all
qed

lemma merge_turn:
  assumes "cmp_order (lex (arCompare ar)) K" and len: "length (jnLeftKeys node) = length (jnRightKeys node)"
    and "chunk (arCompare ar) (jnLeftKeys node) l lg lrest" "key (jnLeftKeys node) ` set (l # lg @ lrest) \<subseteq> K"
    and "chunk (arCompare ar) (jnRightKeys node) r rg rrest" "key (jnRightKeys node) ` set (r # rg @ rrest) \<subseteq> K"
    and "compare_keys (arCompare ar) (zip (jnLeftKeys node) (jnRightKeys node)) l r = (cmp, isNull)"
  shows "nested_loop ar node (lg @ lrest) (rg @ rrest) =
    (if cmp = 0
     then concat (map (if isNull then outer_row node else pairs ar node rg) lg) @ nested_loop ar node lrest rrest
     else if 0 < cmp then nested_loop ar node (lg @ lrest) rrest
     else concat (map (outer_row node) lg) @ nested_loop ar node lrest (rg @ rrest))"
proof -
  let ?lex = "\<lambda>l r. lex (arCompare ar) (key (jnLeftKeys node) l) (key (jnRightKeys node) r)"
  note m = key_match_lex [OF len, of "arCompare ar"]
  note c = compare_keys_lex [OF len assms(7)]
  consider "isNull" | "\<not> isNull" "cmp = 0" | "\<not> isNull" "0 < cmp" | "\<not> isNull" "cmp < 0" by linarith
  then show ?thesis
  proof cases
    case 1
    with c have n: "cmp = 0" "VNull \<in> set (key (jnLeftKeys node) l)" "VNull \<in> set (key (jnRightKeys node) r)" by simp_all
    have "VNull \<in> set (key (jnLeftKeys node) a)" if "a \<in> set lg" for a
      using chunk_null [OF assms(3) that] n(2) by simp
    then have no: "\<not> key_match (arCompare ar) node a b" if "a \<in> set lg" for a b using that m by blast
    have "VNull \<in> set (key (jnRightKeys node) b)" if "b \<in> set rg" for b
      using chunk_null [OF assms(5) that] n(3) by simp
    then have "\<not> key_match (arCompare ar) node a b" if "b \<in> set rg" for a b
      using that m lex_null [of "key (jnLeftKeys node) a" "key (jnRightKeys node) b"] len by auto
    with no 1 n(1) show ?thesis by (simp add: nested_loop_append nested_loop_none nested_loop_skip)
  next
    case 2
    with c have e: "?lex l r = 0" "VNull \<notin> set (key (jnLeftKeys node) l)" by simp_all
    have e': "lex (arCompare ar) (key (jnRightKeys node) r) (key (jnLeftKeys node) l) = 0"
      using cmp_order_sym [OF assms(1), of "key (jnLeftKeys node) l" "key (jnRightKeys node) r"] assms(4,6) e(1) by simp
    have "VNull \<notin> set (key (jnLeftKeys node) a)" if "a \<in> set lg" for a
      using chunk_null [OF assms(3) that] e(2) by simp
    then have yes: "key_match (arCompare ar) node a b" if "a \<in> set lg" "b \<in> set rg" for a b
      using chunk_equal(1) [OF assms(1,3-6) e(1) that] that m by blast
    have no: "\<not> key_match (arCompare ar) node a b" if "a \<in> set lg" "b \<in> set rrest" for a b
      using chunk_equal(2) [OF assms(1,3-6) e(1) that] m by simp
    have "\<not> key_match (arCompare ar) node a b" if "a \<in> set lrest" "b \<in> set rg" for a b
      using chunk_equal(3) [OF assms(1,5,6,3,4) e' that(2,1)] m by simp
    with yes no 2 show ?thesis by (simp add: nested_loop_append nested_loop_all nested_loop_skip)
  next
    case 3
    with c have "lex (arCompare ar) (key (jnRightKeys node) r) (key (jnLeftKeys node) l) < 0"
      using cmp_order_sym [OF assms(1), of "key (jnLeftKeys node) l" "key (jnRightKeys node) r"] assms(4,6) by simp
    from chunk_less(2) [OF assms(1,5,6,3,4) this] m
    have "\<not> key_match (arCompare ar) node a b" if "a \<in> set (lg @ lrest)" "b \<in> set rg" for a b using that by force
    with 3 show ?thesis by (simp add: nested_loop_skip del: set_append)
  next
    case 4
    with c have "?lex l r < 0" by simp
    from chunk_less(1) [OF assms(1,3-6) this] m
    have "\<not> key_match (arCompare ar) node a b" if "a \<in> set lg" "b \<in> set (rg @ rrest)" for a b using that by force
    with 4 show ?thesis by (simp add: nested_loop_append nested_loop_none del: set_append)
  qed
qed

lemma merge_rows_nested:
  assumes "cmp_order (lex (arCompare ar)) K" "length (jnLeftKeys node) = length (jnRightKeys node)"
    and "key (jnLeftKeys node) ` set ls \<subseteq> K" "key (jnRightKeys node) ` set rs \<subseteq> K"
    and "sorted_wrt (keys_le (arCompare ar) (map (\<lambda>i. (i, False)) (jnLeftKeys node))) ls"
    and "sorted_wrt (keys_le (arCompare ar) (map (\<lambda>i. (i, False)) (jnRightKeys node))) rs"
  shows "merge_rows ar node ls rs = nested_loop ar node ls rs"
  using assms
proof (induction ar node ls rs rule: merge_rows.induct)
  case (1 ar node rs)
  then show ?case by (simp add: nested_loop_def)
next
  case (2 ar node l ls)
  then show ?case by (simp add: nested_loop_def pairs_Nil)
next
  case (3 ar node l ls r rs)
  obtain cmp isNull where c: "compare_keys (arCompare ar) (zip (jnLeftKeys node) (jnRightKeys node)) l r = (cmp, isNull)"
    by force
  let ?lk = "keysEqual (arCompare ar) (jnLeftKeys node) l" and ?rk = "keysEqual (arCompare ar) (jnRightKeys node) r"
  note ih = "3.IH" [OF refl refl refl refl refl refl c [symmetric] refl]
  have sub: "set (dropWhile ?lk ls) \<subseteq> set (l # ls)" "set (dropWhile ?rk rs) \<subseteq> set (r # rs)"
    by (auto dest: set_dropWhileD)
  have split: "(l # takeWhile ?lk ls) @ dropWhile ?lk ls = l # ls" "(r # takeWhile ?rk rs) @ dropWhile ?rk rs = r # rs"
    by simp_all
  have "set (l # (l # takeWhile ?lk ls) @ dropWhile ?lk ls) = set (l # ls)"
    "set (r # (r # takeWhile ?rk rs) @ dropWhile ?rk rs) = set (r # rs)" unfolding split by simp_all
  then have dup: "key (jnLeftKeys node) ` set (l # (l # takeWhile ?lk ls) @ dropWhile ?lk ls) \<subseteq> K"
    "key (jnRightKeys node) ` set (r # (r # takeWhile ?rk rs) @ dropWhile ?rk rs) \<subseteq> K"
    using "3.prems"(3,4) by (simp_all only:)
  note lc = sorted_chunk [OF "3.prems"(1,3,5)] and rc = sorted_chunk [OF "3.prems"(1,4,6)]
  have "chunk (arCompare ar) (jnLeftKeys node) l (l # takeWhile ?lk ls) (dropWhile ?lk ls)"
    using lc(1,2) unfolding chunk_def by blast
  moreover have "chunk (arCompare ar) (jnRightKeys node) r (r # takeWhile ?rk rs) (dropWhile ?rk rs)"
    using rc(1,2) unfolding chunk_def by blast
  ultimately have turn: "nested_loop ar node (l # ls) (r # rs) =
    (if cmp = 0
     then concat (map (if isNull then outer_row node else pairs ar node (r # takeWhile ?rk rs)) (l # takeWhile ?lk ls))
       @ nested_loop ar node (dropWhile ?lk ls) (dropWhile ?rk rs)
     else if 0 < cmp then nested_loop ar node (l # ls) (dropWhile ?rk rs)
     else concat (map (outer_row node) (l # takeWhile ?lk ls)) @ nested_loop ar node (dropWhile ?lk ls) (r # rs))"
    by (rule merge_turn [OF "3.prems"(1,2) _ dup(1) _ dup(2) c, unfolded split])
  have lsub: "key (jnLeftKeys node) ` set (dropWhile ?lk ls) \<subseteq> K" and rsub: "key (jnRightKeys node) ` set (dropWhile ?rk rs) \<subseteq> K"
    by (rule order.trans [OF image_mono [OF sub(1)] "3.prems"(3)], rule order.trans [OF image_mono [OF sub(2)] "3.prems"(4)])
  note k = "3.prems"(1,2)
  consider "cmp = 0" | "0 < cmp" | "cmp < 0" by linarith
  then show ?case
  proof cases
    case 1
    from 1 ih(1) [OF 1 k lsub rsub lc(3) rc(3)] show ?thesis unfolding turn by (simp add: c Let_def)
  next
    case 2
    then have "merge_rows ar node (l # ls) (dropWhile ?rk rs) = nested_loop ar node (l # ls) (dropWhile ?rk rs)"
      by (intro ih(2) k rsub rc(3) "3.prems"(3,5)) auto
    with 2 show ?thesis unfolding turn by (simp add: c Let_def)
  next
    case 3
    then have "merge_rows ar node (dropWhile ?lk ls) (r # rs) = nested_loop ar node (dropWhile ?lk ls) (r # rs)"
      by (intro ih(3) k lsub lc(3) "3.prems"(4,6)) auto
    with 3 show ?thesis unfolding turn by (simp add: c Let_def)
  qed
qed

text \<open>The order of the rows does not matter to the nested loop.\<close>

lemma pairs_mset: "mset rs = mset rs' \<Longrightarrow> mset (pairs ar node rs l) = mset (pairs ar node rs' l)"
proof -
  assume eq: "mset rs = mset rs'"
  define m where "m rs = (if left_match ar node l
    then filter (\<lambda>rrow. list_all (filter_match (arCompare ar) l rrow) (jnCmpFilter node)) rs else [])" for rs
  have "mset (m rs) = mset (m rs')" using eq by (simp add: m_def)
  moreover from this have "m rs = [] \<longleftrightarrow> m rs' = []" by (metis mset_zero_iff)
  ultimately show ?thesis by (simp add: pairs_def m_def [symmetric])
qed

lemma nested_loop_mset:
  assumes "mset ls = mset ls'" "mset rs = mset rs'"
  shows "mset (nested_loop ar node ls rs) = mset (nested_loop ar node ls' rs')"
proof -
  have "mset (pairs ar node (filter (key_match (arCompare ar) node l) rs) l)
      = mset (pairs ar node (filter (key_match (arCompare ar) node l) rs') l)" for l
    by (rule pairs_mset) (simp add: assms(2))
  then show ?thesis by (simp add: nested_loop_def mset_concat_map assms(1))
qed

subsection \<open>The sort-merge join is the nested loop\<close>

text \<open>
  The column numbers of the node lie within the rows, as the planner takes them from the fields of the
  two sides, and every pair of key columns holds values that compare as one order.
\<close>

definition cols_ok :: "JoinNode \<Rightarrow> row \<Rightarrow> row \<Rightarrow> bool" where
  "cols_ok node l r \<longleftrightarrow>
     (\<forall>c \<in> set (jnCols node). c \<noteq> 0 \<and> - int (length l) \<le> c \<and> c \<le> int (length r))
     \<and> (\<forall>i \<in> set (jnLeftKeys node @ jnLeftTmpCols node). i < length l)
     \<and> (\<forall>i \<in> set (jnRightKeys node @ jnRightTmpCols node). i < length r)
     \<and> (\<forall>f \<in> set (jnCmpFilter node). cfLeft f < length l \<and> cfRight f < length r)"

definition join_ok :: "num_compare \<Rightarrow> JoinNode \<Rightarrow> row list \<Rightarrow> row list \<Rightarrow> bool" where
  "join_ok ncmp node ls rs \<longleftrightarrow>
     length (jnLeftKeys node) = length (jnRightKeys node) \<and> (\<forall>l \<in> set ls. \<forall>r \<in> set rs. cols_ok node l r)
     \<and> (\<forall>p < length (jnLeftKeys node). cmp_order (NullsafeCompare ncmp)
          ((\<lambda>l. l ! (jnLeftKeys node ! p)) ` set ls \<union> (\<lambda>r. r ! (jnRightKeys node ! p)) ` set rs))"

lemma join_ok_order:
  assumes "join_ok ncmp node ls rs"
  shows "cmp_order (lex ncmp) (key (jnLeftKeys node) ` set ls \<union> key (jnRightKeys node) ` set rs)"
proof (rule lex_order)
  show "\<forall>k \<in> key (jnLeftKeys node) ` set ls \<union> key (jnRightKeys node) ` set rs. length k = length (jnLeftKeys node)"
    using assms by (auto simp: join_ok_def)
  have "(\<lambda>k. k ! p) ` (key (jnLeftKeys node) ` set ls \<union> key (jnRightKeys node) ` set rs)
      = (\<lambda>l. l ! (jnLeftKeys node ! p)) ` set ls \<union> (\<lambda>r. r ! (jnRightKeys node ! p)) ` set rs"
    if "p < length (jnLeftKeys node)" for p
    using assms that by (simp add: join_ok_def key_def image_Un image_image)
  then show "\<forall>p < length (jnLeftKeys node). cmp_order (NullsafeCompare ncmp)
      ((\<lambda>k. k ! p) ` (key (jnLeftKeys node) ` set ls \<union> key (jnRightKeys node) ` set rs))"
    using assms by (simp add: join_ok_def)
qed

lemma sortMergeJoin_emits:
  assumes "sorts srt" "join_ok (arCompare ar) node ls rs"
  shows "\<exists>rows. sortMergeJoin srt ar ls rs node maxrow res = emit_all maxrow rows res \<and> mset rows = mset (nested_loop ar node ls rs)"
proof -
  let ?le = "\<lambda>keys. keys_le (arCompare ar) (map (\<lambda>i. (i, False)) keys)"
  let ?L = "srt (?le (jnLeftKeys node)) ls" and ?R = "srt (?le (jnRightKeys node)) rs"
  note s = slice_sorting.intro [OF assms(1)] and o = join_ok_order [OF assms(2)]
  have "sorted_wrt (?le (jnLeftKeys node)) ?L" "sorted_wrt (?le (jnRightKeys node)) ?R"
    by (intro slice_sorting.sorted_srt [OF s] lex_preorder [OF o] Un_upper1 Un_upper2)+
  moreover have "length (jnLeftKeys node) = length (jnRightKeys node)" using assms(2) by (simp add: join_ok_def)
  ultimately have "merge_rows ar node ?L ?R = nested_loop ar node ?L ?R"
    by (intro merge_rows_nested [OF o]) (auto simp: slice_sorting.set_srt [OF s])
  then have "sortMergeJoin srt ar ls rs node maxrow res = emit_all maxrow (nested_loop ar node ?L ?R) res"
    by (simp add: sortMergeJoin_def mergeJoin_def merge_loop_emits)
  moreover have "mset (nested_loop ar node ?L ?R) = mset (nested_loop ar node ls rs)"
    by (intro nested_loop_mset slice_sorting.mset_srt [OF s])
  ultimately show ?thesis by blast
qed


text \<open>\<open>t1 LEFT JOIN t2 ON t1.a = t2.a\<close> with a null, a match and a left row without one.\<close>

definition demo_join :: "bool \<Rightarrow> JoinNode" where
  "demo_join left = \<lparr>jnStrategy = SortMerge, jnLeftKeys = [0], jnRightKeys = [0], jnCols = [-1, 1], jnCmpFilter = [],
     jnLeftTmpCols = [], jnRightTmpCols = [], jnVars = [], jnIsLeftJoin = left, jnHasRightFilter = False\<rparr>"

definition demo_left :: "row list" where
  "demo_left = [[VSigned 3], [VNull], [VSigned 1]]"

definition demo_right :: "row list" where
  "demo_right = [[VNull], [VSigned 3], [VSigned 2], [VSigned 3]]"

lemmas demo_join_defs = demo_join_def demo_left_def demo_right_def demo_arith_def

lemma demo_nested_loop: "nested_loop demo_arith (demo_join True) demo_left demo_right =
    [[VSigned 3, VSigned 3], [VSigned 3, VSigned 3], [VNull, VNull], [VSigned 1, VNull]]"
  by code_simp


text \<open>
  The comparison of a text with a number reads the text as a number. One concrete comparison of this
  kind, on the texts that are decimal numbers:
\<close>

fun number_of :: "Value \<Rightarrow> int" where
  "number_of (VSigned i) = i"
| "number_of (VText s) = (case go_atoi s of Some i \<Rightarrow> i | None \<Rightarrow> 0)"
| "number_of v = 0"

definition mixed_arith :: arith where
  "mixed_arith = demo_arith\<lparr>arCompare := \<lambda>a b. compare_ord (number_of a) (number_of b)\<rparr>"


end
