(* ===== verification/Radon_Where.thy ===== *)
theory Radon_Where
  imports Radon_Router
begin

section \<open>Routing from the WHERE clause\<close>

text \<open>
  \<open>src/src/planner/builder/expr.go\<close>: the conjuncts of a condition, the rewriting of a disjunction of
  equalities into \<open>IN\<close>, and \<open>LookupFromWhere\<close>, which picks the segments a statement is sent to.
\<close>

fun skipParenthesis :: "expr \<Rightarrow> expr" where
  "skipParenthesis (ParenExpr e) = skipParenthesis e"
| "skipParenthesis e = e"

fun splitAndExpression :: "expr list \<Rightarrow> expr \<Rightarrow> expr list" where
  "splitAndExpression filters (AndExpr l r) = splitAndExpression (splitAndExpression filters l) r"
| "splitAndExpression filters (ParenExpr (AndExpr l r)) =
     splitAndExpression (splitAndExpression filters l) r"
| "splitAndExpression filters node = filters @ [node]"

text \<open>
  The map from column to values is keyed by the pointer of the first column of a name; two keys are
  never equal in the sense of \<open>ColName.Equal\<close>, so the column itself stands for its pointer.
\<close>

type_synonym in_map = "(ColName \<times> expr list) list"

definition checkColInMap :: "in_map \<Rightarrow> ColName \<Rightarrow> ColName" where
  "checkColInMap inMap col =
     (case find (\<lambda>(k, _). ColName_Equal col k) inMap of None \<Rightarrow> col | Some (k, _) \<Rightarrow> k)"

definition add_val :: "in_map \<Rightarrow> ColName \<Rightarrow> expr \<Rightarrow> in_map" where
  "add_val inMap c val =
     (let col = checkColInMap inMap c
      in AList.update col ((case map_of inMap col of None \<Rightarrow> [] | Some vs \<Rightarrow> vs) @ [val]) inMap)"

text \<open>The column and value of an equality that can join an \<open>IN\<close> list.\<close>

definition col_val :: "expr \<Rightarrow> expr \<Rightarrow> (ColName \<times> SQLVal) option" where
  "col_val l r =
     (case l of
        ColNameE lc \<Rightarrow> (case r of SQLValE v \<Rightarrow> Some (lc, v) | _ \<Rightarrow> None)
      | SQLValE v \<Rightarrow> (case r of ColNameE rc \<Rightarrow> Some (rc, v) | _ \<Rightarrow> None)
      | _ \<Rightarrow> None)"

lemma skipParenthesis_size [termination_simp]: "size (skipParenthesis e) \<le> size e"
  by (induction e rule: skipParenthesis.induct) auto

fun splitOrExpression :: "expr \<Rightarrow> in_map \<Rightarrow> expr list \<times> in_map" where
  "splitOrExpression (OrExpr l r) inMap =
     (let (ls, m1) = splitOrExpression l inMap; (rs, m2) = splitOrExpression r m1 in (ls @ rs, m2))"
| "splitOrExpression (ComparisonExpr op l r esc) inMap =
     (case (if op = EqualStr then col_val l r else None) of
        Some (c, val) \<Rightarrow> ([], add_val inMap c (SQLValE val))
      | None \<Rightarrow> ([ComparisonExpr op l r esc], inMap))"
| "splitOrExpression (ParenExpr e) inMap = splitOrExpression (skipParenthesis (ParenExpr e)) inMap"
| "splitOrExpression e inMap = ([e], inMap)"

definition rebuildOr :: "expr option \<Rightarrow> expr \<Rightarrow> expr option" where
  "rebuildOr node e = Some (case node of None \<Rightarrow> e | Some n \<Rightarrow> OrExpr n e)"

text \<open>\<open>visit\<close> is the order in which \<open>range\<close> visits the map.\<close>

definition convertOrToIn :: "(in_map \<Rightarrow> in_map) \<Rightarrow> expr \<Rightarrow> expr" where
  "convertOrToIn visit node =
     (case node of
        OrExpr l r \<Rightarrow>
          (let (subExprs, inMap) = splitOrExpression node [];
               result = fold (\<lambda>subExpr result. rebuildOr result subExpr) subExprs None;
               result' = fold (\<lambda>(k, v) result. rebuildOr result (ComparisonExpr InStr (ColNameE k) (ValTuple v) None))
                           (visit inMap) result
           in the result')
      | _ \<Rightarrow> node)"

fun nameMatch :: "expr \<Rightarrow> string \<Rightarrow> string \<Rightarrow> bool" where
  "nameMatch (ColNameE c) table shardkey \<longleftrightarrow>
     (tnName (cnQualifier c) = [] \<or> tnName (cnQualifier c) = table) \<and> equal_fold (cnName c) shardkey"
| "nameMatch _ table shardkey \<longleftrightarrow> False"

text \<open>The loop over the values of an \<open>IN\<close> list: \<open>None\<close> when a value is not a literal.\<close>

fun in_indexes :: "float_conv \<Rightarrow> Router \<Rightarrow> string \<Rightarrow> string \<Rightarrow> expr list \<Rightarrow> int list \<Rightarrow> int list option res" where
  "in_indexes pf r database table [] idxs = Inr (Some idxs)"
| "in_indexes pf r database table (val # vals) idxs =
     (case val of
        SQLValE sqlVal \<Rightarrow>
          rbind (Router_GetIndex pf r database table sqlVal) (\<lambda>idx.
            in_indexes pf r database table vals (idxs @ [idx]))
      | _ \<Rightarrow> Inr None)"

definition lookup_in :: "float_conv \<Rightarrow> Router \<Rightarrow> string \<Rightarrow> string \<Rightarrow> expr list \<Rightarrow> Segment list res" where
  "lookup_in pf r database table vals =
     rbind (in_indexes pf r database table vals []) (\<lambda>idxs.
       case idxs of
         None \<Rightarrow> Router_Lookup pf r database table None None
       | Some idxs \<Rightarrow> Router_GetSegments r database table idxs)"

text \<open>One conjunct: \<open>None\<close> when it says nothing about the shard key and the loop goes on.\<close>

definition filter_lookup ::
  "float_conv \<Rightarrow> Router \<Rightarrow> string \<Rightarrow> string \<Rightarrow> string \<Rightarrow> expr \<Rightarrow> Segment list res option" where
  "filter_lookup pf r database table shardkey flt =
     (case flt of
        ComparisonExpr op left right esc \<Rightarrow>
          if op = EqualStr \<and> nameMatch left table shardkey then
            (case right of
               SQLValE sqlval \<Rightarrow> Some (Router_Lookup pf r database table (Some sqlval) (Some sqlval))
             | _ \<Rightarrow> None)
          else if op = InStr \<and> nameMatch left table shardkey then
            (case right of ValTuple vals \<Rightarrow> Some (lookup_in pf r database table vals) | _ \<Rightarrow> None)
          else None
      | _ \<Rightarrow> None)"

fun lookup_filters ::
  "(in_map \<Rightarrow> in_map) \<Rightarrow> float_conv \<Rightarrow> Router \<Rightarrow> string \<Rightarrow> string \<Rightarrow> string \<Rightarrow> expr list \<Rightarrow> Segment list res" where
  "lookup_filters visit pf r database table shardkey [] = Router_Lookup pf r database table None None"
| "lookup_filters visit pf r database table shardkey (f # fs) =
     (case filter_lookup pf r database table shardkey (convertOrToIn visit (skipParenthesis f)) of
        Some res \<Rightarrow> res
      | None \<Rightarrow> lookup_filters visit pf r database table shardkey fs)"

definition LookupFromWhere ::
  "(in_map \<Rightarrow> in_map) \<Rightarrow> float_conv \<Rightarrow> Router \<Rightarrow> string \<Rightarrow> string \<Rightarrow> string \<Rightarrow> expr option \<Rightarrow> Segment list res" where
  "LookupFromWhere visit pf r database table shardkey where_clause =
     (case where_clause of
        Some e \<Rightarrow>
          if shardkey \<noteq> [] then lookup_filters visit pf r database table shardkey (splitAndExpression [] e)
          else Router_Lookup pf r database table None None
      | None \<Rightarrow> Router_Lookup pf r database table None None)"

subsection \<open>When a row satisfies a condition\<close>

text \<open>
  \<open>sat A E e\<close>: the condition evaluates to TRUE for a row. \<open>E c v\<close> says that the row's column \<open>c\<close> equals the
  literal \<open>v\<close>; every condition that is not built from conjunction, disjunction, parentheses,
  equality with a literal and \<open>IN\<close> is an atom, and \<open>A\<close> is its value, whatever it is.
\<close>

definition col_in :: "expr \<Rightarrow> expr \<Rightarrow> (ColName \<times> expr list) option" where
  "col_in l r =
     (case l of ColNameE c \<Rightarrow> (case r of ValTuple vs \<Rightarrow> Some (c, vs) | _ \<Rightarrow> None) | _ \<Rightarrow> None)"

definition in_sat :: "(expr \<Rightarrow> bool) \<Rightarrow> (ColName \<Rightarrow> SQLVal \<Rightarrow> bool) \<Rightarrow> ColName \<Rightarrow> expr list \<Rightarrow> bool" where
  "in_sat A E c vs \<longleftrightarrow>
     (\<exists>x \<in> set vs. case x of SQLValE v \<Rightarrow> E c v | _ \<Rightarrow> A (ComparisonExpr EqualStr (ColNameE c) x None))"

fun sat :: "(expr \<Rightarrow> bool) \<Rightarrow> (ColName \<Rightarrow> SQLVal \<Rightarrow> bool) \<Rightarrow> expr \<Rightarrow> bool" where
  "sat A E (AndExpr l r) \<longleftrightarrow> sat A E l \<and> sat A E r"
| "sat A E (OrExpr l r) \<longleftrightarrow> sat A E l \<or> sat A E r"
| "sat A E (ParenExpr e) \<longleftrightarrow> sat A E e"
| "sat A E (ComparisonExpr op l r esc) \<longleftrightarrow>
     (if op = EqualStr then
        (case col_val l r of Some (c, v) \<Rightarrow> E c v | None \<Rightarrow> A (ComparisonExpr op l r esc))
      else if op = InStr then
        (case col_in l r of Some (c, vs) \<Rightarrow> in_sat A E c vs | None \<Rightarrow> A (ComparisonExpr op l r esc))
      else A (ComparisonExpr op l r esc))"
| "sat A E e \<longleftrightarrow> A e"

text \<open>Column references that \<open>ColName.Equal\<close> identifies are the same column.\<close>

definition respects_names :: "(ColName \<Rightarrow> SQLVal \<Rightarrow> bool) \<Rightarrow> bool" where
  "respects_names E \<longleftrightarrow> (\<forall>c c' v. ColName_Equal c c' \<longrightarrow> E c v = E c' v)"

lemma sat_skipParenthesis [simp]: "sat A E (skipParenthesis e) = sat A E e"
  by (induction e rule: skipParenthesis.induct) auto

lemma sat_splitAndExpression:
  "list_all (sat A E) (splitAndExpression fs e) \<longleftrightarrow> list_all (sat A E) fs \<and> sat A E e"
  by (induction fs e rule: splitAndExpression.induct) auto

text \<open>What the map of equalities says of the row.\<close>

definition in_map_sat :: "(ColName \<Rightarrow> SQLVal \<Rightarrow> bool) \<Rightarrow> in_map \<Rightarrow> bool" where
  "in_map_sat E m \<longleftrightarrow> (\<exists>e \<in> set m. \<exists>v. SQLValE v \<in> set (snd e) \<and> E (fst e) v)"

text \<open>The lists of the map hold literals, and its keys are distinct.\<close>

definition in_map_ok :: "in_map \<Rightarrow> bool" where
  "in_map_ok m \<longleftrightarrow> distinct_keys m \<and> (\<forall>(k, vs) \<in> set m. vs \<noteq> [] \<and> (\<forall>x \<in> set vs. \<exists>v. x = SQLValE v))"

lemma checkColInMap_equal: "respects_names E \<Longrightarrow> E (checkColInMap m c) v = E c v"
proof -
  assume r: "respects_names E"
  have "ColName_Equal c k" if "find (\<lambda>(k, _). ColName_Equal c k) m = Some (k, vs)" for k vs
    using that by (auto simp: find_Some_iff)
  with r show ?thesis
    by (auto simp: checkColInMap_def respects_names_def split: option.split)
qed

lemma bex_insert_filter: "(\<exists>e \<in> insert x {e \<in> S. P e}. Q e) \<longleftrightarrow> Q x \<or> (\<exists>e \<in> S. P e \<and> Q e)"
  by blast

lemma set_update: "distinct_keys m \<Longrightarrow> set (AList.update k v m) = insert (k, v) {e \<in> set m. fst e \<noteq> k}"
  by (induction m) (force simp: distinct_keys_def)+

lemma add_val_props:
  assumes "in_map_ok m" "respects_names E"
  shows "in_map_ok (add_val m c (SQLValE v))"
    and "in_map_sat E (add_val m c (SQLValE v)) \<longleftrightarrow> in_map_sat E m \<or> E c v"
proof -
  define k where "k = checkColInMap m c"
  define old where "old = (case map_of m k of None \<Rightarrow> [] | Some vs \<Rightarrow> vs)"
  have d: "distinct_keys m" using assms(1) by (simp add: in_map_ok_def)
  have av: "add_val m c (SQLValE v) = AList.update k (old @ [SQLValE v]) m"
    by (simp add: add_val_def Let_def k_def old_def)
  have set: "set (add_val m c (SQLValE v)) = insert (k, old @ [SQLValE v]) {e \<in> set m. fst e \<noteq> k}"
    by (simp add: av set_update [OF d])
  have in_old: "old \<noteq> [] \<Longrightarrow> (k, old) \<in> set m"
    by (auto simp: old_def split: option.splits dest: map_of_SomeD)
  have old_only: "vs = old" if "(k, vs) \<in> set m" for vs
    using that map_of_in_set [OF d, of k vs] by (simp add: old_def)
  have lits: "\<exists>v. x = SQLValE v" if "x \<in> set old" for x
    using that in_old assms(1) by (fastforce simp: in_map_ok_def)
  show "in_map_ok (add_val m c (SQLValE v))"
    using assms(1) lits d by (auto simp: in_map_ok_def set) (auto simp: av)
  let ?rest = "\<exists>e \<in> set m. fst e \<noteq> k \<and> (\<exists>v. SQLValE v \<in> set (snd e) \<and> E (fst e) v)"
  let ?old = "\<exists>v. SQLValE v \<in> set old \<and> E k v"
  have "in_map_sat E m \<longleftrightarrow> ?old \<or> ?rest"
  proof
    assume "in_map_sat E m"
    then obtain e u where e: "e \<in> set m" "SQLValE u \<in> set (snd e)" "E (fst e) u" by (auto simp: in_map_sat_def)
    show "?old \<or> ?rest"
    proof (cases "fst e = k")
      case True
      then have "snd e = old" using old_only [of "snd e"] e(1) by (cases e) auto
      with e True show ?thesis by auto
    qed (use e in blast)
  next
    assume "?old \<or> ?rest"
    then show "in_map_sat E m"
    proof
      assume ?old
      then obtain u where u: "SQLValE u \<in> set old" "E k u" by blast
      then have "(k, old) \<in> set m" using in_old by (cases old) auto
      with u show ?thesis unfolding in_map_sat_def by (intro bexI [of _ "(k, old)"]) auto
    next
      assume ?rest
      then show ?thesis unfolding in_map_sat_def by blast
    qed
  qed
  moreover have "in_map_sat E (add_val m c (SQLValE v)) \<longleftrightarrow> ?old \<or> E k v \<or> ?rest"
    unfolding in_map_sat_def set bex_insert_filter by auto
  moreover have "E k v = E c v" using checkColInMap_equal [OF assms(2)] by (simp add: k_def)
  ultimately show "in_map_sat E (add_val m c (SQLValE v)) \<longleftrightarrow> in_map_sat E m \<or> E c v" by blast
qed

lemma splitOrExpression_props:
  assumes "in_map_ok m" "respects_names E" "splitOrExpression e m = (subs, m')"
  shows "in_map_ok m' \<and> (list_ex (sat A E) subs \<or> in_map_sat E m' \<longleftrightarrow> in_map_sat E m \<or> sat A E e)"
  using assms(1,3)
proof (induction e m arbitrary: subs m' rule: splitOrExpression.induct)
  case (1 l r m)
  obtain ls m1 where l: "splitOrExpression l m = (ls, m1)" by fastforce
  obtain rs m2 where r: "splitOrExpression r m1 = (rs, m2)" by fastforce
  have "subs = ls @ rs" "m' = m2" using 1(4) l r by auto
  with 1(1) [OF 1(3) l] 1(2) [OF l [symmetric] refl _ r] show ?case by auto
next
  case (2 op l r esc m)
  show ?case
  proof (cases "if op = EqualStr then col_val l r else None")
    case None
    with 2 show ?thesis by auto
  next
    case (Some cv)
    then obtain c v where cv: "op = EqualStr" "col_val l r = Some (c, v)" by (cases cv) (auto split: if_splits)
    then have "subs = []" "m' = add_val m c (SQLValE v)" using 2(2) by auto
    with add_val_props [OF 2(1) assms(2), of c v] cv show ?thesis by auto
  qed
next
  case (3 e m)
  from 3(1) [OF 3(2)] 3(3) show ?case by simp
qed auto

lemma add_val_nonempty: "add_val m c v \<noteq> []"
  by (simp add: add_val_def Let_def)

lemma splitOrExpression_nonempty:
  "splitOrExpression e m = (subs, m') \<Longrightarrow> (m \<noteq> [] \<longrightarrow> m' \<noteq> []) \<and> (subs \<noteq> [] \<or> m' \<noteq> [])"
proof (induction e m arbitrary: subs m' rule: splitOrExpression.induct)
  case (1 l r m)
  obtain ls m1 where l: "splitOrExpression l m = (ls, m1)" by fastforce
  obtain rs m2 where r: "splitOrExpression r m1 = (rs, m2)" by fastforce
  from 1(1) [OF l] 1(2) [OF l [symmetric] refl r] 1(3) l r show ?case by auto
qed (auto split: option.splits simp: add_val_nonempty)

lemma fold_rebuildOr_Some:
  "fold (\<lambda>subExpr result. rebuildOr result subExpr) es (Some e0) = Some (foldl OrExpr e0 es)"
  by (induction es arbitrary: e0) (simp_all add: rebuildOr_def)

lemma sat_foldl_OrExpr: "sat A E (foldl OrExpr e0 es) \<longleftrightarrow> sat A E e0 \<or> list_ex (sat A E) es"
  by (induction es arbitrary: e0) auto

lemma fold_rebuildOr:
  assumes "es \<noteq> []"
  shows "\<exists>e. fold (\<lambda>subExpr result. rebuildOr result subExpr) es None = Some e
    \<and> (sat A E e \<longleftrightarrow> list_ex (sat A E) es)"
proof -
  from assms obtain e0 es' where es: "es = e0 # es'" by (cases es) auto
  have "fold (\<lambda>subExpr result. rebuildOr result subExpr) es None = Some (foldl OrExpr e0 es')"
    using fold_rebuildOr_Some [of es' e0] by (simp add: es rebuildOr_def)
  then show ?thesis by (simp add: es sat_foldl_OrExpr)
qed

text \<open>An \<open>IN\<close> over literals.\<close>

lemma sat_in_literals:
  assumes "\<forall>x \<in> set vs. \<exists>v. x = SQLValE v"
  shows "sat A E (ComparisonExpr InStr (ColNameE k) (ValTuple vs) None) \<longleftrightarrow> (\<exists>v. SQLValE v \<in> set vs \<and> E k v)"
proof -
  have "in_sat A E k vs \<longleftrightarrow> (\<exists>v. SQLValE v \<in> set vs \<and> E k v)"
  proof
    assume "in_sat A E k vs"
    then obtain x where x: "x \<in> set vs" "case x of SQLValE v \<Rightarrow> E k v | _ \<Rightarrow> A (ComparisonExpr EqualStr (ColNameE k) x None)"
      by (auto simp: in_sat_def)
    moreover from assms x(1) obtain v where "x = SQLValE v" by blast
    ultimately show "\<exists>v. SQLValE v \<in> set vs \<and> E k v" by auto
  next
    assume "\<exists>v. SQLValE v \<in> set vs \<and> E k v"
    then obtain v where "SQLValE v \<in> set vs" "E k v" by blast
    then show "in_sat A E k vs" unfolding in_sat_def by (intro bexI [of _ "SQLValE v"]) simp_all
  qed
  then show ?thesis by (simp add: col_in_def)
qed

text \<open>The rewriting of a disjunction into \<open>IN\<close> keeps its truth, in every order of the map.\<close>

lemma convertOrToIn_sat:
  assumes "respects_names E" "\<And>m. set (visit m) = set m"
  shows "sat A E (convertOrToIn visit e) = sat A E e"
proof (cases "\<exists>l r. e = OrExpr l r")
  case True
  then obtain l r where e: "e = OrExpr l r" by blast
  obtain subs m where so: "splitOrExpression e [] = (subs, m)" by fastforce
  have "in_map_ok []" by (simp add: in_map_ok_def)
  from splitOrExpression_props [OF this assms(1) so, of A]
  have ok: "in_map_ok m" and sat: "list_ex (sat A E) subs \<or> in_map_sat E m \<longleftrightarrow> sat A E e"
    by (auto simp: in_map_sat_def)
  let ?in = "\<lambda>(k, v). ComparisonExpr InStr (ColNameE k) (ValTuple v) None"
  let ?es = "subs @ map ?in (visit m)"
  have ne: "?es \<noteq> []"
    using so assms(2) [of m] splitOrExpression_nonempty [of e "[]" subs m] by auto
  have lit: "sat A E (?in e) \<longleftrightarrow> (\<exists>v. SQLValE v \<in> set (snd e) \<and> E (fst e) v)" if "e \<in> set m" for e
    using that ok sat_in_literals [of "snd e" A E "fst e"] by (auto simp: in_map_ok_def split_beta)
  have "list_ex (sat A E) (map ?in (visit m)) \<longleftrightarrow> (\<exists>e \<in> set m. sat A E (?in e))"
    using assms(2) [of m] by (simp add: list_ex_iff)
  also have "\<dots> \<longleftrightarrow> in_map_sat E m" using lit by (simp add: in_map_sat_def)
  finally have "list_ex (sat A E) (map ?in (visit m)) \<longleftrightarrow> in_map_sat E m" .
  moreover have "convertOrToIn visit e = the (fold (\<lambda>subExpr result. rebuildOr result subExpr) ?es None)"
    using so by (simp add: convertOrToIn_def e fold_map comp_def case_prod_unfold)
  ultimately show ?thesis using fold_rebuildOr [OF ne, of A E] sat by auto
next
  case False
  then show ?thesis by (cases e) (simp_all add: convertOrToIn_def)
qed

subsection \<open>The row is on one of the segments\<close>

lemma in_indexes_Some:
  assumes "in_indexes pf r db t vals idxs = Inr (Some is)"
  shows "set idxs \<subseteq> set is
    \<and> (\<forall>x \<in> set vals. \<exists>v i. x = SQLValE v \<and> Router_GetIndex pf r db t v = Inr i \<and> i \<in> set is)"
  using assms
proof (induction vals arbitrary: idxs)
  case Nil
  then show ?case by simp
next
  case (Cons x vals)
  from Cons.prems obtain v i where "x = SQLValE v" "Router_GetIndex pf r db t v = Inr i"
    and "in_indexes pf r db t vals (idxs @ [i]) = Inr (Some is)"
    by (auto simp: rbind_eq_Inr split: expr.splits)
  with Cons.IH [of "idxs @ [i]"] show ?case by auto
qed

text \<open>
  \<open>routes_alike\<close>: the literal \<open>v0\<close> is looked up on \<open>seg0\<close>, and the literals that the shard-key column
  equals have the index of \<open>v0\<close>. It is shown below for a row with an integer key.
\<close>

definition routes_alike ::
  "float_conv \<Rightarrow> Router \<Rightarrow> string \<Rightarrow> string \<Rightarrow> string \<Rightarrow> (ColName \<Rightarrow> SQLVal \<Rightarrow> bool) \<Rightarrow> SQLVal \<Rightarrow> Segment \<Rightarrow> bool" where
  "routes_alike pf r db t key E v0 seg0 \<longleftrightarrow>
     Router_Lookup pf r db t (Some v0) (Some v0) = Inr [seg0]
     \<and> (\<forall>c v. nameMatch (ColNameE c) t key \<longrightarrow> E c v \<longrightarrow>
          Router_GetIndex pf r db t v = Router_GetIndex pf r db t v0)"

lemma alike_index:
  assumes "getTable r db t = Inr table" "tbPartition table = Some p" "Sharded_inv p" "routes_alike pf r db t key E v0 seg0"
  obtains i where "Partition_GetIndex pf p v0 = Inr i" "Partition_GetSegment p i = Inr seg0"
    "\<And>c v. nameMatch (ColNameE c) t key \<Longrightarrow> E c v \<Longrightarrow> Partition_GetIndex pf p v = Inr i"
proof -
  note tbl = Router_table [OF assms(1,2)]
  have "Partition_Lookup pf p (Some v0) (Some v0) = Inr [seg0]" using assms(4) by (simp add: routes_alike_def tbl)
  from shard_m.lookup_value_single [OF assms(3) this] obtain i where
    "Partition_GetIndex pf p v0 = Inr i" "Partition_GetSegment p i = Inr seg0" by auto
  moreover from this have "Partition_GetIndex pf p v = Inr i" if "nameMatch (ColNameE c) t key" "E c v" for c v
    using assms(4) that unfolding routes_alike_def tbl by auto
  ultimately show thesis by (rule that)
qed

lemma lookup_in_sound:
  assumes "getTable r db t = Inr table" "tbPartition table = Some p" "Sharded_inv p" "routes_alike pf r db t key E v0 seg0"
    and "nameMatch (ColNameE c) t key" "in_sat A E c vs" "lookup_in pf r db t vs = Inr segs"
  shows "seg0 \<in> set segs"
proof -
  note tbl = Router_table [OF assms(1,2)]
  from alike_index [OF assms(1-4)] obtain i where
    i: "Partition_GetSegment p i = Inr seg0"
      "\<And>c v. nameMatch (ColNameE c) t key \<Longrightarrow> E c v \<Longrightarrow> Partition_GetIndex pf p v = Inr i" by metis
  have all: "seg0 \<in> set (Partition_GetSegments p)" using shard_m.get_segment_in [OF assms(3) i(1)] .
  from assms(7) obtain idxs where idxs: "in_indexes pf r db t vs [] = Inr idxs"
    "(case idxs of None \<Rightarrow> Router_Lookup pf r db t None None | Some idxs \<Rightarrow> Router_GetSegments r db t idxs) = Inr segs"
    by (auto simp: lookup_in_def rbind_eq_Inr)
  show ?thesis
  proof (cases idxs)
    case None
    with idxs(2) shard_m.lookup_open [OF assms(3), of None None pf] all show ?thesis by (simp add: tbl)
  next
    case (Some "is")
    from assms(6) obtain x where x: "x \<in> set vs"
      "case x of SQLValE v \<Rightarrow> E c v | _ \<Rightarrow> A (ComparisonExpr EqualStr (ColNameE c) x None)"
      by (auto simp: in_sat_def)
    with in_indexes_Some [of pf r db t vs "[]" "is"] idxs(1) Some obtain v j where
      v: "x = SQLValE v" "Router_GetIndex pf r db t v = Inr j" "j \<in> set is" by auto
    with x have "E c v" by simp
    with i(2) [OF assms(5)] v(2) have "j = i" by (simp add: tbl)
    with v(3) have "is \<noteq> []" "i \<in> set is" by auto
    with idxs(2) Some fold_add_segment [of p "is" "[]" segs] Sharded_inv_Partition_inv [OF assms(3)] i(1)
    show ?thesis by (auto simp: tbl)
  qed
qed

lemma filter_lookup_sound:
  assumes "getTable r db t = Inr table" "tbPartition table = Some p" "Sharded_inv p" "routes_alike pf r db t key E v0 seg0"
    and "sat A E f" "filter_lookup pf r db t key f = Some (Inr segs)"
  shows "seg0 \<in> set segs"
proof -
  from assms(6) obtain op left right esc where f: "f = ComparisonExpr op left right esc"
    by (cases f) (simp_all add: filter_lookup_def)
  with assms(6) have "nameMatch left t key" by (auto simp: filter_lookup_def split: if_splits)
  then obtain c where c: "left = ColNameE c" "nameMatch (ColNameE c) t key" by (cases left) auto
  consider (eq) v where "op = EqualStr" "right = SQLValE v" "Router_Lookup pf r db t (Some v) (Some v) = Inr segs"
    | (isin) vs where "op = InStr" "right = ValTuple vs" "lookup_in pf r db t vs = Inr segs"
    using assms(6) unfolding f c(1) by (auto simp: filter_lookup_def split: if_splits expr.splits)
  then show ?thesis
  proof cases
    case eq
    then have "E c v" using assms(5) by (simp add: f c(1) col_val_def)
    from alike_index [OF assms(1-4)] obtain i where
      "Partition_GetSegment p i = Inr seg0" "Partition_GetIndex pf p v = Inr i"
      using c(2) \<open>E c v\<close> by metis
    with eq(3) shard_m.lookup_value [OF assms(3), of pf v] show ?thesis
      by (auto simp: Router_table [OF assms(1,2)])
  next
    case isin
    then have "in_sat A E c vs" using assms(5) by (simp add: f c(1) col_in_def)
    with lookup_in_sound [OF assms(1-4) c(2)] isin(3) show ?thesis by blast
  qed
qed

lemma lookup_filters_sound:
  assumes "getTable r db t = Inr table" "tbPartition table = Some p" "Sharded_inv p" "routes_alike pf r db t key E v0 seg0"
    and "respects_names E" "\<And>m. set (visit m) = set m"
    and "list_all (sat A E) fs" "lookup_filters visit pf r db t key fs = Inr segs"
  shows "seg0 \<in> set segs"
  using assms(7,8)
proof (induction fs)
  case Nil
  from alike_index [OF assms(1-4)] obtain i where "Partition_GetSegment p i = Inr seg0" by metis
  with shard_m.get_segment_in [OF assms(3)] have "seg0 \<in> set (Partition_GetSegments p)" by blast
  with Nil shard_m.lookup_open [OF assms(3), of None None pf] show ?case by (simp add: Router_table [OF assms(1,2)])
next
  case (Cons f fs)
  have "sat A E (convertOrToIn visit (skipParenthesis f))"
    using convertOrToIn_sat [OF assms(5,6)] Cons.prems(1) by simp
  with filter_lookup_sound [OF assms(1-4)] Cons show ?case by (auto split: option.splits)
qed

lemma LookupFromWhere_sound:
  assumes "getTable r db t = Inr table" "tbPartition table = Some p" "Sharded_inv p" "routes_alike pf r db t key E v0 seg0"
    and "respects_names E" "\<And>m. set (visit m) = set m"
    and "sat A E w" "LookupFromWhere visit pf r db t key (Some w) = Inr segs"
  shows "seg0 \<in> set segs"
proof (cases "key = []")
  case True
  with lookup_filters_sound [OF assms(1-6), of A "[]" segs] assms(8) show ?thesis by (simp add: LookupFromWhere_def)
next
  case False
  with lookup_filters_sound [OF assms(1-6), of A "splitAndExpression [] w" segs] assms(7,8) show ?thesis
    by (simp add: LookupFromWhere_def sat_splitAndExpression)
qed

subsection \<open>Rows with an integer key\<close>

text \<open>
  The literals a condition compares with the shard key, by equality or in an \<open>IN\<close> list, outside of
  atoms; and a 64-bit integer literal in its plain decimal form.
\<close>

definition on_key :: "string \<Rightarrow> string \<Rightarrow> ColName \<Rightarrow> SQLVal list \<Rightarrow> SQLVal list" where
  "on_key t key c vs = (if nameMatch (ColNameE c) t key then vs else [])"

fun key_literals :: "string \<Rightarrow> string \<Rightarrow> expr \<Rightarrow> SQLVal list" where
  "key_literals t key (AndExpr l r) = key_literals t key l @ key_literals t key r"
| "key_literals t key (OrExpr l r) = key_literals t key l @ key_literals t key r"
| "key_literals t key (ParenExpr e) = key_literals t key e"
| "key_literals t key (ComparisonExpr op l r esc) =
     (if op = EqualStr then (case col_val l r of Some (c, v) \<Rightarrow> on_key t key c [v] | None \<Rightarrow> [])
      else if op = InStr then
        (case col_in l r of
           Some (c, vs) \<Rightarrow> on_key t key c (concat (map (\<lambda>x. case x of SQLValE v \<Rightarrow> [v] | _ \<Rightarrow> []) vs))
         | None \<Rightarrow> [])
      else [])"
| "key_literals t key e = []"

definition int_literal :: "int \<Rightarrow> SQLVal" where
  "int_literal n = \<lparr>svType = IntVal, svVal = sprintf_d n\<rparr>"

definition plain_keys :: "string \<Rightarrow> string \<Rightarrow> expr \<Rightarrow> bool" where
  "plain_keys t key w \<longleftrightarrow> (\<forall>v \<in> set (key_literals t key w). \<exists>n. in_int64 n \<and> v = int_literal n)"

text \<open>
  A row whose shard-key column is the integer \<open>k\<close>: MySQL compares an integer column with an integer
  literal by value.
\<close>

definition int_key_row :: "string \<Rightarrow> string \<Rightarrow> int \<Rightarrow> (ColName \<Rightarrow> SQLVal \<Rightarrow> bool) \<Rightarrow> bool" where
  "int_key_row t key k E \<longleftrightarrow>
     (\<forall>c n. nameMatch (ColNameE c) t key \<longrightarrow> in_int64 n \<longrightarrow> (E c (int_literal n) \<longleftrightarrow> n = k))"

text \<open>Only the literals of the condition matter for its truth.\<close>

definition limited :: "string \<Rightarrow> string \<Rightarrow> SQLVal set \<Rightarrow> (ColName \<Rightarrow> SQLVal \<Rightarrow> bool) \<Rightarrow> ColName \<Rightarrow> SQLVal \<Rightarrow> bool" where
  "limited t key V E c v \<longleftrightarrow> E c v \<and> (nameMatch (ColNameE c) t key \<longrightarrow> v \<in> V)"

lemma in_sat_limited:
  assumes "in_sat A E c vs"
    and "set (on_key t key c (concat (map (\<lambda>x. case x of SQLValE v \<Rightarrow> [v] | _ \<Rightarrow> []) vs))) \<subseteq> V"
  shows "in_sat A (limited t key V E) c vs"
proof -
  from assms(1) obtain x where x: "x \<in> set vs"
    "case x of SQLValE v \<Rightarrow> E c v | _ \<Rightarrow> A (ComparisonExpr EqualStr (ColNameE c) x None)"
    by (auto simp: in_sat_def)
  have "case x of SQLValE v \<Rightarrow> limited t key V E c v | _ \<Rightarrow> A (ComparisonExpr EqualStr (ColNameE c) x None)"
  proof (cases "\<exists>v. x = SQLValE v")
    case True
    then obtain v where v: "x = SQLValE v" by blast
    have "v \<in> V" if "nameMatch (ColNameE c) t key"
      using assms(2) x(1) that v by (force simp: on_key_def)
    with x(2) v show ?thesis by (simp add: limited_def)
  next
    case False
    with x(2) show ?thesis by (cases x) simp_all
  qed
  with x(1) show ?thesis unfolding in_sat_def by blast
qed

lemma sat_limited:
  assumes "sat A E w" "set (key_literals t key w) \<subseteq> V"
  shows "sat A (limited t key V E) w"
  using assms
proof (induction w rule: key_literals.induct)
  case (4 t key op l r esc)
  show ?case
  proof (cases "op = EqualStr")
    case True
    with 4 show ?thesis by (auto simp: limited_def on_key_def split: option.splits if_splits)
  next
    case False
    show ?thesis
    proof (cases "op = InStr \<and> col_in l r \<noteq> None")
      case True
      then obtain c vs where "col_in l r = Some (c, vs)" by auto
      with 4 True False in_sat_limited [of A E c vs t key V] show ?thesis by simp
    next
      case no: False
      with 4(1) False show ?thesis by (cases "col_in l r") auto
    qed
  qed
qed auto

lemma equal_fold_trans: "equal_fold a b \<Longrightarrow> equal_fold a c = equal_fold b c"
  by (simp add: equal_fold_def)

lemma respects_limited:
  assumes "respects_names E"
  shows "respects_names (limited t key V E)"
proof -
  have "limited t key V E c v = limited t key V E c' v" if eq: "ColName_Equal c c'" for c c' v
  proof -
    have "nameMatch (ColNameE c) t key = nameMatch (ColNameE c') t key"
      using eq equal_fold_trans [of "cnName c" "cnName c'" key] by (simp add: ColName_Equal_def)
    with assms eq show ?thesis unfolding limited_def respects_names_def by blast
  qed
  then show ?thesis by (simp add: respects_names_def)
qed

text \<open>A row with an integer key, for the literals of a condition that names keys in plain form.\<close>

lemma int_key_routes_alike:
  assumes "Router_Lookup pf r db t (Some (int_literal k)) (Some (int_literal k)) = Inr [seg0]"
    and "int_key_row t key k E" "plain_keys t key w"
  shows "routes_alike pf r db t key (limited t key (set (key_literals t key w)) E) (int_literal k) seg0"
proof -
  have "v = int_literal k" if "nameMatch (ColNameE c) t key" "limited t key (set (key_literals t key w)) E c v" for c v
  proof -
    from that have "E c v" "v \<in> set (key_literals t key w)" by (simp_all add: limited_def)
    moreover from this(2) assms(3) obtain n where "in_int64 n" "v = int_literal n" by (auto simp: plain_keys_def)
    ultimately show ?thesis using assms(2) that(1) unfolding int_key_row_def by metis
  qed
  with assms(1) show ?thesis unfolding routes_alike_def by blast
qed

lemma LookupFromWhere_int_key:
  assumes "getTable r db t = Inr table" "tbPartition table = Some p" "Sharded_inv p"
    and "Router_Lookup pf r db t (Some (int_literal k)) (Some (int_literal k)) = Inr [seg0]"
    and "int_key_row t key k E" "respects_names E" "\<And>m. set (visit m) = set m"
    and "plain_keys t key w" "sat A E w" "LookupFromWhere visit pf r db t key (Some w) = Inr segs"
  shows "seg0 \<in> set segs"
  using LookupFromWhere_sound [OF assms(1-3) int_key_routes_alike [OF assms(4,5,8)] respects_limited [OF assms(6)] assms(7)
      sat_limited [OF assms(9) order_refl] assms(10)] .

lemma all_segments_int_key:
  assumes "getTable r db t = Inr table" "tbPartition table = Some p" "Sharded_inv p"
    and "Router_Lookup pf r db t (Some v) (Some v) = Inr [seg0]" "Router_Lookup pf r db t None None = Inr segs"
  shows "seg0 \<in> set segs"
proof -
  note tbl = Router_table [OF assms(1,2)]
  have "Partition_Lookup pf p (Some v) (Some v) = Inr [seg0]" using assms(4) by (simp add: tbl)
  from shard_m.lookup_sub [OF assms(3) this] have "seg0 \<in> set (Partition_GetSegments p)" by simp
  with assms(5) shard_m.lookup_open [OF assms(3), of None None pf] show ?thesis by (simp add: tbl)
qed


definition id_col :: ColName where
  "id_col = \<lparr>cnName = ''ID'', cnQualifier = \<lparr>tnName = [], tnQualifier = []\<rparr>\<rparr>"

abbreviation int_lit :: "string \<Rightarrow> expr" where
  "int_lit s \<equiv> SQLValE \<lparr>svType = IntVal, svVal = s\<rparr>"

text \<open>\<open>((ID = 7 or 8 = ID)) and a\<close>\<close>

definition demo_where :: expr where
  "demo_where = AndExpr
     (ParenExpr (ParenExpr (OrExpr (ComparisonExpr EqualStr (ColNameE id_col) (int_lit ''7'') None)
                                   (ComparisonExpr EqualStr (int_lit ''8'') (ColNameE id_col) None))))
     (OtherExpr ''a'' [])"

text \<open>The row with key 8: the columns that are the shard key equal the literals of value 8.\<close>

definition demo_row :: "ColName \<Rightarrow> SQLVal \<Rightarrow> bool" where
  "demo_row c v \<longleftrightarrow> equal_fold (cnName c) ''id'' \<and> v = int_literal 8"

lemma int_literal_inj [simp]: "int_literal m = int_literal n \<longleftrightarrow> m = n"
  by (simp add: int_literal_def sprintf_d_inj)

lemma int_literal_7_8: "int_literal 7 = \<lparr>svType = IntVal, svVal = ''7''\<rparr>" "int_literal 8 = \<lparr>svType = IntVal, svVal = ''8''\<rparr>"
  by code_simp+

lemma demo_row_key: "int_key_row ''l'' ''id'' 8 demo_row"
  by (auto simp: int_key_row_def demo_row_def)

lemma demo_row_names: "respects_names demo_row"
  by (auto simp: respects_names_def demo_row_def ColName_Equal_def equal_fold_def)

lemma demo_row_at:
  "Router_Lookup (\<lambda>_. None) demo_router ''db'' ''l'' (Some (int_literal 8)) (Some (int_literal 8)) = Inr [lSegments demo_list ! 1]"
  by (simp add: Router_table [OF demo_getTable demo_partition] demo_list_def List_Lookup_def List_GetIndex_def slice_get_def
      int_literal_7_8)


text \<open>An integer literal is read with \<open>strconv.ParseInt(s, 0, 64)\<close>, so a leading zero makes it octal:
  \<open>010\<close> is routed as the key 8, while MySQL reads it as 10.\<close>

theorem leading_zero_routes_as_octal:
  "Hash_GetIndex pf h \<lparr>svType = IntVal, svVal = ''010''\<rparr> = Hash_GetIndex pf h \<lparr>svType = IntVal, svVal = ''8''\<rparr>"
  by (simp add: Hash_GetIndex_def go_parse_int0_def parse_uint_base0_def split_sign_def signed_value_def
      digit_value_def in_int64_def)

end
