(* ===== verification/Radon_Dml.thy ===== *)
theory Radon_Dml
  imports Radon_Where
begin

section \<open>INSERT, UPDATE and DELETE plans\<close>

text \<open>
  \<open>src/src/planner/{insert_plan,update_plan,delete_plan,common}.go\<close>. A plan is a list of
  \<open>xcontext.QueryTuple\<close>. The text of a query is what \<open>sqlparser.String\<close> prints of the rewritten
  statement; the model keeps the statement itself in its place.
\<close>

record 'q QueryTuple =
  qtQuery :: 'q
  qtBackend :: string
  qtRange :: string

type_synonym update_exprs = "(ColName \<times> expr) list"

record Insert =
  inAction :: string
  inTable :: TableName
  inPartitions :: "string list"
  inColumns :: "string list"
  inRows :: "expr list list option"
  inOnDup :: update_exprs

record Update =
  upTable :: TableName
  upExprs :: update_exprs
  upWhere :: "expr option"
  upOrderBy :: "(expr \<times> string) list"
  upLimit :: "expr list"

record Delete =
  dlIsSingleTable :: bool
  dlTable :: TableName
  dlPartitions :: "string list option"
  dlWhere :: "expr option"
  dlOrderBy :: "(expr \<times> string) list"
  dlLimit :: "expr list"

subsection \<open>Walking expressions\<close>

text \<open>The nodes in the order of \<open>sqlparser.Walk\<close>.\<close>

fun walk :: "expr \<Rightarrow> expr list" where
  "walk (AndExpr l r) = AndExpr l r # walk l @ walk r"
| "walk (OrExpr l r) = OrExpr l r # walk l @ walk r"
| "walk (NotExpr e) = NotExpr e # walk e"
| "walk (ParenExpr e) = ParenExpr e # walk e"
| "walk (ComparisonExpr op l r esc) =
     ComparisonExpr op l r esc # walk l @ walk r @ (case esc of None \<Rightarrow> [] | Some e \<Rightarrow> walk e)"
| "walk (RangeCond op l a b) = RangeCond op l a b # walk l @ walk a @ walk b"
| "walk (IsExpr op e) = IsExpr op e # walk e"
| "walk (ExistsExpr e) = ExistsExpr e # walk e"
| "walk (SQLValE v) = [SQLValE v]"
| "walk NullVal = [NullVal]"
| "walk (BoolVal b) = [BoolVal b]"
| "walk (ColNameE c) = [ColNameE c]"
| "walk (ValTuple es) = ValTuple es # concat (map walk es)"
| "walk (Subquery q es) = Subquery q es # concat (map walk es)"
| "walk (ListArg a) = [ListArg a]"
| "walk (BinaryExpr op l r) = BinaryExpr op l r # walk l @ walk r"
| "walk (UnaryExpr op e) = UnaryExpr op e # walk e"
| "walk (FuncExpr q n d es) = FuncExpr q n d es # concat (map walk es)"
| "walk (OtherExpr k es) = OtherExpr k es # concat (map walk es)"

definition hasSubquery :: "expr list \<Rightarrow> bool" where
  "hasSubquery es = list_ex (\<lambda>n. case n of Subquery _ _ \<Rightarrow> True | _ \<Rightarrow> False) (concat (map walk es))"

text \<open>Every column of an expression rewritten by \<open>f\<close>.\<close>

fun map_cols :: "(ColName \<Rightarrow> ColName) \<Rightarrow> expr \<Rightarrow> expr" where
  "map_cols f (AndExpr l r) = AndExpr (map_cols f l) (map_cols f r)"
| "map_cols f (OrExpr l r) = OrExpr (map_cols f l) (map_cols f r)"
| "map_cols f (NotExpr e) = NotExpr (map_cols f e)"
| "map_cols f (ParenExpr e) = ParenExpr (map_cols f e)"
| "map_cols f (ComparisonExpr op l r esc) =
     ComparisonExpr op (map_cols f l) (map_cols f r) (map_option (map_cols f) esc)"
| "map_cols f (RangeCond op l a b) = RangeCond op (map_cols f l) (map_cols f a) (map_cols f b)"
| "map_cols f (IsExpr op e) = IsExpr op (map_cols f e)"
| "map_cols f (ExistsExpr e) = ExistsExpr (map_cols f e)"
| "map_cols f (SQLValE v) = SQLValE v"
| "map_cols f NullVal = NullVal"
| "map_cols f (BoolVal b) = BoolVal b"
| "map_cols f (ColNameE c) = ColNameE (f c)"
| "map_cols f (ValTuple es) = ValTuple (map (map_cols f) es)"
| "map_cols f (Subquery q es) = Subquery q (map (map_cols f) es)"
| "map_cols f (ListArg a) = ListArg a"
| "map_cols f (BinaryExpr op l r) = BinaryExpr op (map_cols f l) (map_cols f r)"
| "map_cols f (UnaryExpr op e) = UnaryExpr op (map_cols f e)"
| "map_cols f (FuncExpr q n d es) = FuncExpr q n d (map (map_cols f) es)"
| "map_cols f (OtherExpr k es) = OtherExpr k (map (map_cols f) es)"

definition isUpdateShardKey :: "update_exprs \<Rightarrow> string \<Rightarrow> bool" where
  "isUpdateShardKey exprs shardkey \<longleftrightarrow>
     shardkey \<noteq> [] \<and> list_ex (\<lambda>(name, _). equal_fold (cnName name) shardkey) exprs"

subsection \<open>Plans\<close>

text \<open>One query for each segment, in order; the text of a segment's range is read on the way.\<close>

fun segment_queries :: "(Segment \<Rightarrow> 'q) \<Rightarrow> Segment list \<Rightarrow> 'q QueryTuple list res" where
  "segment_queries f [] = Inr []"
| "segment_queries f (seg # segs) =
     rbind (KeyRange_String (sRange seg)) (\<lambda>rangi.
     rbind (segment_queries f segs) (\<lambda>qs.
       Inr (\<lparr>qtQuery = f seg, qtBackend = sBackend seg, qtRange = rangi\<rparr> # qs)))"

definition UpdatePlan_analyze :: "Update \<Rightarrow> unit res" where
  "UpdatePlan_analyze node =
     (if hasSubquery (map snd (upExprs node) @ (case upWhere node of None \<Rightarrow> [] | Some e \<Rightarrow> [e])
           @ map fst (upOrderBy node) @ upLimit node)
      then Inl (GoError ''unsupported: subqueries.in.update'')
      else if upWhere node = None then Inl (GoError ''unsupported: missing.where.clause.in.DML'')
      else Inr ())"

definition UpdatePlan_Build ::
  "(in_map \<Rightarrow> in_map) \<Rightarrow> float_conv \<Rightarrow> Router \<Rightarrow> string \<Rightarrow> Update \<Rightarrow> Update QueryTuple list res" where
  "UpdatePlan_Build visit pf r db node =
     rbind (UpdatePlan_analyze node) (\<lambda>_.
       let database = (if tnQualifier (upTable node) \<noteq> [] then tnQualifier (upTable node) else db);
           table = tnName (upTable node)
       in rbind (ShardKey r database table) (\<lambda>shardkey.
            if isUpdateShardKey (upExprs node) shardkey
            then Inl (GoError ''unsupported: cannot.update.shard.key'')
            else rbind (LookupFromWhere visit pf r database table shardkey (upWhere node)) (\<lambda>segments.
              segment_queries (\<lambda>seg. node\<lparr>upTable := \<lparr>tnName = sTable seg, tnQualifier = database\<rparr>\<rparr>) segments)))"

definition DeletePlan_analyze :: "Delete \<Rightarrow> unit res" where
  "DeletePlan_analyze node =
     (if \<not> dlIsSingleTable node then Inl (GoError ''unsupported: currently.not.support.multitables.in.delete'')
      else if dlPartitions node \<noteq> None then Inl (GoError ''unsupported: currently.not.support.partitions.in.delete'')
      else if hasSubquery ((case dlWhere node of None \<Rightarrow> [] | Some e \<Rightarrow> [e]) @ map fst (dlOrderBy node) @ dlLimit node)
      then Inl (GoError ''unsupported: subqueries.in.delete'')
      else Inr ())"

abbreviation ER_BAD_FIELD_ERROR :: go_err where "ER_BAD_FIELD_ERROR \<equiv> SQLError 1054"

text \<open>\<open>checkFieldImpl\<close>: a qualified column must name the table of the statement.\<close>

definition bad_field :: "string \<Rightarrow> string \<Rightarrow> expr \<Rightarrow> bool" where
  "bad_field database table n =
     (case n of
        ColNameE c \<Rightarrow>
          let colDB = tnQualifier (cnQualifier c); colTbl = tnName (cnQualifier c) in
          if colDB \<noteq> [] \<and> colTbl \<noteq> [] then colDB \<noteq> database \<or> colTbl \<noteq> table
          else if colDB = [] \<and> colTbl \<noteq> [] then colTbl \<noteq> table
          else False
      | _ \<Rightarrow> False)"

definition checkFieldImpl :: "string \<Rightarrow> string \<Rightarrow> expr list \<Rightarrow> unit res" where
  "checkFieldImpl database table es =
     (if list_ex (bad_field database table) (concat (map walk es)) then Inl ER_BAD_FIELD_ERROR else Inr ())"

definition checkField :: "string \<Rightarrow> string \<Rightarrow> Delete \<Rightarrow> unit res" where
  "checkField database table node =
     rbind (checkFieldImpl database table (case dlWhere node of None \<Rightarrow> [] | Some e \<Rightarrow> [e])) (\<lambda>_.
       checkFieldImpl database table (map fst (dlOrderBy node)))"

definition rewrite_col :: "string \<Rightarrow> string \<Rightarrow> ColName \<Rightarrow> ColName" where
  "rewrite_col database partTable c = c\<lparr>cnQualifier := \<lparr>tnName = partTable, tnQualifier = database\<rparr>\<rparr>"

definition rewriteField :: "string \<Rightarrow> string \<Rightarrow> Delete \<Rightarrow> Delete" where
  "rewriteField database partTable node =
     node\<lparr>dlWhere := map_option (map_cols (rewrite_col database partTable)) (dlWhere node),
          dlOrderBy := map (apfst (map_cols (rewrite_col database partTable))) (dlOrderBy node)\<rparr>"

text \<open>
  Every iteration overwrites the qualifiers that the one before it wrote, so each query is the
  rewriting of the original statement.
\<close>

definition DeletePlan_Build ::
  "(in_map \<Rightarrow> in_map) \<Rightarrow> float_conv \<Rightarrow> Router \<Rightarrow> string \<Rightarrow> Delete \<Rightarrow> Delete QueryTuple list res" where
  "DeletePlan_Build visit pf r db node =
     rbind (DeletePlan_analyze node) (\<lambda>_.
       let tableID = tnName (dlTable node);
           databaseID = (if tnQualifier (dlTable node) = [] then db else tnQualifier (dlTable node))
       in rbind (checkField databaseID tableID node) (\<lambda>_.
          rbind (case dlWhere node of
                   None \<Rightarrow> Router_Lookup pf r databaseID tableID None None
                 | Some _ \<Rightarrow>
                     rbind (ShardKey r databaseID tableID) (\<lambda>shardkey.
                       LookupFromWhere visit pf r databaseID tableID shardkey (dlWhere node))) (\<lambda>segments.
            segment_queries (\<lambda>seg. (rewriteField databaseID (sTable seg) node)
              \<lparr>dlTable := \<lparr>tnName = sTable seg, tnQualifier = databaseID\<rparr>\<rparr>) segments)))"

subsection \<open>INSERT\<close>

record rowsTuple =
  rtBackend :: string
  rtTable :: string
  rtRangi :: string
  rtRows :: "expr list list"

fun find_column :: "string \<Rightarrow> string list \<Rightarrow> nat \<Rightarrow> nat option" where
  "find_column shardKey [] i = None"
| "find_column shardKey (c # cs) i = (if equal_fold c shardKey then Some i else find_column shardKey cs (i + 1))"

text \<open>The body of the loop over the rows.\<close>

definition insert_row ::
  "float_conv \<Rightarrow> Router \<Rightarrow> string \<Rightarrow> string \<Rightarrow> nat \<Rightarrow> expr list \<Rightarrow> (string \<times> rowsTuple) list \<Rightarrow>
     (string \<times> rowsTuple) list res" where
  "insert_row pf r database table idx row rTuples =
     (if length row \<le> idx then Inl (GoError ''unsupported: shardkey[%v].out.of.index:[%v]'')
      else case row ! idx of
        SQLValE shardVal \<Rightarrow>
          rbind (Router_Lookup pf r database table (Some shardVal) (Some shardVal)) (\<lambda>segments.
          rbind (slice_get segments 0) (\<lambda>seg.
          rbind (KeyRange_String (sRange seg)) (\<lambda>rangi.
            let rTuple = (case map_of rTuples (sTable seg) of
                            None \<Rightarrow> \<lparr>rtBackend = sBackend seg, rtTable = sTable seg, rtRangi = rangi, rtRows = []\<rparr>
                          | Some t \<Rightarrow> t)
            in Inr (AList.update (sTable seg) (rTuple\<lparr>rtRows := rtRows rTuple @ [row]\<rparr>) rTuples))))
      | _ \<Rightarrow> Inl (GoError ''unsupported: shardkey[%v].type.canot.be[%T]''))"

definition insert_query :: "Insert \<Rightarrow> (string \<times> rowsTuple) list \<Rightarrow> string \<Rightarrow> Insert QueryTuple" where
  "insert_query node rTuples partTable =
     (let v = the (map_of rTuples partTable)
      in \<lparr>qtQuery = node\<lparr>inTable := (inTable node)\<lparr>tnName := partTable\<rparr>, inRows := Some (rtRows v)\<rparr>,
          qtBackend = rtBackend v, qtRange = rtRangi v\<rparr>)"

text \<open>The statement with the session's database where it names none.\<close>

definition qualify_table :: "string \<Rightarrow> Insert \<Rightarrow> Insert" where
  "qualify_table db node =
     (if tnQualifier (inTable node) = [] then node\<lparr>inTable := (inTable node)\<lparr>tnQualifier := db\<rparr>\<rparr> else node)"

definition InsertPlan_Build :: "float_conv \<Rightarrow> Router \<Rightarrow> string \<Rightarrow> Insert \<Rightarrow> Insert QueryTuple list res" where
  "InsertPlan_Build pf r db node0 =
     (case inRows node0 of
        None \<Rightarrow> Inl (GoError ''unsupported: rows.can.not.be.subquery[%T]'')
      | Some rows \<Rightarrow>
          if inPartitions node0 \<noteq> []
          then Inl (GoError ''unsupported: radon.now.not.support.insert.with.partition.'')
          else
            let node = qualify_table db node0; database = tnQualifier (inTable node); table = tnName (inTable node)
            in rbind (PartitionType r database table) (\<lambda>methodType.
                 if methodType = MethodTypeGlobal \<or> methodType = MethodTypeSingle then
                   rbind (Router_Lookup pf r database table None None) (segment_queries (\<lambda>_. node))
                 else if methodType = MethodTypeHash \<or> methodType = MethodTypeList then
                   rbind (ShardKey r database table) (\<lambda>shardKey.
                     if isUpdateShardKey (inOnDup node) shardKey
                     then Inl (GoError ''unsupported: cannot.update.shard.key'')
                     else case find_column shardKey (inColumns node) 0 of
                       None \<Rightarrow> Inl (GoError ''unsupported: shardkey.column[%v].missing'')
                     | Some idx \<Rightarrow>
                         rbind (fold_res (insert_row pf r database table idx) rows []) (\<lambda>rTuples.
                           Inr (map (insert_query node rTuples) (sort (map fst rTuples)))))
                 else Inl (GoError ''unsupported: radon.not.support.method.type[%s].'')))"

subsection \<open>The rows of an INSERT\<close>

text \<open>Where a row belongs: the first segment of the lookup of its shard-key value.\<close>

definition row_segment :: "float_conv \<Rightarrow> Router \<Rightarrow> string \<Rightarrow> string \<Rightarrow> nat \<Rightarrow> expr list \<Rightarrow> Segment \<Rightarrow> bool" where
  "row_segment pf r db t idx row seg \<longleftrightarrow>
     idx < length row \<and> (\<exists>v segs. row ! idx = SQLValE v
       \<and> Router_Lookup pf r db t (Some v) (Some v) = Inr (seg # segs))"

definition tuples_inv ::
  "float_conv \<Rightarrow> Router \<Rightarrow> string \<Rightarrow> string \<Rightarrow> nat \<Rightarrow> expr list list \<Rightarrow> (string \<times> rowsTuple) list \<Rightarrow> bool" where
  "tuples_inv pf r db t idx done m \<longleftrightarrow>
     distinct_keys m \<and> mset (concat (map (rtRows \<circ> snd) m)) = mset done
     \<and> (\<forall>(k, tu) \<in> set m. \<exists>seg0. sTable seg0 = k \<and> rtBackend tu = sBackend seg0 \<and> KeyRange_String (sRange seg0) = Inr (rtRangi tu)
          \<and> (\<exists>row \<in> set done. row_segment pf r db t idx row seg0)
          \<and> (\<forall>row \<in> set (rtRows tu). \<exists>seg. row_segment pf r db t idx row seg \<and> sTable seg = k))"

lemma mset_update_rows:
  assumes "distinct_keys m" "g = (case map_of m k of None \<Rightarrow> [] | Some tu \<Rightarrow> rtRows tu)" "rtRows tu' = g @ [row]"
  shows "mset (concat (map (rtRows \<circ> snd) (AList.update k tu' m))) =
    add_mset row (mset (concat (map (rtRows \<circ> snd) m)))"
  using assms by (induction m) (auto simp: distinct_keys_def)

lemma slice_get_0: "slice_get xs 0 = Inr x \<longleftrightarrow> (\<exists>ys. xs = x # ys)"
  by (cases xs) (auto simp: slice_get_def)

lemma insert_row_Inr:
  assumes "insert_row pf r db t idx row m = Inr m'"
  shows "\<exists>seg rangi. row_segment pf r db t idx row seg \<and> KeyRange_String (sRange seg) = Inr rangi
    \<and> m' = AList.update (sTable seg) (let tu = (case map_of m (sTable seg) of
          None \<Rightarrow> \<lparr>rtBackend = sBackend seg, rtTable = sTable seg, rtRangi = rangi, rtRows = []\<rparr> | Some tu \<Rightarrow> tu)
        in tu\<lparr>rtRows := rtRows tu @ [row]\<rparr>) m"
  using assms
  by (auto simp: insert_row_def rbind_eq_Inr row_segment_def slice_get_0 Let_def split: if_splits expr.splits)

lemma insert_row_inv:
  assumes "tuples_inv pf r db t idx done m" "insert_row pf r db t idx row m = Inr m'"
  shows "tuples_inv pf r db t idx (done @ [row]) m'"
proof -
  from insert_row_Inr [OF assms(2)] obtain seg rangi where
    seg: "row_segment pf r db t idx row seg" "KeyRange_String (sRange seg) = Inr rangi"
    and m': "m' = AList.update (sTable seg) (let tu = (case map_of m (sTable seg) of
          None \<Rightarrow> \<lparr>rtBackend = sBackend seg, rtTable = sTable seg, rtRangi = rangi, rtRows = []\<rparr> | Some tu \<Rightarrow> tu)
        in tu\<lparr>rtRows := rtRows tu @ [row]\<rparr>) m" by blast
  define tu where "tu = (case map_of m (sTable seg) of
    None \<Rightarrow> \<lparr>rtBackend = sBackend seg, rtTable = sTable seg, rtRangi = rangi, rtRows = []\<rparr> | Some tu \<Rightarrow> tu)"
  have m'_eq: "m' = AList.update (sTable seg) (tu\<lparr>rtRows := rtRows tu @ [row]\<rparr>) m"
    by (simp add: m' tu_def Let_def)
  have d: "distinct_keys m" and ms: "mset (concat (map (rtRows \<circ> snd) m)) = mset done"
    using assms(1) by (auto simp: tuples_inv_def)
  have "rtRows tu = (case map_of m (sTable seg) of None \<Rightarrow> [] | Some tu \<Rightarrow> rtRows tu)"
    by (simp add: tu_def split: option.split)
  then have "mset (concat (map (rtRows \<circ> snd) m')) = mset (done @ [row])"
    using mset_update_rows [OF d, of "rtRows tu" "sTable seg"] ms by (simp add: m'_eq)
  moreover have good: "\<exists>seg0. sTable seg0 = k \<and> rtBackend u = sBackend seg0 \<and> KeyRange_String (sRange seg0) = Inr (rtRangi u)
      \<and> (\<exists>row \<in> set done. row_segment pf r db t idx row seg0)
      \<and> (\<forall>row \<in> set (rtRows u). \<exists>seg. row_segment pf r db t idx row seg \<and> sTable seg = k)"
    if "(k, u) \<in> set m" for k u
    using assms(1) that unfolding tuples_inv_def by blast
  have new: "\<exists>seg0. sTable seg0 = sTable seg \<and> rtBackend tu = sBackend seg0 \<and> KeyRange_String (sRange seg0) = Inr (rtRangi tu)
      \<and> (\<exists>row \<in> set (done @ [row]). row_segment pf r db t idx row seg0)
      \<and> (\<forall>row \<in> set (rtRows tu). \<exists>seg'. row_segment pf r db t idx row seg' \<and> sTable seg' = sTable seg)"
  proof (cases "map_of m (sTable seg)")
    case None
    with seg show ?thesis by (auto simp: tu_def intro!: exI [of _ seg])
  next
    case (Some u)
    then have "tu = u" "(sTable seg, u) \<in> set m" by (simp_all add: tu_def map_of_SomeD)
    from good [OF this(2)] \<open>tu = u\<close> show ?thesis by auto
  qed
  have "\<exists>seg0. sTable seg0 = k \<and> rtBackend u = sBackend seg0 \<and> KeyRange_String (sRange seg0) = Inr (rtRangi u)
      \<and> (\<exists>row \<in> set (done @ [row]). row_segment pf r db t idx row seg0)
      \<and> (\<forall>row \<in> set (rtRows u). \<exists>seg. row_segment pf r db t idx row seg \<and> sTable seg = k)"
    if "(k, u) \<in> set m'" for k u
  proof -
    have "(k, u) = (sTable seg, tu\<lparr>rtRows := rtRows tu @ [row]\<rparr>) \<or> (k, u) \<in> set m"
      using that set_update [OF d] unfolding m'_eq by auto
    then show ?thesis
    proof
      assume "(k, u) = (sTable seg, tu\<lparr>rtRows := rtRows tu @ [row]\<rparr>)"
      with new seg(1) show ?thesis by fastforce
    next
      assume "(k, u) \<in> set m"
      from good [OF this] show ?thesis by fastforce
    qed
  qed
  moreover have "distinct_keys m'" using d by (simp add: m'_eq)
  ultimately show ?thesis unfolding tuples_inv_def by blast
qed

lemma fold_insert_row_inv:
  assumes "fold_res (insert_row pf r db t idx) rows m = Inr m'" "tuples_inv pf r db t idx done m"
  shows "tuples_inv pf r db t idx (done @ rows) m'"
  using assms
proof (induction rows arbitrary: m "done")
  case Nil
  then show ?case by simp
next
  case (Cons row rows)
  from Cons.prems(1) obtain m1 where "insert_row pf r db t idx row m = Inr m1"
    "fold_res (insert_row pf r db t idx) rows m1 = Inr m'" by (auto simp: rbind_eq_Inr)
  with Cons.IH [of m1 "done @ [row]"] insert_row_inv [OF Cons.prems(2)] show ?case by simp
qed

text \<open>The queries are the entries of the map, sorted by partition table.\<close>

lemma insert_queries_rows:
  assumes "distinct_keys m"
  shows "mset (concat (map (\<lambda>q. the (inRows (qtQuery q))) (map (insert_query node m) (sort (map fst m))))) =
    mset (concat (map (rtRows \<circ> snd) m))"
proof -
  have "mset (concat (map (\<lambda>q. the (inRows (qtQuery q))) (map (insert_query node m) (sort (map fst m))))) =
      mset (concat (map (\<lambda>k. rtRows (the (map_of m k))) (map fst m)))"
    unfolding map_map mset_concat_map by (simp add: insert_query_def Let_def comp_def image_mset.compositionality)
  also have "map (\<lambda>k. rtRows (the (map_of m k))) (map fst m) = map (rtRows \<circ> snd) m"
    using assms map_of_is_SomeI [of m] by (auto simp: comp_def distinct_keys_def)
  finally show ?thesis .
qed

text \<open>C13: an INSERT into a sharded table splits its rows over the partitions. When the plan is built, each
  row of the statement is in exactly one query (and none is added), every row of a query is sent to
  the table, backend and range of the one segment that a lookup of its shard-key value returns, and
  the queries are in strictly increasing order of the partition table, one per table.\<close>

theorem InsertPlan_places_rows:
  fixes db node rows
  defines "database \<equiv> tnQualifier (inTable (qualify_table db node))" and "tbl \<equiv> tnName (inTable node)"
  assumes "InsertPlan_Build pf r db node = Inr qs" "inRows node = Some rows"
    and "getTable r database tbl = Inr table" "tbPartition table = Some p" "Sharded_inv p"
    and "Partition_Type p \<in> {MethodTypeHash, MethodTypeList}" "inj_on sTable (set (Partition_GetSegments p))"
  shows "mset (concat (map (\<lambda>q. the (inRows (qtQuery q))) qs)) = mset rows
    \<and> sorted_wrt (<) (map (\<lambda>q. tnName (inTable (qtQuery q))) qs)
    \<and> (\<exists>idx. find_column (tbShardKey table) (inColumns node) 0 = Some idx
        \<and> (\<forall>q \<in> set qs. \<forall>row \<in> set (the (inRows (qtQuery q))). \<exists>v seg. row ! idx = SQLValE v
            \<and> Router_Lookup pf r database tbl (Some v) (Some v) = Inr [seg]
            \<and> tnName (inTable (qtQuery q)) = sTable seg \<and> qtBackend q = sBackend seg
            \<and> KeyRange_String (sRange seg) = Inr (qtRange q)))"
proof -
  let ?node = "qualify_table db node"
  have tblq: "tnName (inTable ?node) = tbl" "inColumns ?node = inColumns node" "inOnDup ?node = inOnDup node"
    by (auto simp: qualify_table_def tbl_def)
  note look = Router_table [OF assms(5,6)]
  have "ShardKey r database tbl = Inr (tbShardKey table)" by (simp add: ShardKey_def assms(5))
  with assms(3,4,8) obtain idx m where idx: "find_column (tbShardKey table) (inColumns node) 0 = Some idx"
    and m: "fold_res (insert_row pf r database tbl idx) rows [] = Inr m"
    and qs: "qs = map (insert_query ?node m) (sort (map fst m))"
    by (auto simp: InsertPlan_Build_def Let_def tblq look database_def [symmetric] rbind_eq_Inr
        split: if_splits option.splits)
  have "tuples_inv pf r database tbl idx [] []" by (simp add: tuples_inv_def)
  from fold_insert_row_inv [OF m this] have inv: "tuples_inv pf r database tbl idx rows m" by simp
  then have d: "distinct_keys m" and ms: "mset (concat (map (rtRows \<circ> snd) m)) = mset rows"
    by (auto simp: tuples_inv_def)
  have rows: "mset (concat (map (\<lambda>q. the (inRows (qtQuery q))) qs)) = mset rows"
    using insert_queries_rows [OF d, of ?node] ms by (simp add: qs)
  have "distinct (sort (map fst m))" "sorted (sort (map fst m))" using d by (simp_all add: distinct_keys_def)
  then have "sorted_wrt (<) (sort (map fst m))" by (simp add: strict_sorted_iff)
  then have sorted: "sorted_wrt (<) (map (\<lambda>q. tnName (inTable (qtQuery q))) qs)"
    by (simp add: qs insert_query_def Let_def comp_def)
  have one: "Router_Lookup pf r database tbl (Some v) (Some v) = Inr [seg] \<and> seg \<in> set (Partition_GetSegments p)"
    if "Router_Lookup pf r database tbl (Some v) (Some v) = Inr (seg # segs)" for v seg segs
    using that shard_m.lookup_value_single [OF assms(7), of pf v "seg # segs"] by (auto simp: look)
  have "\<exists>v seg. row ! idx = SQLValE v \<and> Router_Lookup pf r database tbl (Some v) (Some v) = Inr [seg]
      \<and> tnName (inTable (qtQuery q)) = sTable seg \<and> qtBackend q = sBackend seg
      \<and> KeyRange_String (sRange seg) = Inr (qtRange q)"
    if "q \<in> set qs" "row \<in> set (the (inRows (qtQuery q)))" for q row
  proof -
    from that(1) obtain k tu where k: "(k, tu) \<in> set m" "q = insert_query ?node m k" by (auto simp: qs)
    then have mk: "map_of m k = Some tu" using map_of_in_set [OF d] by simp
    from inv k(1) obtain seg0 where s0: "sTable seg0 = k" "rtBackend tu = sBackend seg0"
      "KeyRange_String (sRange seg0) = Inr (rtRangi tu)" "\<exists>row \<in> set rows. row_segment pf r database tbl idx row seg0"
      and good: "\<forall>row \<in> set (rtRows tu). \<exists>seg. row_segment pf r database tbl idx row seg \<and> sTable seg = k"
      unfolding tuples_inv_def by blast
    have "row \<in> set (rtRows tu)" using that(2) by (simp add: k(2) insert_query_def mk Let_def)
    with good obtain v seg segs where seg: "row ! idx = SQLValE v" "sTable seg = k"
      "Router_Lookup pf r database tbl (Some v) (Some v) = Inr (seg # segs)" by (auto simp: row_segment_def)
    have "seg0 \<in> set (Partition_GetSegments p)" using s0(4) one by (auto simp: row_segment_def)
    with one [OF seg(3)] assms(9) s0(1) seg(2) have "seg0 = seg" by (auto dest: inj_onD)
    with one [OF seg(3)] seg s0 show ?thesis by (auto simp: k(2) insert_query_def mk Let_def)
  qed
  with rows sorted idx show ?thesis by blast
qed

definition demo_insert :: Insert where
  "demo_insert = \<lparr>inAction = ''insert'', inTable = \<lparr>tnName = ''l'', tnQualifier = []\<rparr>, inPartitions = [],
     inColumns = [''a'', ''ID''],
     inRows = Some [[int_lit ''1'', int_lit ''8''], [int_lit ''2'', int_lit ''7''], [int_lit ''3'', int_lit ''8'']],
     inOnDup = []\<rparr>"

lemma demo_col: "equal_fold ''ID'' ''id''" "\<not> equal_fold ''a'' ''id''"
  by code_simp+

lemma InsertPlan_places_rows_witness:
  "\<exists>qs. InsertPlan_Build (\<lambda>_. None) demo_router ''db'' demo_insert = Inr qs
    \<and> mset (concat (map (\<lambda>q. the (inRows (qtQuery q))) qs)) = mset (the (inRows demo_insert))
    \<and> sorted_wrt (<) (map (\<lambda>q. tnName (inTable (qtQuery q))) qs)"
proof -
  note tbl = Router_table [OF demo_getTable demo_partition]
  have look: "Router_Lookup (\<lambda>_. None) demo_router ''db'' ''l'' (Some \<lparr>svType = IntVal, svVal = ''8''\<rparr>)
      (Some \<lparr>svType = IntVal, svVal = ''8''\<rparr>) = Inr [lSegments demo_list ! 1]"
    "Router_Lookup (\<lambda>_. None) demo_router ''db'' ''l'' (Some \<lparr>svType = IntVal, svVal = ''7''\<rparr>)
      (Some \<lparr>svType = IntVal, svVal = ''7''\<rparr>) = Inr [lSegments demo_list ! 0]"
    by (simp_all add: tbl demo_list_def List_Lookup_def List_GetIndex_def slice_get_def)
  have key: "ShardKey demo_router ''db'' ''l'' = Inr ''id''" by (simp add: ShardKey_def demo_getTable) (simp add: demo_table_def)
  have type: "PartitionType demo_router ''db'' ''l'' = Inr ''LIST''" using tbl(3) by (simp add: demo_list_def)
  have "\<exists>qs. InsertPlan_Build (\<lambda>_. None) demo_router ''db'' demo_insert = Inr qs"
    by (simp add: InsertPlan_Build_def demo_insert_def qualify_table_def Let_def type key isUpdateShardKey_def
        demo_col insert_row_def look slice_get_def)
      (simp add: demo_list_def insert_row_def look [unfolded demo_list_def] slice_get_def)
  then obtain qs where qs: "InsertPlan_Build (\<lambda>_. None) demo_router ''db'' demo_insert = Inr qs" by blast
  have q: "inRows demo_insert = Some (the (inRows demo_insert))" "tnQualifier (inTable (qualify_table ''db'' demo_insert)) = ''db''"
    "tnName (inTable demo_insert) = ''l''"
    by (simp_all add: demo_insert_def qualify_table_def)
  have "inj_on sTable (set (lSegments demo_list))" "Partition_Type (PList demo_list) \<in> {''HASH'', ''LIST''}"
    by (simp_all add: demo_list_def)
  then have "mset (concat (map (\<lambda>q. the (inRows (qtQuery q))) qs)) = mset (the (inRows demo_insert))
    \<and> sorted_wrt (<) (map (\<lambda>q. tnName (inTable (qtQuery q))) qs)"
    using InsertPlan_places_rows [OF qs q(1), of demo_table "PList demo_list"] demo_list_inv demo_getTable demo_partition
    unfolding q(2,3) by simp
  with qs show ?thesis by blast
qed

subsection \<open>The rows an UPDATE or DELETE reaches\<close>

lemma segment_queries_Inr:
  assumes "segment_queries f segs = Inr qs" "seg \<in> set segs"
  shows "\<exists>q \<in> set qs. qtQuery q = f seg \<and> qtBackend q = sBackend seg"
  using assms by (induction f segs arbitrary: qs rule: segment_queries.induct) (auto simp: rbind_eq_Inr)


text \<open>\<open>ID = 8\<close>\<close>

definition demo_eq :: expr where
  "demo_eq = ComparisonExpr EqualStr (ColNameE id_col) (int_lit ''8'') None"

lemma demo_eq_sat: "sat A demo_row demo_eq"
  by (simp add: demo_eq_def col_val_def demo_row_def id_col_def demo_col int_literal_7_8)

lemma demo_eq_plain: "plain_keys ''l'' ''id'' demo_eq"
proof -
  have "key_literals ''l'' ''id'' demo_eq = [int_literal 8]" unfolding int_literal_7_8 by code_simp
  moreover have "in_int64 8" by (simp add: in_int64_def)
  ultimately show ?thesis by (auto simp: plain_keys_def)
qed

lemma demo_key: "ShardKey demo_router ''db'' ''l'' = Inr ''id''"
  by (simp add: ShardKey_def demo_getTable) (simp add: demo_table_def)

lemma demo_eq_lookup:
  "LookupFromWhere id (\<lambda>_. None) demo_router ''db'' ''l'' ''id'' (Some demo_eq) = Inr [lSegments demo_list ! 1]"
  using demo_row_at
  by (simp add: LookupFromWhere_def demo_eq_def convertOrToIn_def filter_lookup_def id_col_def demo_col int_literal_7_8)

definition demo_update :: Update where
  "demo_update = \<lparr>upTable = \<lparr>tnName = ''l'', tnQualifier = []\<rparr>,
     upExprs = [(id_col\<lparr>cnName := ''a''\<rparr>, int_lit ''1'')], upWhere = Some demo_eq, upOrderBy = [], upLimit = []\<rparr>"

lemma demo_range: "KeyRange_String (sRange (lSegments demo_list ! 1)) = Inr []"
  by (simp add: demo_list_def)


lemma walk_map_cols: "ColNameE c \<in> set (walk (map_cols f e)) \<Longrightarrow> \<exists>c'. c = f c'"
  by (induction e rule: walk.induct) (auto split: option.splits)


definition demo_delete :: Delete where
  "demo_delete = \<lparr>dlIsSingleTable = True, dlTable = \<lparr>tnName = ''l'', tnQualifier = []\<rparr>, dlPartitions = None,
     dlWhere = Some demo_eq, dlOrderBy = [], dlLimit = []\<rparr>"


end
