(* ===== verification/Radon_Engine.thy ===== *)
theory Radon_Engine
  imports Radon_Join Radon_Dml
begin

section \<open>The executor of SELECT plans\<close>

text \<open>
  \<open>src/src/executor/engine/{plan_engine,merge_engine,join_engine,union_engine}.go\<close> over the plan tree of
  \<open>src/src/planner/builder\<close>. An engine is a node of the plan with the transaction; the transaction answers
  a read request, and this answer is a parameter. The two sides of a join or a union run concurrently
  and the first error in time is reported; the model reports the left side's when both fail.
\<close>

subsection \<open>Requests\<close>

datatype RequestMode = ReqNormal | ReqScatter | ReqSingle

datatype TxnMode = TxnNone | TxnRead | TxnWrite

record RequestContext =
  rcRawQuery :: string
  rcMode :: RequestMode
  rcTxnMode :: TxnMode
  rcQuerys :: "string QueryTuple list"

definition NewRequestContext :: RequestContext where
  "NewRequestContext = \<lparr>rcRawQuery = [], rcMode = ReqNormal, rcTxnMode = TxnNone, rcQuerys = []\<rparr>"

subsection \<open>Queries with bind variables\<close>

type_synonym bind_vars = "(string \<times> Value) list"

record ParsedQuery =
  pqQuery :: string
  pqBindLocations :: "(nat \<times> nat) list"

text \<open>The bytes that are escaped in a quoted value, with the byte after the backslash.\<close>

definition SQLEncodeMap :: "(char \<times> char) list" where
  "SQLEncodeMap = [(CHR 0x00, CHR ''0''), (CHR 0x27, CHR 0x27), (CHR 0x22, CHR 0x22), (CHR 0x08, CHR ''b''), (CHR 0x0A, CHR ''n''),
     (CHR 0x0D, CHR ''r''), (CHR 0x09, CHR ''t''), (CHR 0x1A, CHR ''Z''), (CHR 0x5C, CHR 0x5C)]"

definition encodeBytesSQL :: "string \<Rightarrow> string" where
  "encodeBytesSQL val =
     CHR 0x27 # concat (map (\<lambda>ch. case map_of SQLEncodeMap ch of None \<Rightarrow> [ch] | Some e \<Rightarrow> [CHR 0x5C, e]) val) @ [CHR 0x27]"

fun EncodeSQL :: "Value \<Rightarrow> string" where
  "EncodeSQL VNull = ''null''"
| "EncodeSQL (VTemporal s) = encodeBytesSQL s"
| "EncodeSQL (VText s) = encodeBytesSQL s"
| "EncodeSQL v = raw v"

text \<open>A location names \<open>:name\<close>, or \<open>::name\<close> for a list; a value of a row is never a list.\<close>

fun FetchBindVar :: "string \<Rightarrow> bind_vars \<Rightarrow> Value res" where
  "FetchBindVar (_ # c # cs) vars =
     (let isList = (c = CHR '':''); name = (if isList then cs else c # cs)
      in case map_of vars name of
           None \<Rightarrow> Inl (GoError (''missing bind var '' @ name))
         | Some v \<Rightarrow> if isList then Inl (GoError (''unexpected list arg type for key '' @ name)) else Inr v)"
| "FetchBindVar _ vars = Inl (GoPanic ''index out of range'')"

fun bind_parts :: "bind_vars \<Rightarrow> string \<Rightarrow> nat \<Rightarrow> (nat \<times> nat) list \<Rightarrow> string res" where
  "bind_parts vars query current [] = Inr (drop current query)"
| "bind_parts vars query current ((offset, len) # locs) =
     (if offset < current \<or> length query < offset + len then Inl (GoPanic ''slice bounds out of range'')
      else rbind (FetchBindVar (take len (drop offset query)) vars) (\<lambda>v.
           rbind (bind_parts vars query (offset + len) locs) (\<lambda>s.
             Inr (take (offset - current) (drop current query) @ EncodeSQL v @ s))))"

definition GenerateQuery :: "ParsedQuery \<Rightarrow> bind_vars \<Rightarrow> string res" where
  "GenerateQuery pq vars =
     (if pqBindLocations pq = [] then Inr (pqQuery pq) else bind_parts vars (pqQuery pq) 0 (pqBindLocations pq))"

text \<open>The second map wins.\<close>

definition combineVars :: "bind_vars \<Rightarrow> bind_vars \<Rightarrow> bind_vars" where
  "combineVars bv1 bv2 = fold (\<lambda>(k, v). AList.update k v) bv2 (fold (\<lambda>(k, v). AList.update k v) bv1 [])"

subsection \<open>The plan tree\<close>

text \<open>
  \<open>mnSel\<close> is the formatted statement and \<open>mnFieldQuery\<close> what \<open>GenerateFieldQuery\<close> makes of it, a query with
  an impossible condition. The children are the operators above a node.
\<close>

record MergeNode =
  mnSel :: string
  mnReqMode :: RequestMode
  mnQuerys :: "string QueryTuple list"
  mnParsedQuerys :: "ParsedQuery list"
  mnFieldQuery :: ParsedQuery
  mnChildren :: "ChildPlan list"

datatype PlanNode =
    Merge MergeNode
  | Join JoinNode "ChildPlan list" PlanNode PlanNode
  | Union string "ChildPlan list" PlanNode PlanNode

fun setNestLoop :: "PlanNode \<Rightarrow> PlanNode" where
  "setNestLoop (Join node children left right) =
     Join (node\<lparr>jnStrategy := NestLoop\<rparr>) children (setNestLoop left) (setNestLoop right)"
| "setNestLoop node = node"

text \<open>What an engine is given: the sort and the arithmetic of the library, the transaction and its row limit.\<close>

record env =
  enSort :: "row slice_sort"
  enArith :: arith
  enTxn :: "RequestContext \<Rightarrow> Result res"
  enMaxJoinRows :: int

subsection \<open>Merge engine\<close>

definition Merge_Execute :: "env \<Rightarrow> MergeNode \<Rightarrow> Result res" where
  "Merge_Execute env m =
     (let reqCtx = NewRequestContext\<lparr>rcMode := mnReqMode m, rcTxnMode := TxnRead\<rparr>;
          reqCtx = (if mnReqMode m = ReqNormal then reqCtx\<lparr>rcQuerys := mnQuerys m\<rparr> else reqCtx\<lparr>rcRawQuery := mnSel m\<rparr>)
      in rbind (enTxn env reqCtx) (ExecSubPlan (enSort env) (enArith env) (mnChildren m)))"

text \<open>The texts of the queries are written into the tuples in place.\<close>

fun bind_querys :: "bind_vars \<Rightarrow> ParsedQuery list \<Rightarrow> string QueryTuple list \<Rightarrow> string QueryTuple list res" where
  "bind_querys vars [] querys = Inr querys"
| "bind_querys vars (p # ps) querys =
     rbind (GenerateQuery p vars) (\<lambda>query.
       case querys of
         [] \<Rightarrow> Inl (GoPanic ''index out of range'')
       | q # qs \<Rightarrow> rbind (bind_querys vars ps qs) (\<lambda>qs. Inr (q\<lparr>qtQuery := query\<rparr> # qs)))"

definition read_request :: "string QueryTuple list \<Rightarrow> RequestContext" where
  "read_request querys = NewRequestContext\<lparr>rcMode := ReqNormal, rcTxnMode := TxnRead, rcQuerys := querys\<rparr>"

definition Merge_execBindVars :: "env \<Rightarrow> MergeNode \<Rightarrow> bind_vars \<Rightarrow> Result res" where
  "Merge_execBindVars env m vars =
     rbind (bind_querys vars (mnParsedQuerys m) (mnQuerys m)) (\<lambda>querys.
     rbind (enTxn env (read_request querys)) (ExecSubPlan (enSort env) (enArith env) (mnChildren m)))"

definition Merge_getFields :: "env \<Rightarrow> MergeNode \<Rightarrow> bind_vars \<Rightarrow> Result res" where
  "Merge_getFields env m vars =
     (if mnQuerys m = [] then Inl (GoPanic ''index out of range'')
      else rbind (GenerateQuery (mnFieldQuery m) vars) (\<lambda>query.
             enTxn env (read_request [(last (mnQuerys m))\<lparr>qtQuery := query\<rparr>])))"

subsection \<open>Join engine\<close>

fun getFields :: "env \<Rightarrow> PlanNode \<Rightarrow> bind_vars \<Rightarrow> Result res" where
  "getFields env (Merge m) vars = Merge_getFields env m vars"
| "getFields env (Join node children left right) vars =
     rbind (getFields env left vars) (\<lambda>lres.
     rbind (getFields env right vars) (\<lambda>rres.
       Inr (empty_Result\<lparr>rsFields := joinFields (rsFields lres) (rsFields rres) (jnCols node)\<rparr>)))"
| "getFields env (Union typ children left right) vars = Inl (GoError ''UnionEngine.getFields: unreachable'')"

definition bind_row :: "JoinNode \<Rightarrow> row \<Rightarrow> bind_vars \<Rightarrow> bind_vars" where
  "bind_row node lrow joinVars = fold (\<lambda>(k, col). AList.update k (lrow ! col)) (jnVars node) joinVars"

text \<open>
  The body of the loop over the left rows. The state is the bound variables, whether the fields are still
  to be set, and the result; \<open>exec\<close> runs the right side.
\<close>

definition nest_row ::
  "arith \<Rightarrow> JoinNode \<Rightarrow> int \<Rightarrow> Field list \<Rightarrow> bind_vars \<Rightarrow> (bind_vars \<Rightarrow> bool \<Rightarrow> Result res) \<Rightarrow> row
   \<Rightarrow> bind_vars \<times> bool \<times> Result \<Rightarrow> (bind_vars \<times> bool \<times> Result) res" where
  "nest_row ar node maxrow lfields vars exec lrow = (\<lambda>(joinVars, wantfields, res).
     rbind
       (if left_match ar node lrow
        then let joinVars = bind_row node lrow joinVars
          in rbind (exec (combineVars vars joinVars) wantfields) (\<lambda>rres.
             let res = (if wantfields then res\<lparr>rsFields := joinFields lfields (rsFields rres) (jnCols node)\<rparr> else res)
             in rbind (fold_res (\<lambda>rrow res. if right_null node rrow then emit maxrow (joinRows lrow (Some rrow) (jnCols node)) res
                                            else Inr res) (rsRows rres) res)
                  (\<lambda>res. Inr (length (rsRows rres), joinVars, False, res)))
        else Inr (0, joinVars, wantfields, res))
       (\<lambda>(matchCnt, joinVars, wantfields, res).
          rbind (if matchCnt = (0::nat) then concatLeftAndNil [lrow] node maxrow res else Inr res)
            (\<lambda>res. Inr (joinVars, wantfields, res))))"

fun execBindVars :: "env \<Rightarrow> PlanNode \<Rightarrow> bind_vars \<Rightarrow> bool \<Rightarrow> Result res" where
  "execBindVars env (Merge m) vars wantfields = Merge_execBindVars env m vars"
| "execBindVars env (Join node children left right) vars wantfields =
     rbind (execBindVars env left vars wantfields) (\<lambda>lres.
     rbind (fold_res (nest_row (enArith env) node (enMaxJoinRows env) (rsFields lres) vars (execBindVars env right))
              (rsRows lres) ([], wantfields, empty_Result))
       (\<lambda>(joinVars, wantfields, res).
          if wantfields
          then let joinVars = fold (\<lambda>(k, _). AList.update k VNull) (jnVars node) joinVars
            in rbind (getFields env right (combineVars vars joinVars)) (\<lambda>rres.
                 Inr (res\<lparr>rsFields := joinFields (rsFields lres) (rsFields rres) (jnCols node)\<rparr>))
          else Inr res))"
| "execBindVars env (Union typ children left right) vars wantfields = Inl (GoError ''UnionEngine.execBindVars: unreachable'')"

definition join_results :: "env \<Rightarrow> JoinNode \<Rightarrow> ChildPlan list \<Rightarrow> Result \<Rightarrow> Result \<Rightarrow> Result res" where
  "join_results env node children lres rres =
     (let res = empty_Result\<lparr>rsFields := joinFields (rsFields lres) (rsFields rres) (jnCols node)\<rparr>;
          maxrow = enMaxJoinRows env
      in if rsRows lres = [] then Inr res
         else rbind
           (if rsRows rres = [] then concatLeftAndNil (rsRows lres) node maxrow res
            else if jnStrategy node = SortMerge
            then sortMergeJoin (enSort env) (enArith env) (rsRows lres) (rsRows rres) node maxrow res
            else cartesianProduct (rsRows lres) (rsRows rres) node maxrow res)
           (ExecSubPlan (enSort env) (enArith env) children))"

subsection \<open>Union engine\<close>

definition row_key :: "row \<Rightarrow> string" where
  "row_key row = concat (map raw row)"

definition distinct_table :: "row list \<Rightarrow> row HashTable" where
  "distinct_table rows =
     fold (\<lambda>row table. if table_Get table (row_key row) = None then table_Put (row_key row) row table else table)
       rows NewHashTable"

definition union_results :: "env \<Rightarrow> string \<Rightarrow> ChildPlan list \<Rightarrow> Result \<Rightarrow> Result \<Rightarrow> Result res" where
  "union_results env typ children lres rres =
     (if length (rsFields lres) \<noteq> length (rsFields rres)
      then Inl (GoError ''unsupported: the.used.'select'.statements.have.a.different.number.of.columns'')
      else let all = AppendResult lres rres; res = empty_Result\<lparr>rsFields := rsFields lres\<rparr>
        in if rsRows all = [] then Inr res
           else ExecSubPlan (enSort env) (enArith env) children
             (if typ = ''union distinct'' \<or> typ = ''union''
              then let table = distinct_table (rsRows all)
                in res\<lparr>rsRows := map (\<lambda>(_, v). hd v) (table_Next table), rsRowsAffected := of_nat (htSize table)\<rparr>
              else res\<lparr>rsRows := rsRows all, rsRowsAffected := rsRowsAffected all\<rparr>))"

subsection \<open>Execute\<close>

fun Execute :: "env \<Rightarrow> PlanNode \<Rightarrow> Result res" where
  "Execute env (Merge m) = Merge_Execute env m"
| "Execute env (Join node children left right) =
     (if jnStrategy node = NestLoop
      then rbind (execBindVars env (Join node children left right) [] True) (ExecSubPlan (enSort env) (enArith env) children)
      else rbind (Execute env left) (\<lambda>lres. rbind (Execute env right) (join_results env node children lres)))"
| "Execute env (Union typ children left right) =
     rbind (Execute env left) (\<lambda>lres. rbind (Execute env right) (union_results env typ children lres))"

subsection \<open>Bound variables\<close>

lemma distinct_keys_fold_update:
  "distinct_keys m \<Longrightarrow> distinct_keys (fold (\<lambda>(k, x). AList.update k (f x)) vs m)"
  by (induction vs arbitrary: m) (auto simp: distinct_keys_update split: prod.splits)

lemma map_of_fold_update:
  "distinct_keys vs \<Longrightarrow> map_of (fold (\<lambda>(k, x). AList.update k (f x)) vs m) k =
     (case map_of vs k of Some x \<Rightarrow> Some (f x) | None \<Rightarrow> map_of m k)"
proof (induction vs arbitrary: m)
  case (Cons v vs)
  obtain k' x where v: "v = (k', x)" by force
  have "map_of vs k' = None" "distinct_keys vs" using Cons.prems by (auto simp: v distinct_keys_def map_of_eq_None_iff)
  then show ?case by (auto simp: v Cons.IH update_conv' split: option.splits)
qed simp

lemma map_of_combineVars:
  assumes "distinct_keys bv1" "distinct_keys bv2"
  shows "map_of (combineVars bv1 bv2) = map_of bv1 ++ map_of bv2"
proof
  fix k
  show "map_of (combineVars bv1 bv2) k = (map_of bv1 ++ map_of bv2) k"
    using map_of_fold_update [OF assms(1), of "\<lambda>x. x" "[]" k] map_of_fold_update [OF assms(2), of "\<lambda>x. x" _ k]
    by (simp add: combineVars_def map_add_def split: option.splits)
qed

definition bound :: "JoinNode \<Rightarrow> row \<Rightarrow> string \<rightharpoonup> Value" where
  "bound node l = (\<lambda>k. map_option (\<lambda>col. l ! col) (map_of (jnVars node) k))"

definition vars_ok :: "JoinNode \<Rightarrow> bind_vars \<Rightarrow> bool" where
  "vars_ok node jv \<longleftrightarrow> distinct_keys jv \<and> keys jv \<subseteq> keys (jnVars node)"

lemma bind_row_bound:
  assumes "distinct_keys (jnVars node)" "vars_ok node jv"
  shows "vars_ok node (bind_row node l jv)" "map_of (bind_row node l jv) = bound node l"
proof -
  have m: "map_of (bind_row node l jv) k = (case map_of (jnVars node) k of Some col \<Rightarrow> Some (l ! col) | None \<Rightarrow> map_of jv k)" for k
    unfolding bind_row_def by (rule map_of_fold_update [OF assms(1)])
  have "map_of jv k = None" if "map_of (jnVars node) k = None" for k
    using assms(2) that by (auto simp: vars_ok_def map_of_None_keys)
  with m show eq: "map_of (bind_row node l jv) = bound node l"
    by (intro ext) (auto simp: bound_def split: option.splits)
  have "keys (bind_row node l jv) = dom (bound node l)" unfolding eq [symmetric] by (rule dom_map_of_conv_image_fst [symmetric])
  also have "\<dots> = dom (map_of (jnVars node))" by (auto simp: bound_def dom_def)
  also have "\<dots> = keys (jnVars node)" by (rule dom_map_of_conv_image_fst)
  finally show "vars_ok node (bind_row node l jv)"
    using assms(2) distinct_keys_fold_update [of jv] by (simp add: vars_ok_def bind_row_def)
qed

subsection \<open>The nested loop with bound variables\<close>

definition dependent_row :: "arith \<Rightarrow> JoinNode \<Rightarrow> (row \<Rightarrow> row list) \<Rightarrow> row \<Rightarrow> row list" where
  "dependent_row ar node R l =
     (if left_match ar node l \<and> R l \<noteq> [] then map (\<lambda>r. joinRows l (Some r) (jnCols node)) (filter (right_null node) (R l))
      else outer_row node l)"

text \<open>The right side, given the values of a left row, answers with the rows \<open>R\<close> assigns to it.\<close>

definition answers :: "JoinNode \<Rightarrow> bind_vars \<Rightarrow> (bind_vars \<Rightarrow> bool \<Rightarrow> Result res) \<Rightarrow> (row \<Rightarrow> row list) \<Rightarrow> row \<Rightarrow> bool" where
  "answers node vars exec R l \<longleftrightarrow>
     (\<forall>vars' w. map_of vars' = map_of vars ++ bound node l \<longrightarrow> (\<exists>rres. exec vars' w = Inr rres \<and> rsRows rres = R l))"

lemma nest_row_emits:
  assumes "distinct_keys (jnVars node)" "distinct_keys vars" "vars_ok node jv" "answers node vars exec R l"
  shows "\<exists>jv' w' fs. vars_ok node jv' \<and> nest_row ar node maxrow lf vars exec l (jv, w, res) =
    rbind (emit_all maxrow (dependent_row ar node R l) (res\<lparr>rsFields := fs\<rparr>)) (\<lambda>res. Inr (jv', w', res))"
proof (cases "left_match ar node l")
  case True
  let ?jv = "bind_row node l jv"
  note b = bind_row_bound [OF assms(1,3), of l]
  have "map_of (combineVars vars ?jv) = map_of vars ++ bound node l"
    using map_of_combineVars [OF assms(2), of ?jv] b by (simp add: vars_ok_def)
  with assms(4) obtain rres where r: "exec (combineVars vars ?jv) w = Inr rres" "rsRows rres = R l"
    unfolding answers_def by blast
  let ?fs = "if w then joinFields lf (rsFields rres) (jnCols node) else rsFields res"
  have "nest_row ar node maxrow lf vars exec l (jv, w, res) =
    rbind (emit_all maxrow (dependent_row ar node R l) (res\<lparr>rsFields := ?fs\<rparr>)) (\<lambda>res. Inr (?jv, False, res))"
    using True r
    by (cases "R l = []") (auto simp: nest_row_def Let_def emits_matches dependent_row_def concatLeftAndNil_emits rbind_assoc)
  with b(1) show ?thesis by blast
next
  case False
  then have "nest_row ar node maxrow lf vars exec l (jv, w, res) =
    rbind (emit_all maxrow (dependent_row ar node R l) (res\<lparr>rsFields := rsFields res\<rparr>)) (\<lambda>res. Inr (jv, w, res))"
    by (simp add: nest_row_def dependent_row_def concatLeftAndNil_emits)
  with assms(3) show ?thesis by blast
qed

lemma nest_rows_emit:
  assumes "distinct_keys (jnVars node)" "distinct_keys vars" "\<forall>l \<in> set ls. answers node vars exec R l"
    and "vars_ok node jv" "int (length (rsRows res)) \<le> maxrow"
  shows "case fold_res (nest_row ar node maxrow lf vars exec) ls (jv, w, res) of
      Inl e \<Rightarrow> e = join_limit \<and> maxrow < int (length (rsRows res @ concat (map (dependent_row ar node R) ls)))
    | Inr (jv', w', res') \<Rightarrow> vars_ok node jv' \<and> rsRows res' = rsRows res @ concat (map (dependent_row ar node R) ls)
        \<and> rsRowsAffected res' = rsRowsAffected res + of_nat (length (concat (map (dependent_row ar node R) ls)))
        \<and> int (length (rsRows res')) \<le> maxrow"
  using assms(3-5)
proof (induction ls arbitrary: jv w res)
  case (Cons l ls)
  from Cons.prems(1) have "answers node vars exec R l" by simp
  from nest_row_emits [OF assms(1,2) Cons.prems(2) this] obtain jv' w' fs where jv': "vars_ok node jv'"
    and row: "nest_row ar node maxrow lf vars exec l (jv, w, res) =
      rbind (emit_all maxrow (dependent_row ar node R l) (res\<lparr>rsFields := fs\<rparr>)) (\<lambda>res. Inr (jv', w', res))" by metis
  show ?case
  proof (cases "maxrow < int (length (rsRows res) + length (dependent_row ar node R l))")
    case True
    with Cons.prems(3) show ?thesis by (auto simp: row emit_all_eq)
  next
    case False
    let ?res = "res\<lparr>rsFields := fs, rsRows := rsRows res @ dependent_row ar node R l,
      rsRowsAffected := rsRowsAffected res + of_nat (length (dependent_row ar node R l))\<rparr>"
    from False have "fold_res (nest_row ar node maxrow lf vars exec) (l # ls) (jv, w, res)
      = fold_res (nest_row ar node maxrow lf vars exec) ls (jv', w', ?res)" by (simp add: row emit_all_eq)
    with Cons.IH [of jv' ?res w'] Cons.prems(1) jv' False show ?thesis
      by (auto simp: add.assoc split: sum.splits)
  qed
qed simp

text \<open>The fields of the right side can be fetched when every variable is null.\<close>

definition fetches :: "JoinNode \<Rightarrow> bind_vars \<Rightarrow> (bind_vars \<Rightarrow> Result res) \<Rightarrow> bool" where
  "fetches node vars fetch \<longleftrightarrow>
     (\<forall>vars'. map_of vars' = map_of vars ++ (\<lambda>k. map_option (\<lambda>_. VNull) (map_of (jnVars node) k)) \<longrightarrow> (\<exists>rres. fetch vars' = Inr rres))"

lemma null_vars:
  assumes "distinct_keys (jnVars node)" "distinct_keys vars" "vars_ok node jv"
  shows "map_of (combineVars vars (fold (\<lambda>(k, _). AList.update k VNull) (jnVars node) jv))
    = map_of vars ++ (\<lambda>k. map_option (\<lambda>_. VNull) (map_of (jnVars node) k))"
proof -
  let ?jv = "fold (\<lambda>(k, _). AList.update k VNull) (jnVars node) jv"
  have "distinct_keys ?jv" using distinct_keys_fold_update [of jv "\<lambda>_. VNull"] assms(3) by (simp add: vars_ok_def)
  moreover have "map_of ?jv k = map_option (\<lambda>_. VNull) (map_of (jnVars node) k)" for k
    using map_of_fold_update [OF assms(1), of "\<lambda>_. VNull" jv k] assms(3) map_of_None_keys [of jv k]
      map_of_None_keys [of "jnVars node" k] by (auto simp: vars_ok_def split: option.splits)
  ultimately show ?thesis using map_of_combineVars [OF assms(2), of ?jv] by presburger
qed

lemma execBindVars_join:
  assumes "distinct_keys (jnVars node)" "distinct_keys vars" "0 \<le> enMaxJoinRows env"
    and "execBindVars env left vars w = Inr lres" "fetches node vars (getFields env right)"
    and "\<forall>l \<in> set (rsRows lres). answers node vars (execBindVars env right) R l"
  defines "rows \<equiv> concat (map (dependent_row (enArith env) node R) (rsRows lres))"
  shows "case execBindVars env (Join node children left right) vars w of
      Inl e \<Rightarrow> e = join_limit \<and> enMaxJoinRows env < int (length rows)
    | Inr res \<Rightarrow> rsRows res = rows \<and> rsRowsAffected res = of_nat (length rows) \<and> int (length rows) \<le> enMaxJoinRows env"
proof -
  let ?f = "fold_res (nest_row (enArith env) node (enMaxJoinRows env) (rsFields lres) vars (execBindVars env right))
    (rsRows lres) ([], w, empty_Result)"
  have loop: "case ?f of Inl e \<Rightarrow> e = join_limit \<and> enMaxJoinRows env < int (length rows)
    | Inr (jv', w', res') \<Rightarrow> vars_ok node jv' \<and> rsRows res' = rows \<and> rsRowsAffected res' = of_nat (length rows)
        \<and> int (length rows) \<le> enMaxJoinRows env"
    using nest_rows_emit [OF assms(1,2,6), of "[]" empty_Result "enMaxJoinRows env" "enArith env" "rsFields lres" w] assms(3)
    by (auto simp: vars_ok_def empty_Result_def rows_def split: sum.splits)
  show ?thesis
  proof (cases ?f)
    case (Inl e)
    with loop assms(4) show ?thesis by simp
  next
    case (Inr st)
    obtain jv' w' res' where st: "st = (jv', w', res')" by (metis prod_cases3)
    with Inr loop have "vars_ok node jv'" by simp
    from null_vars [OF assms(1,2) this] assms(5) obtain rres
      where "getFields env right (combineVars vars (fold (\<lambda>(k, _). AList.update k VNull) (jnVars node) jv')) = Inr rres"
      unfolding fetches_def by blast
    with Inr st loop assms(4) show ?thesis by simp
  qed
qed

text \<open>For a right side that filters its rows by the join condition this is the reference of the sort-merge join.\<close>

definition condition :: "arith \<Rightarrow> JoinNode \<Rightarrow> row \<Rightarrow> row \<Rightarrow> bool" where
  "condition ar node l r \<longleftrightarrow>
     key_match (arCompare ar) node l r \<and> list_all (filter_match (arCompare ar) l r) (jnCmpFilter node)"

lemma dependent_nested_loop:
  assumes "jnCols node' = jnCols node" "jnLeftTmpCols node' = jnLeftTmpCols node" "jnRightTmpCols node' = jnRightTmpCols node"
    and "jnIsLeftJoin node' = jnIsLeftJoin node" "jnHasRightFilter node' = jnHasRightFilter node"
  shows "concat (map (dependent_row ar node' (\<lambda>l. filter (condition ar node l) rs)) ls) = nested_loop ar node ls rs"
proof -
  have "dependent_row ar node' (\<lambda>l. filter (condition ar node l) rs) l
      = pairs ar node (filter (key_match (arCompare ar) node l) rs) l" for l
  proof -
    have "filter (condition ar node l) rs
      = filter (\<lambda>r. list_all (filter_match (arCompare ar) l r) (jnCmpFilter node)) (filter (key_match (arCompare ar) node l) rs)"
      unfolding filter_filter by (rule filter_cong) (auto simp: condition_def)
    moreover have "left_match ar node' l = left_match ar node l" "right_null node' = right_null node"
      "outer_row node' l = outer_row node l"
      using assms by (auto simp: left_match_def right_null_def outer_row_def)
    ultimately show ?thesis unfolding dependent_row_def pairs_def Let_def assms(1) by auto
  qed
  then have "dependent_row ar node' (\<lambda>l. filter (condition ar node l) rs)
      = (\<lambda>l. pairs ar node (filter (key_match (arCompare ar) node l) rs) l)" by (rule ext)
  then show ?thesis by (simp only: nested_loop_def)
qed

lemma ExecSubPlan_Nil [simp]: "ExecSubPlan srt ar [] = Inr"
  by (rule ext) simp


text \<open>\<open>SELECT t1.a, t2.a FROM t1 JOIN t2 ON t1.a = t2.a\<close>, with the texts of the queries abbreviated.\<close>

definition demo_query :: "string \<Rightarrow> string QueryTuple" where
  "demo_query q = \<lparr>qtQuery = q, qtBackend = ''backend1'', qtRange = []\<rparr>"

definition demo_node :: "string \<Rightarrow> ParsedQuery \<Rightarrow> ParsedQuery \<Rightarrow> PlanNode" where
  "demo_node q pq fq = Merge \<lparr>mnSel = q, mnReqMode = ReqNormal, mnQuerys = [demo_query q], mnParsedQuerys = [pq],
     mnFieldQuery = fq, mnChildren = []\<rparr>"

abbreviation demo_t1 :: PlanNode where
  "demo_t1 \<equiv> demo_node ''L'' \<lparr>pqQuery = ''L'', pqBindLocations = []\<rparr> \<lparr>pqQuery = ''L0'', pqBindLocations = []\<rparr>"

abbreviation demo_t2 :: PlanNode where
  "demo_t2 \<equiv> demo_node ''R'' \<lparr>pqQuery = ''R=:v'', pqBindLocations = [(2, 2)]\<rparr> \<lparr>pqQuery = ''F=:v'', pqBindLocations = [(2, 2)]\<rparr>"

definition demo_rows :: "(string \<times> row list) list" where
  "demo_rows = [(''L'', [[VSigned 3], [VSigned 1]]), (''R'', [[VSigned 2], [VSigned 3]]), (''R=3'', [[VSigned 3]]), (''R=1'', []),
     (''F=null'', [])]"

definition demo_txn :: "RequestContext \<Rightarrow> Result res" where
  "demo_txn req =
     (case rcQuerys req of
        [q] \<Rightarrow> (case map_of demo_rows (qtQuery q) of
                 Some rows \<Rightarrow> Inr \<lparr>rsFields = [demo_field ''a''], rsRowsAffected = 0, rsInsertID = 0, rsRows = rows\<rparr>
               | None \<Rightarrow> Inl (GoError ''syntax error''))
      | _ \<Rightarrow> Inl (GoError ''no query''))"

definition demo_env :: env where
  "demo_env = \<lparr>enSort = insertion_sort, enArith = demo_arith, enTxn = demo_txn, enMaxJoinRows = 100\<rparr>"

lemma demo_bind:
  "map_of vars ''v'' = Some (VSigned 3) \<Longrightarrow> bind_parts vars ''R=:v'' 0 [(2, 2)] = Inr ''R=3''"
  "map_of vars ''v'' = Some (VSigned 1) \<Longrightarrow> bind_parts vars ''R=:v'' 0 [(2, 2)] = Inr ''R=1''"
  "map_of vars ''v'' = Some VNull \<Longrightarrow> bind_parts vars ''F=:v'' 0 [(2, 2)] = Inr ''F=null''"
  by (simp_all add: Let_def sprintf_d_def dec_string.simps digit_char_def char_of_def bit_0)


subsection \<open>UNION DISTINCT\<close>

lemma table_Put_size [simp]: "htSize (table_Put k v h) = Suc (htSize h)"
  by (simp add: table_Put_def Let_def split: option.split)

lemma distinct_table_size:
  assumes "HashTable_inv t" "htSize t = length (table_Next t)"
  defines "step \<equiv> \<lambda>row table. if table_Get table (row_key row) = None then table_Put (row_key row) row table else table"
  shows "htSize (fold step rows t) = length (table_Next (fold step rows t))"
  using assms(1,2)
proof (induction rows arbitrary: t)
  case (Cons row rows)
  have "HashTable_inv (step row t)" "htSize (step row t) = length (table_Next (step row t))"
    using Cons.prems hash_table.length_entries_put [of t "row_key row" row]
    by (auto simp: step_def hash_table.inv_put)
  from Cons.IH [OF this] show ?case by simp
qed simp

lemma distinct_table_props:
  "HashTable_inv (distinct_table rows)"
  "table_Get (distinct_table rows) k = map_option (\<lambda>x. [x]) (find (\<lambda>x. row_key x = k) rows)"
  "htSize (distinct_table rows) = length (table_Next (distinct_table rows))"
proof -
  note f = hash_table.first_of_key [OF hash_table.inv_empty, of row_key rows, folded distinct_table_def]
  from f show "HashTable_inv (distinct_table rows)" by blast
  from f [of k] show "table_Get (distinct_table rows) k = map_option (\<lambda>x. [x]) (find (\<lambda>x. row_key x = k) rows)"
    by (simp add: hash_table.get_empty)
  show "htSize (distinct_table rows) = length (table_Next (distinct_table rows))"
    unfolding distinct_table_def
    by (rule distinct_table_size [OF hash_table.inv_empty]) (simp add: NewHashTable_def table_Next_def)
qed

lemma distinct_table_rows:
  assumes "out = map (\<lambda>(_, v). hd v) (table_Next (distinct_table rows))"
  shows "distinct (map row_key out)" "set out = {r. find (\<lambda>x. row_key x = row_key r) rows = Some r}"
proof -
  let ?es = "table_Next (distinct_table rows)"
  note inv = distinct_table_props(1)
  have e: "(k, v) \<in> set ?es \<longleftrightarrow> (\<exists>r. find (\<lambda>x. row_key x = k) rows = Some r \<and> v = [r])" for k v
    by (auto simp: hash_table.entries_mem [OF inv] distinct_table_props(2))
  have k: "row_key r = k" if "find (\<lambda>x. row_key x = k) rows = Some r" for k r
    using that by (auto simp: find_Some_iff)
  show "set out = {r. find (\<lambda>x. row_key x = row_key r) rows = Some r}"
  proof (intro set_eqI iffI)
    fix r assume "r \<in> set out"
    then obtain k' v where "(k', v) \<in> set ?es" and r: "r = hd v" unfolding assms by auto
    then have f: "find (\<lambda>x. row_key x = k') rows = Some r" unfolding e by auto
    from f [folded k [OF f]] show "r \<in> {r. find (\<lambda>x. row_key x = row_key r) rows = Some r}" by simp
  next
    fix r assume "r \<in> {r. find (\<lambda>x. row_key x = row_key r) rows = Some r}"
    then have "(row_key r, [r]) \<in> set ?es" unfolding e by simp
    then show "r \<in> set out" unfolding assms set_map by (rule rev_image_eqI) simp
  qed
  have "map row_key out = map fst ?es"
    unfolding assms map_map
  proof (rule map_cong [OF refl])
    fix x assume "x \<in> set ?es"
    moreover obtain k' v where x: "x = (k', v)" by force
    ultimately obtain r where r: "find (\<lambda>x. row_key x = k') rows = Some r" "v = [r]" using e [of k' v] by blast
    from k [OF r(1)] r(2) show "(row_key \<circ> (\<lambda>(_, v). hd v)) x = fst x" by (simp add: x)
  qed
  then show "distinct (map row_key out)" using hash_table.entries_distinct [OF inv] by (simp add: distinct_keys_def)
qed

lemma find_cover: "f ` {r. find (\<lambda>x. f x = f r) xs = Some r} = f ` set xs"
proof (intro equalityI subsetI)
  fix k assume "k \<in> f ` set xs"
  then have "find (\<lambda>x. f x = k) xs \<noteq> None" by (auto simp: find_None_iff)
  then obtain r where r: "find (\<lambda>x. f x = k) xs = Some r" by blast
  then have "f r = k" by (auto simp: find_Some_iff)
  with r show "k \<in> f ` {r. find (\<lambda>x. f x = f r) xs = Some r}" by (intro image_eqI [of _ _ r]) simp_all
qed (auto simp: find_Some_iff)

text \<open>C32: UNION DISTINCT of two results with the same number of columns returns the first row of every key,
  where a key is the concatenation of the row's values; no two returned rows have the same key, every
  row of either side is represented by one with its key, and the affected rows are counted.\<close>

theorem union_distinct_rows:
  assumes "Execute env left = Inr lres" "Execute env right = Inr rres" "typ \<in> {''union'', ''union distinct''}"
    and "length (rsFields lres) = length (rsFields rres)" "rsFields rres \<noteq> []"
  shows "\<exists>res. Execute env (Union typ [] left right) = Inr res
    \<and> distinct (map row_key (rsRows res))
    \<and> set (rsRows res) = {r. find (\<lambda>x. row_key x = row_key r) (rsRows lres @ rsRows rres) = Some r}
    \<and> row_key ` set (rsRows res) = row_key ` (set (rsRows lres) \<union> set (rsRows rres))
    \<and> rsRowsAffected res = of_nat (length (rsRows res))"
proof -
  let ?all = "rsRows lres @ rsRows rres"
  let ?out = "map (\<lambda>(_, v). hd v) (table_Next (distinct_table ?all))"
  have all: "rsRows (AppendResult lres rres) = ?all" using assms(5) by (auto simp: AppendResult_def Let_def)
  note d = distinct_table_rows [OF refl, of ?all]
  define res where "res = empty_Result\<lparr>rsFields := rsFields lres, rsRows := ?out, rsRowsAffected := of_nat (length ?out)\<rparr>"
  have "Execute env (Union typ [] left right) = Inr res"
  proof (cases "?all = []")
    case True
    then have "table_Next (distinct_table ?all) = []" by (simp add: distinct_table_def NewHashTable_def table_Next_def)
    with True assms(1,2,4) all show ?thesis by (simp add: union_results_def Let_def res_def empty_Result_def)
  next
    case False
    with assms(1-4) all show ?thesis by (auto simp: union_results_def Let_def res_def distinct_table_props(3))
  qed
  moreover have "rsRows res = ?out" "rsRowsAffected res = of_nat (length ?out)" by (simp_all add: res_def)
  ultimately show ?thesis using d find_cover [of row_key ?all] by (intro exI [of _ res]) (simp only: set_append)
qed

theorem union_distinct_rows_witness:
  "\<exists>res. Execute demo_env (Union ''union'' [] demo_t1 demo_t2) = Inr res \<and> distinct (map row_key (rsRows res))
    \<and> row_key ` set (rsRows res) = row_key ` {[VSigned 3], [VSigned 1], [VSigned 2]}"
proof -
  let ?rs = "\<lambda>rows. \<lparr>rsFields = [demo_field ''a''], rsRowsAffected = 0, rsInsertID = 0, rsRows = rows\<rparr>"
  have "Execute demo_env demo_t1 = Inr (?rs [[VSigned 3], [VSigned 1]])"
    "Execute demo_env demo_t2 = Inr (?rs [[VSigned 2], [VSigned 3]])"
    by (simp_all add: demo_env_def demo_node_def Merge_Execute_def demo_txn_def demo_query_def NewRequestContext_def demo_rows_def)
  from union_distinct_rows [OF this, of "''union''"] show ?thesis by (auto simp: insert_commute simp del: Execute.simps)
qed


subsection \<open>Two paths that differ from the others\<close>



definition demo_count :: ChildPlan where
  "demo_count = ChildAggregate \<lparr>apNormalAggrs = [\<lparr>agField = ''a'', agIndex = 0, agType = AggrTypeCount, agDistinct = False\<rparr>],
     apGroupAggrs = [], apIsPushDown = False\<rparr>"

definition demo_none :: Result where
  "demo_none = empty_Result\<lparr>rsFields := [demo_field ''a'']\<rparr>"

definition demo_one :: Result where
  "demo_one = demo_none\<lparr>rsRows := [[VSigned 1]]\<rparr>"


end
