(* ===== verification/Radon_Shape.thy ===== *)
theory Radon_Shape
  imports Radon_Engine
begin

section \<open>The shape of results\<close>

text \<open>
  Every result a plan tree returns is a table: each of its rows has one value for each of its fields, which is what
  the protocol writer relies on when it sends the rows. The operators and engines of \<open>src/src/executor/engine/\<close>
  are taken in the order in which \<open>Execute\<close> composes them.
\<close>

definition wide :: "nat \<Rightarrow> Result \<Rightarrow> bool" where
  "wide n rs \<longleftrightarrow> (\<forall>row \<in> set (rsRows rs). length row = n)"

lemma Result_ok_wide: "Result_ok rs \<longleftrightarrow> wide (length (rsFields rs)) rs"
  by (simp add: Result_ok_def wide_def)

subsection \<open>Operators\<close>

lemma add_row_groups: "set (map fst (add_row ar aggrs idxs row groups)) \<subseteq> insert row (set (map fst groups))"
  by (cases groups rule: rev_cases) (auto simp: add_row_def split: prod.splits)

lemma fold_add_row_groups: "set (map fst (fold (add_row ar aggrs idxs) rows groups)) \<subseteq> set rows \<union> set (map fst groups)"
proof (induction rows arbitrary: groups)
  case (Cons row rows)
  from Cons.IH [of "add_row ar aggrs idxs row groups"] add_row_groups [of ar aggrs idxs row groups] show ?case by auto
qed simp

lemma GetResults_length: "GetResults ar acs x = Inr (row, de) \<Longrightarrow> length row = length x"
  by (induction ar acs x arbitrary: row de rule: GetResults.induct)
    (auto simp: rbind_eq_Inr split: if_splits list.splits prod.splits)

lemma group_results_length:
  "group_results ar aggrs groups = Inr (rows, de) \<Longrightarrow> \<forall>g \<in> set (map fst groups). length g = n \<Longrightarrow> \<forall>row \<in> set rows. length row = n"
  by (induction ar aggrs groups arbitrary: rows de rule: group_results.induct)
    (auto simp: rbind_eq_Inr dest: GetResults_length)

lemma Aggregate_Execute_shape:
  assumes "sorts srt" "Result_ok rs" "Aggregate_Execute srt ar plan rs = Inr rs'"
  shows "Result_ok rs'"
proof (cases "AggregatePlan_Empty plan")
  case False
  let ?idxs = "map agIndex (apGroupAggrs plan)"
  let ?rows = "if ?idxs = [] then rsRows rs else srt (keys_le (arCompare ar) (map (\<lambda>i. (i, False)) ?idxs)) (rsRows rs)"
  obtain aggrs fs where na: "new_aggrs (apIsPushDown plan) (apNormalAggrs plan) (rsFields rs) = (aggrs, fs)" by force
  have fs: "length fs = length (rsFields rs)" using length_new_aggrs [of "apIsPushDown plan" "apNormalAggrs plan" "rsFields rs"] by (simp add: na)
  let ?groups = "fold (add_row ar aggrs ?idxs) ?rows []"
  have "set ?rows = set (rsRows rs)" using assms(1) by (auto simp: sorts_def dest: mset_eq_setD)
  then have "set (map fst ?groups) \<subseteq> set (rsRows rs)"
    using fold_add_row_groups [of ar aggrs ?idxs ?rows "[]"] by (simp only: list.map list.set Un_empty_right)
  then have g: "\<forall>g \<in> set (map fst ?groups). length g = length fs" using assms(2) unfolding fs Result_ok_def by blast
  from assms(3) False obtain rows' de where
    r: "(if ?groups = [] \<and> aggrs \<noteq> [] then group_results ar aggrs [(replicate (length fs) VNull, NewAggEvalCtxs aggrs None)]
         else group_results ar aggrs ?groups) = Inr (rows', de)"
    and rs': "rs' = RemoveColumns de (rs\<lparr>rsFields := fs, rsRows := rows'\<rparr>)"
    by (auto simp: Aggregate_Execute_def Let_def na rbind_eq_Inr split: if_splits)
  have "\<forall>row \<in> set rows'. length row = length fs"
  proof (cases "?groups = [] \<and> aggrs \<noteq> []")
    case True
    with r have "group_results ar aggrs [(replicate (length fs) VNull, NewAggEvalCtxs aggrs None)] = Inr (rows', de)"
      by (simp only: if_True simp_thms)
    then show ?thesis by (rule group_results_length) simp
  next
    case f: False
    from r f have "group_results ar aggrs ?groups = Inr (rows', de)" by (simp only: if_False)
    then show ?thesis by (rule group_results_length [OF _ g])
  qed
  then show ?thesis unfolding rs' by (intro Result_ok_RemoveColumns) (simp add: Result_ok_def)
qed (use assms in \<open>simp add: Aggregate_Execute_def\<close>)

lemma OrderBy_Execute_shape:
  assumes "sorts srt" "Result_ok rs" "OrderBy_Execute srt ncmp plan rs = Inr rs'"
  shows "Result_ok rs'"
proof -
  have "set (srt le (rsRows rs)) = set (rsRows rs)" for le using assms(1) by (auto simp: sorts_def dest: mset_eq_setD)
  then have "Result_ok (rs\<lparr>rsRows := srt le (rsRows rs)\<rparr>)" for le using assms(2) by (simp add: Result_ok_def)
  with assms(3) show ?thesis by (auto simp: OrderBy_Execute_def intro: Result_ok_RemoveColumns split: prod.splits if_splits)
qed

lemma Limit_Execute_shape: "Result_ok rs \<Longrightarrow> Limit_Execute plan rs = Inr rs' \<Longrightarrow> Result_ok rs'"
  by (auto simp: Limit_Execute_def Result_Limit_def Let_def Result_ok_def split: if_splits dest!: in_set_dropD in_set_takeD)

lemma ExecSubPlan_shape:
  assumes "sorts srt"
  shows "Result_ok rs \<Longrightarrow> ExecSubPlan srt ar plans rs = Inr rs' \<Longrightarrow> Result_ok rs'"
proof (induction plans arbitrary: rs)
  case (Cons p ps)
  from Cons.prems(2) obtain rs1 where
    p: "(case p of ChildAggregate p \<Rightarrow> Aggregate_Execute srt ar p rs | ChildOrderby p \<Rightarrow> OrderBy_Execute srt (arCompare ar) p rs
          | ChildLimit p \<Rightarrow> Limit_Execute p rs) = Inr rs1" and ps: "ExecSubPlan srt ar ps rs1 = Inr rs'"
    by (auto simp: rbind_eq_Inr)
  from p Cons.prems(1) have "Result_ok rs1"
    by (cases p) (auto dest: Aggregate_Execute_shape [OF assms] OrderBy_Execute_shape [OF assms] Limit_Execute_shape)
  then show ?case using Cons.IH ps by blast
qed simp

subsection \<open>Joins\<close>

lemma joinRows_length [simp]: "length (joinRows l r cols) = length cols"
  by (simp add: joinRows_def)

lemma joinFields_length [simp]: "length (joinFields l r cols) = length cols"
  by (simp add: joinFields_def)

text \<open>A row of a join has one value for each column of the join; the fields are left as they are.\<close>

definition joined :: "JoinNode \<Rightarrow> Result \<Rightarrow> Result \<Rightarrow> bool" where
  "joined node res res' \<longleftrightarrow> rsFields res' = rsFields res \<and> (wide (length (jnCols node)) res \<longrightarrow> wide (length (jnCols node)) res')"

lemma joined_refl [simp]: "joined node res res"
  by (simp add: joined_def)

lemma joined_trans: "joined node a b \<Longrightarrow> joined node b c \<Longrightarrow> joined node a c"
  by (simp add: joined_def)

lemma emit_joined: "emit maxrow (joinRows l r (jnCols node)) res = Inr res' \<Longrightarrow> joined node res res'"
  by (auto simp: emit_def Let_def joined_def wide_def split: if_splits)

lemma fold_joined:
  assumes "\<And>x a b. f x a = Inr b \<Longrightarrow> joined node a b"
  shows "fold_res f xs res = Inr res' \<Longrightarrow> joined node res res'"
  by (induction xs arbitrary: res) (auto simp: rbind_eq_Inr intro: joined_trans assms)

lemma concatLeftAndNil_joined: "concatLeftAndNil lrows node maxrow res = Inr res' \<Longrightarrow> joined node res res'"
  by (auto simp: concatLeftAndNil_def split: if_splits elim!: fold_joined [rotated] intro: emit_joined)

lemma matched_joined:
  "fold_res (\<lambda>rrow res. if right_null node rrow then emit maxrow (joinRows lrow (Some rrow) (jnCols node)) res else Inr res) rows res
     = Inr res' \<Longrightarrow> joined node res res'"
  by (erule fold_joined [rotated]) (auto split: if_splits intro: emit_joined)

lemma mathOps_joined: "mathOps ar node maxrow rrows lrow res = Inr res' \<Longrightarrow> joined node res res'"
  unfolding mathOps_def Let_def rbind_eq_Inr
  by (elim exE conjE) (auto split: if_splits intro: joined_trans dest!: matched_joined emit_joined)

lemma concatLeftAndRight_joined: "concatLeftAndRight ar lrows rrows node maxrow res = Inr res' \<Longrightarrow> joined node res res'"
  unfolding concatLeftAndRight_def by (erule fold_joined [rotated]) (rule mathOps_joined)

lemma merge_loop_joined: "merge_loop ar node maxrow l r res = Inr res' \<Longrightarrow> joined node res res'"
proof (induction ar node maxrow l r res arbitrary: res' rule: merge_loop.induct)
  case (3 ar node maxrow lrows lrest rrows rrest res)
  obtain cmp isNull where c: "compare_keys (arCompare ar) (zip (jnLeftKeys node) (jnRightKeys node)) (hd lrows) (hd rrows) = (cmp, isNull)"
    by force
  note ih = "3.IH" [OF refl refl c [symmetric] refl]
  from "3.prems" show ?case
    by (auto simp: Let_def c rbind_eq_Inr split: if_splits
        intro: joined_trans ih dest!: concatLeftAndNil_joined concatLeftAndRight_joined)
qed (auto intro: concatLeftAndNil_joined)

lemma cartesianProduct_joined: "cartesianProduct lrows rrows node maxrow res = Inr res' \<Longrightarrow> joined node res res'"
  unfolding cartesianProduct_def by (erule fold_joined [rotated], erule fold_joined [rotated]) (rule emit_joined)

lemma nest_row_shape:
  assumes "nest_row ar node maxrow lfields vars exec lrow (jv, want, res) = Inr (jv', want', res')"
    and "wide (length (jnCols node)) res" "\<not> want \<longrightarrow> length (rsFields res) = length (jnCols node)"
  shows "wide (length (jnCols node)) res' \<and> (\<not> want' \<longrightarrow> length (rsFields res') = length (jnCols node))"
proof -
  let ?ok = "\<lambda>want res. wide (length (jnCols node)) res \<and> (\<not> want \<longrightarrow> length (rsFields res) = length (jnCols node))"
  have j: "joined node a b \<Longrightarrow> ?ok w a \<Longrightarrow> ?ok w b" for a b w by (auto simp: joined_def)
  have f: "?ok want res \<Longrightarrow> ?ok False (if want then res\<lparr>rsFields := joinFields lfields fs (jnCols node)\<rparr> else res)" for fs
    by (auto simp: wide_def)
  show ?thesis
  proof (cases "left_match ar node lrow")
    case False
    with assms show ?thesis
      by (auto simp: nest_row_def rbind_eq_Inr joined_def dest!: concatLeftAndNil_joined)
  next
    case True
    from assms(1) have "rbind (exec (combineVars vars (bind_row node lrow jv)) want) (\<lambda>rres. rbind
        (fold_res (\<lambda>rrow res. if right_null node rrow then emit maxrow (joinRows lrow (Some rrow) (jnCols node)) res else Inr res)
            (rsRows rres) (if want then res\<lparr>rsFields := joinFields lfields (rsFields rres) (jnCols node)\<rparr> else res))
        (\<lambda>r1. rbind (if rsRows rres = [] then concatLeftAndNil [lrow] node maxrow r1 else Inr r1)
          (\<lambda>res. Inr (bind_row node lrow jv, False, res)))) = Inr (jv', want', res')"
      by (simp only: nest_row_def split_conv True if_True Let_def rbind_assoc rbind_Inr length_0_conv)
    then obtain rres :: Result and r1 where
      m: "fold_res (\<lambda>rrow res. if right_null node rrow then emit maxrow (joinRows lrow (Some rrow) (jnCols node)) res else Inr res)
            (rsRows rres) (if want then res\<lparr>rsFields := joinFields lfields (rsFields rres) (jnCols node)\<rparr> else res) = Inr r1"
      and e: "(if rsRows rres = [] then concatLeftAndNil [lrow] node maxrow r1 else Inr r1) = Inr res'" and w: "want' = False"
      unfolding rbind_eq_Inr sum.inject prod.inject by blast
    have "?ok False r1" by (rule j [OF matched_joined [OF m] f]) (use assms in blast)
    moreover have "joined node r1 res'" using e by (auto split: if_splits dest: concatLeftAndNil_joined)
    ultimately show ?thesis unfolding w by (rule j [rotated])
  qed
qed

lemma nested_loop_shape:
  assumes "execBindVars env (Join node children left right) vars True = Inr res"
  shows "Result_ok res"
proof -
  let ?n = "length (jnCols node)"
  let ?P = "\<lambda>(jv :: bind_vars, want, res). wide ?n res \<and> (\<not> want \<longrightarrow> length (rsFields res) = ?n)"
  from assms obtain lres x where l: "execBindVars env left vars True = Inr lres"
    and x: "fold_res (nest_row (enArith env) node (enMaxJoinRows env) (rsFields lres) vars (execBindVars env right))
          (rsRows lres) ([], True, empty_Result) = Inr x"
    by (auto simp: rbind_eq_Inr)
  obtain jv want r1 where xe: "x = (jv, want, r1)" by (rule prod_cases3)
  have f: "fold_res (nest_row (enArith env) node (enMaxJoinRows env) (rsFields lres) vars (execBindVars env right))
          (rsRows lres) ([], True, empty_Result) = Inr (jv, want, r1)"
    and e: "if want then rsRows res = rsRows r1 \<and> length (rsFields res) = ?n else res = r1"
    using assms x l unfolding xe by (auto simp: rbind_eq_Inr Let_def split: if_splits)
  from f have "?P (jv, want, r1)"
    by (rule fold_res_invariant) (auto simp: wide_def empty_Result_def dest!: nest_row_shape)
  with e show ?thesis by (auto simp: Result_ok_wide wide_def split: if_splits)
qed

lemma join_results_shape:
  assumes "sorts (enSort env)" "join_results env node children lres rres = Inr res"
  shows "Result_ok res"
proof -
  let ?r0 = "empty_Result\<lparr>rsFields := joinFields (rsFields lres) (rsFields rres) (jnCols node)\<rparr>"
  have ok: "joined node ?r0 r \<Longrightarrow> Result_ok r" for r by (simp add: joined_def Result_ok_wide wide_def empty_Result_def)
  show ?thesis
  proof (cases "rsRows lres = []")
    case True
    with assms(2) show ?thesis by (auto simp: join_results_def Let_def intro: ok)
  next
    case False
    with assms(2) obtain r where "joined node ?r0 r" "ExecSubPlan (enSort env) (enArith env) children r = Inr res"
      by (auto simp: join_results_def Let_def rbind_eq_Inr sortMergeJoin_def mergeJoin_def split: if_splits
          dest!: concatLeftAndNil_joined merge_loop_joined cartesianProduct_joined)
    then show ?thesis using ExecSubPlan_shape [OF assms(1) ok] by blast
  qed
qed

subsection \<open>Unions and the plan tree\<close>

lemma union_results_shape:
  assumes "sorts (enSort env)" "Result_ok lres" "Result_ok rres" "union_results env typ children lres rres = Inr res"
  shows "Result_ok res"
proof -
  let ?n = "length (rsFields lres)"
  from assms(4) have n: "length (rsFields rres) = ?n" by (auto simp: union_results_def split: if_splits)
  let ?all = "AppendResult lres rres"
  have all: "\<forall>row \<in> set (rsRows ?all). length row = ?n"
    using assms(2,3) n by (auto simp: AppendResult_def Result_ok_def)
  have ok: "Result_ok (empty_Result\<lparr>rsFields := rsFields lres, rsRows := out, rsRowsAffected := k\<rparr>)" if "set out \<subseteq> set (rsRows ?all)" for out k
    using that all by (auto simp: Result_ok_def)
  have d: "set (map (\<lambda>(_, v). hd v) (table_Next (distinct_table rows))) \<subseteq> set rows" for rows
    using distinct_table_rows(2) [OF refl, of rows] by (auto simp: find_Some_iff)
  show ?thesis
  proof (cases "rsRows ?all = []")
    case True
    with assms(4) n show ?thesis by (auto simp: union_results_def Let_def Result_ok_def empty_Result_def)
  next
    case False
    show ?thesis
    proof (cases "typ = ''union distinct'' \<or> typ = ''union''")
      case True
      from assms(4) show ?thesis unfolding union_results_def Let_def n if_P [OF True] if_not_P [OF False] if_not_P [OF not_not [THEN iffD2, OF refl]]
        by (rule ExecSubPlan_shape [OF assms(1) ok [OF d]])
    next
      case f: False
      from assms(4) show ?thesis unfolding union_results_def Let_def n if_not_P [OF f] if_not_P [OF False] if_not_P [OF not_not [THEN iffD2, OF refl]]
        by (rule ExecSubPlan_shape [OF assms(1) ok [OF order_refl]])
    qed
  qed
qed

text \<open>C33: Every result of a plan tree is a table: whatever the plan and its children are, if the backends answer with
  rows that have one value for each field, then each row of the result has one value for each field of the result.
\<close>

theorem Execute_shape:
  assumes "sorts (enSort env)" "\<And>req rs. enTxn env req = Inr rs \<Longrightarrow> Result_ok rs" "Execute env node = Inr res"
  shows "Result_ok res"
  using assms(3)
proof (induction node arbitrary: res)
  case (Merge m)
  then show ?case
    by (auto simp: Merge_Execute_def rbind_eq_Inr Let_def intro: ExecSubPlan_shape [OF assms(1)] dest: assms(2) split: if_splits)
next
  case (Join node children left right)
  show ?case
  proof (cases "jnStrategy node = NestLoop")
    case True
    with Join.prems obtain r where "execBindVars env (PlanNode.Join node children left right) [] True = Inr r"
      "ExecSubPlan (enSort env) (enArith env) children r = Inr res"
      unfolding Execute.simps if_P [OF True] rbind_eq_Inr by blast
    then show ?thesis using ExecSubPlan_shape [OF assms(1) nested_loop_shape] by blast
  next
    case False
    with Join.prems show ?thesis by (auto simp: rbind_eq_Inr intro: join_results_shape [OF assms(1)])
  qed
next
  case (Union ty children left right)
  from Union.prems obtain l r where "Execute env left = Inr l" "Execute env right = Inr r" "union_results env ty children l r = Inr res"
    by (auto simp: rbind_eq_Inr)
  then show ?case using Union.IH union_results_shape [OF assms(1)] by blast
qed

lemma demo_txn_shape: "demo_txn req = Inr rs \<Longrightarrow> Result_ok rs"
  by (auto simp: demo_txn_def demo_rows_def Result_ok_def split: list.splits option.splits if_splits)

theorem Execute_shape_witness:
  "\<exists>res. Execute demo_env demo_t1 = Inr res \<and> Result_ok res \<and> rsRows res = [[VSigned 3], [VSigned 1]]"
proof -
  let ?res = "\<lparr>rsFields = [demo_field ''a''], rsRowsAffected = 0, rsInsertID = 0, rsRows = [[VSigned 3], [VSigned 1]]\<rparr>"
  have e: "Execute demo_env demo_t1 = Inr ?res"
    by (simp add: demo_env_def demo_node_def Merge_Execute_def demo_txn_def demo_query_def NewRequestContext_def demo_rows_def)
  have "Result_ok ?res"
    by (rule Execute_shape [OF _ _ e]) (simp_all add: demo_env_def sorts_insertion_sort demo_txn_shape)
  with e show ?thesis by simp
qed

end
