(* ===== verification/Radon_Pool.thy ===== *)
theory Radon_Pool
  imports Radon_Engine "HOL-Library.Sublist"
begin

section \<open>Connections and pools\<close>

text \<open>
  \<open>src/src/backend/{connection,pool}.go\<close>. Pools are objects of a store, since a connection keeps a
  pointer to the pool it came from. What the servers, the network and the clock answer is a parameter:
  a function of all that happened before, kept as a list of events, so that an environment may change
  its answers in any way. A connection is identified by the place of its dialling in that list.
\<close>

record conn =
  coRef :: nat
  coID :: nat
  coPool :: nat
  coTimestamp :: int

record Pool =
  poAddress :: string
  poMaxConnections :: nat
  poMaxIdleTime :: int
  poConnections :: "conn list option"

datatype event =
    Dialed nat "nat option"
  | Pinged conn bool
  | Executed conn string "Result res"
  | Closed conn
  | CommitLocked
  | CommitUnlocked
  | CommitRLocked
  | CommitRUnlocked

record world =
  woTrace :: "event list"
  woPools :: "Pool list"

text \<open>What \<open>FetchAllWithFunc\<close> of the driver ends with.\<close>

datatype fetch = Fetched Result | FetchKilled | FetchEOF | FetchErr go_err

record backend_env =
  evNow :: "event list \<Rightarrow> int"
  evStamp :: "event list \<Rightarrow> string"
  evDial :: "event list \<Rightarrow> string \<Rightarrow> nat option"
  evPing :: "event list \<Rightarrow> conn \<Rightarrow> bool"
  evFetch :: "event list \<Rightarrow> conn \<Rightarrow> string \<Rightarrow> int \<Rightarrow> int \<Rightarrow> fetch"
  evClosed :: "event list \<Rightarrow> conn \<Rightarrow> bool"

definition logged :: "event \<Rightarrow> world \<Rightarrow> world" where
  "logged e w = w\<lparr>woTrace := woTrace w @ [e]\<rparr>"

definition set_connections :: "nat \<Rightarrow> conn list option \<Rightarrow> world \<Rightarrow> world" where
  "set_connections p cs w = w\<lparr>woPools := (woPools w)[p := (woPools w ! p)\<lparr>poConnections := cs\<rparr>]\<rparr>"

subsection \<open>The pool\<close>

definition conn_Close :: "conn \<Rightarrow> world \<Rightarrow> world" where
  "conn_Close c = logged (Closed c)"

text \<open>\<open>Dial\<close> of a new connection; a failed one is closed without a driver.\<close>

definition pool_reconnect :: "backend_env \<Rightarrow> nat \<Rightarrow> world \<Rightarrow> (world, conn) outcome" where
  "pool_reconnect env p w =
     (let id = evDial env (woTrace w) (poAddress (woPools w ! p)); w' = logged (Dialed p id) w
      in case id of
           None \<Rightarrow> (Inl (GoError ''Server maybe lost, please try again''), w')
         | Some i \<Rightarrow> (Inr \<lparr>coRef = length (woTrace w), coID = i, coPool = p, coTimestamp = evNow env (woTrace w')\<rparr>, w'))"

abbreviation errClosed :: go_err where
  "errClosed \<equiv> GoError ''can't get connection from the closed DB''"

definition pool_Get :: "backend_env \<Rightarrow> nat \<Rightarrow> world \<Rightarrow> (world, conn) outcome" where
  "pool_Get env p w =
     (case poConnections (woPools w ! p) of
        None \<Rightarrow> (Inl errClosed, w)
      | Some [] \<Rightarrow> pool_reconnect env p w
      | Some (c # cs) \<Rightarrow>
          let w1 = set_connections p (Some cs) w;
              elapsed = evNow env (woTrace w) - coTimestamp c
          in if 1 < elapsed then
               if poMaxIdleTime (woPools w ! p) < elapsed then pool_reconnect env p (conn_Close c w1)
               else let ok = evPing env (woTrace w1) c; w2 = logged (Pinged c ok) w1
                 in if ok then (Inr c, w2) else pool_reconnect env p w2
             else (Inr c, w1))"

definition pool_put :: "backend_env \<Rightarrow> conn \<Rightarrow> bool \<Rightarrow> world \<Rightarrow> world" where
  "pool_put env c updateTs w =
     (let p = coPool c in
      case poConnections (woPools w ! p) of
        None \<Rightarrow> w
      | Some cs \<Rightarrow>
          let c' = (if updateTs then c\<lparr>coTimestamp := evNow env (woTrace w)\<rparr> else c)
          in if length cs < poMaxConnections (woPools w ! p) then set_connections p (Some (cs @ [c'])) w
             else conn_Close c' w)"

definition pool_Put :: "backend_env \<Rightarrow> conn \<Rightarrow> world \<Rightarrow> world" where
  "pool_Put env c w = pool_put env c True w"

definition pool_Close :: "nat \<Rightarrow> world \<Rightarrow> world" where
  "pool_Close p w =
     (case poConnections (woPools w ! p) of
        None \<Rightarrow> w
      | Some cs \<Rightarrow> set_connections p None (fold conn_Close cs w))"

subsection \<open>The connection\<close>

definition conn_Recycle :: "backend_env \<Rightarrow> conn \<Rightarrow> world \<Rightarrow> world" where
  "conn_Recycle env c w = (if evClosed env (woTrace w) c then w else pool_Put env c w)"

text \<open>The answer of the driver to a query, as an event.\<close>

definition driver_fetch :: "backend_env \<Rightarrow> conn \<Rightarrow> string \<Rightarrow> int \<Rightarrow> int \<Rightarrow> world \<Rightarrow> fetch \<times> world" where
  "driver_fetch env c query timeout memlimits w =
     (let f = evFetch env (woTrace w) c query timeout memlimits;
          r = (case f of
                 Fetched qr \<Rightarrow> Inr qr
               | FetchKilled \<Rightarrow> Inl (GoError (''Query execution was interrupted, timeout['' @ sprintf_d timeout @ ''ms] exceeded''))
               | FetchEOF \<Rightarrow> Inl (GoError ''Server maybe lost, please try again'')
               | FetchErr e \<Rightarrow> Inl e)
      in (f, logged (Executed c query r) w))"

text \<open>\<open>Kill\<close> gets a second connection of the same pool, which executes without a deadline.\<close>

definition conn_Kill :: "backend_env \<Rightarrow> conn \<Rightarrow> world \<Rightarrow> world" where
  "conn_Kill env c w =
     (case pool_Get env (coPool c) w of
        (Inl _, w1) \<Rightarrow> w1
      | (Inr kill, w1) \<Rightarrow>
          conn_Recycle env kill (snd (driver_fetch env kill (''KILL '' @ sprintf_d (int (coID c))) 0 0 w1)))"

text \<open>A query that ran into its deadline was killed before its error was returned.\<close>

definition ExecuteWithLimits :: "backend_env \<Rightarrow> conn \<Rightarrow> string \<Rightarrow> int \<Rightarrow> int \<Rightarrow> world \<Rightarrow> (world, Result) outcome" where
  "ExecuteWithLimits env c query timeout memlimits w =
     (case driver_fetch env c query timeout memlimits w of
        (Fetched qr, w1) \<Rightarrow> (Inr qr, w1)
      | (FetchKilled, w1) \<Rightarrow>
          (Inl (GoError (''Query execution was interrupted, timeout['' @ sprintf_d timeout @ ''ms] exceeded'')),
           if 0 < timeout then conn_Kill env c w1 else w1)
      | (FetchEOF, w1) \<Rightarrow> (Inl (GoError ''Server maybe lost, please try again''), w1)
      | (FetchErr e, w1) \<Rightarrow> (Inl e, w1))"

definition conn_Execute :: "backend_env \<Rightarrow> conn \<Rightarrow> string \<Rightarrow> world \<Rightarrow> (world, Result) outcome" where
  "conn_Execute env c query w = ExecuteWithLimits env c query 0 0 w"

subsection \<open>Who owns a connection\<close>

text \<open>
  Connections are idle in a pool or held by a client. The invariant is relative to the connections held:
  no connection is in two places, none of them was closed, a pool never has more idle connections than
  it may, and every idle connection is in the pool it came from.
\<close>

definition pool_refs :: "Pool \<Rightarrow> nat multiset" where
  "pool_refs p = (case poConnections p of None \<Rightarrow> {#} | Some cs \<Rightarrow> image_mset coRef (mset cs))"

definition idle :: "world \<Rightarrow> nat multiset" where
  "idle w = sum_list (map pool_refs (woPools w))"

definition closed_refs :: "world \<Rightarrow> nat set" where
  "closed_refs w = {coRef c | c. Closed c \<in> set (woTrace w)}"

definition Pool_ok :: "nat \<Rightarrow> Pool \<Rightarrow> bool" where
  "Pool_ok p pool \<longleftrightarrow>
     (\<forall>cs. poConnections pool = Some cs \<longrightarrow> length cs \<le> poMaxConnections pool \<and> (\<forall>c \<in> set cs. coPool c = p))"

definition owned :: "world \<Rightarrow> nat multiset \<Rightarrow> bool" where
  "owned w held \<longleftrightarrow>
     (\<forall>r. count (idle w + held) r \<le> 1)
     \<and> (\<forall>r \<in># idle w + held. r < length (woTrace w) \<and> r \<notin> closed_refs w)
     \<and> closed_refs w \<subseteq> {..<length (woTrace w)}
     \<and> (\<forall>p < length (woPools w). Pool_ok p (woPools w ! p))"

lemma sum_list_update_add:
  fixes f :: "'a \<Rightarrow> 'b::comm_monoid_add"
  shows "p < length xs \<Longrightarrow> sum_list (map f (xs[p := y])) + f (xs ! p) = sum_list (map f xs) + f y"
proof (induction xs arbitrary: p)
  case (Cons x xs)
  then show ?case by (cases p) (auto simp: ac_simps)
qed simp

lemma idle_set_connections:
  "p < length (woPools w) \<Longrightarrow>
     idle (set_connections p cs w) + pool_refs (woPools w ! p) = idle w + pool_refs ((woPools w ! p)\<lparr>poConnections := cs\<rparr>)"
  by (simp add: idle_def set_connections_def sum_list_update_add)

lemma logged_simps [simp]:
  "woTrace (logged e w) = woTrace w @ [e]" "woPools (logged e w) = woPools w" "idle (logged e w) = idle w"
  by (simp_all add: logged_def idle_def)

lemma set_connections_simps [simp]:
  "woTrace (set_connections p cs w) = woTrace w" "length (woPools (set_connections p cs w)) = length (woPools w)"
  "closed_refs (set_connections p cs w) = closed_refs w"
  by (simp_all add: set_connections_def closed_refs_def)

lemma closed_refs_logged [simp]:
  "closed_refs (logged e w) = (case e of Closed c \<Rightarrow> insert (coRef c) (closed_refs w) | _ \<Rightarrow> closed_refs w)"
  by (auto simp: closed_refs_def split: event.splits)

text \<open>
  The clients of a pool only add events and change its idle connections: its address and sizes stay, and it
  is open exactly when it was.
\<close>

definition pool_shape :: "Pool \<Rightarrow> string \<times> nat \<times> int \<times> bool" where
  "pool_shape p = (poAddress p, poMaxConnections p, poMaxIdleTime p, poConnections p = None)"

definition extends :: "world \<Rightarrow> world \<Rightarrow> bool" where
  "extends w w' \<longleftrightarrow> prefix (woTrace w) (woTrace w') \<and> map pool_shape (woPools w') = map pool_shape (woPools w)"

lemma extends_refl [simp, intro]: "extends w w"
  by (simp add: extends_def)

lemma extends_trans [trans]: "extends u v \<Longrightarrow> extends v w \<Longrightarrow> extends u w"
  unfolding extends_def by (auto intro: prefix_order.trans)

lemma extends_logged [simp, intro]: "extends w (logged e w)"
  by (simp add: extends_def)

lemma extends_set_connections [simp, intro]:
  assumes "poConnections (woPools w ! p) \<noteq> None"
  shows "extends w (set_connections p (Some cs) w)"
proof -
  have "(map pool_shape (woPools w))[p := pool_shape ((woPools w ! p)\<lparr>poConnections := Some cs\<rparr>)] = map pool_shape (woPools w)"
    using assms by (cases "p < length (woPools w)") (simp_all add: pool_shape_def list_update_same_conv list_update_beyond)
  then show ?thesis by (simp add: extends_def set_connections_def map_update)
qed

text \<open>Events other than a close of a connection keep the ownership.\<close>

lemma owned_logged: "owned w held \<Longrightarrow> (\<And>c. e \<noteq> Closed c) \<Longrightarrow> owned (logged e w) held"
  unfolding owned_def by (cases e) (auto intro: less_SucI)

lemma owned_less: "owned w held \<Longrightarrow> r \<in># held \<Longrightarrow> r < length (woTrace w)"
  unfolding owned_def by auto

lemma owned_lose: "owned w (add_mset r held) \<Longrightarrow> owned w held"
proof -
  assume o: "owned w (add_mset r held)"
  have "count (idle w + held) r' \<le> count (idle w + add_mset r held) r'" for r' by simp
  with o show ?thesis unfolding owned_def by (auto intro: order.trans)
qed

lemma owned_Close:
  assumes "owned w (add_mset (coRef c) held)"
  shows "owned (conn_Close c w) held"
proof -
  have "count (idle w + add_mset (coRef c) held) (coRef c) \<le> 1" using assms unfolding owned_def by blast
  then have "coRef c \<notin># idle w + held" by (simp add: not_in_iff)
  moreover have "coRef c < length (woTrace w)" by (rule owned_less [OF assms]) simp
  ultimately show ?thesis using owned_lose [OF assms] unfolding owned_def conn_Close_def by (auto intro: less_SucI)
qed

lemma owned_transfer:
  assumes "owned w held" "idle w' + held' = idle w + held" "woTrace w' = woTrace w"
    and "\<forall>p < length (woPools w'). Pool_ok p (woPools w' ! p)"
  shows "owned w' held'"
  using assms unfolding owned_def closed_refs_def by simp

lemma Pool_ok_set_connections:
  assumes "\<forall>q < length (woPools w). Pool_ok q (woPools w ! q)" "Pool_ok p ((woPools w ! p)\<lparr>poConnections := cs\<rparr>)"
  shows "\<forall>q < length (woPools (set_connections p cs w)). Pool_ok q (woPools (set_connections p cs w) ! q)"
proof (intro allI impI)
  fix q assume "q < length (woPools (set_connections p cs w))"
  with assms show "Pool_ok q (woPools (set_connections p cs w) ! q)"
    by (cases "q = p") (auto simp: set_connections_def)
qed

lemma reconnect_owned:
  assumes "owned w held" "pool_reconnect env p w = (r, w')"
  shows "extends w w' \<and> (case r of Inl _ \<Rightarrow> owned w' held | Inr c \<Rightarrow> owned w' (add_mset (coRef c) held) \<and> coPool c = p)"
proof -
  obtain id where w': "w' = logged (Dialed p id) w" using assms(2) by (auto simp: pool_reconnect_def Let_def split: option.splits)
  have "owned w' held" unfolding w' by (rule owned_logged [OF assms(1)]) simp
  moreover have "owned w' (add_mset (length (woTrace w)) held)"
  proof -
    have "length (woTrace w) \<notin># idle w + held" "length (woTrace w) \<notin> closed_refs w" using assms(1) unfolding owned_def by auto
    then show ?thesis using \<open>owned w' held\<close> unfolding owned_def w' by (auto simp: not_in_iff)
  qed
  ultimately show ?thesis using assms(2) by (auto simp: pool_reconnect_def Let_def w' split: option.splits)
qed

lemma take_idle:
  assumes "owned w held" "p < length (woPools w)" "poConnections (woPools w ! p) = Some (c # cs)"
  shows "owned (set_connections p (Some cs) w) (add_mset (coRef c) held)" "coPool c = p"
proof -
  have ok: "Pool_ok p (woPools w ! p)" using assms(1,2) by (simp add: owned_def)
  then show "coPool c = p" using assms(3) by (simp add: Pool_ok_def)
  have "idle (set_connections p (Some cs) w) + image_mset coRef (mset (c # cs)) = idle w + image_mset coRef (mset cs)"
    using idle_set_connections [OF assms(2), of "Some cs"] assms(3) by (simp add: pool_refs_def)
  then have "idle (set_connections p (Some cs) w) + add_mset (coRef c) held = idle w + held" by simp
  then show "owned (set_connections p (Some cs) w) (add_mset (coRef c) held)"
  proof (rule owned_transfer [OF assms(1)])
    show "\<forall>q < length (woPools (set_connections p (Some cs) w)). Pool_ok q (woPools (set_connections p (Some cs) w) ! q)"
      using assms(1,3) ok by (intro Pool_ok_set_connections) (auto simp: owned_def Pool_ok_def)
  qed simp
qed

lemma Get_owned:
  assumes "owned w held" "p < length (woPools w)" "pool_Get env p w = (r, w')"
  shows "extends w w' \<and> (case r of Inl _ \<Rightarrow> owned w' held | Inr c \<Rightarrow> owned w' (add_mset (coRef c) held) \<and> coPool c = p)"
proof (cases "poConnections (woPools w ! p)")
  case None
  with assms show ?thesis by (auto simp: pool_Get_def)
next
  case (Some l)
  show ?thesis
  proof (cases l)
    case Nil
    with assms Some reconnect_owned [OF assms(1)] show ?thesis by (simp add: pool_Get_def)
  next
    case (Cons c cs)
    let ?w1 = "set_connections p (Some cs) w"
    note t = take_idle [OF assms(1,2) Some [unfolded Cons]]
    have p: "owned (logged (Pinged c b) ?w1) (add_mset (coRef c) held)" for b by (rule owned_logged [OF t(1)]) simp
    have e1: "extends w ?w1" using Some by (intro extends_set_connections) simp
    have e: "extends w (conn_Close c ?w1)" "extends w (logged e ?w1)" for e
      unfolding conn_Close_def by (blast intro: extends_trans e1 extends_logged)+
    note r1 = reconnect_owned [OF owned_Close [OF t(1)], of env p] and r2 = reconnect_owned [OF owned_lose [OF p], of env p]
    let ?idle = "evNow env (woTrace w) - coTimestamp c"
    consider "\<not> 1 < ?idle" | "1 < ?idle" "poMaxIdleTime (woPools w ! p) < ?idle"
      | "1 < ?idle" "\<not> poMaxIdleTime (woPools w ! p) < ?idle" "evPing env (woTrace ?w1) c"
      | "1 < ?idle" "\<not> poMaxIdleTime (woPools w ! p) < ?idle" "\<not> evPing env (woTrace ?w1) c" by blast
    then show ?thesis
    proof cases
      case 1
      with assms(3) Some Cons have "r = Inr c" "w' = ?w1" by (simp_all add: pool_Get_def Let_def)
      with t e1 show ?thesis by simp
    next
      case 2
      with assms(3) Some Cons have "pool_reconnect env p (conn_Close c ?w1) = (r, w')" by (simp add: pool_Get_def Let_def)
      from r1 [OF this] extends_trans [OF e(1)] show ?thesis by blast
    next
      case 3
      with assms(3) Some Cons have "r = Inr c" "w' = logged (Pinged c True) ?w1" by (simp_all add: pool_Get_def Let_def)
      with t(2) p [of True] e(2) show ?thesis by simp
    next
      case 4
      with assms(3) Some Cons have "pool_reconnect env p (logged (Pinged c False) ?w1) = (r, w')" by (simp add: pool_Get_def Let_def)
      from r2 [OF this] extends_trans [OF e(2)] show ?thesis by blast
    qed
  qed
qed

lemma put_owned:
  assumes "owned w (add_mset (coRef c) held)" "coPool c < length (woPools w)"
  shows "owned (pool_put env c ts w) held" "extends w (pool_put env c ts w)"
proof -
  let ?p = "coPool c" and ?c = "if ts then c\<lparr>coTimestamp := evNow env (woTrace w)\<rparr> else c"
  have c: "coRef ?c = coRef c" "coPool ?c = coPool c" by simp_all
  have full: "owned (conn_Close ?c w) held" by (rule owned_Close) (simp only: c assms(1))
  have room: "owned (set_connections ?p (Some (cs @ [?c])) w) held"
    if cs: "poConnections (woPools w ! ?p) = Some cs" "length cs < poMaxConnections (woPools w ! ?p)" for cs
  proof (rule owned_transfer [OF assms(1)])
    have "idle (set_connections ?p (Some (cs @ [?c])) w) + image_mset coRef (mset cs)
        = idle w + add_mset (coRef c) (image_mset coRef (mset cs))"
      using idle_set_connections [OF assms(2), of "Some (cs @ [?c])"] cs(1) c(1) by (simp add: pool_refs_def)
    then show "idle (set_connections ?p (Some (cs @ [?c])) w) + held = idle w + add_mset (coRef c) held" by simp
    have "Pool_ok ?p (woPools w ! ?p)" using assms by (simp add: owned_def)
    then show "\<forall>q < length (woPools (set_connections ?p (Some (cs @ [?c])) w)).
        Pool_ok q (woPools (set_connections ?p (Some (cs @ [?c])) w) ! q)"
      using assms(1) cs c(2) by (intro Pool_ok_set_connections) (auto simp: owned_def Pool_ok_def)
  qed simp
  show "owned (pool_put env c ts w) held"
    using owned_lose [OF assms(1)] full room by (auto simp: pool_put_def Let_def split: option.splits simp del: if_split)
  show "extends w (pool_put env c ts w)"
    by (auto simp: pool_put_def Let_def conn_Close_def split: option.splits)
qed

lemma extends_length: "extends w w' \<Longrightarrow> length (woPools w') = length (woPools w)"
  unfolding extends_def by (auto dest: map_eq_imp_length_eq)

lemma extends_shape: "extends w w' \<Longrightarrow> p < length (woPools w) \<Longrightarrow> pool_shape (woPools w' ! p) = pool_shape (woPools w ! p)"
  unfolding extends_def by (metis length_map nth_map)

lemma Recycle_owned:
  assumes "owned w (add_mset (coRef c) held)" "coPool c < length (woPools w)"
  shows "owned (conn_Recycle env c w) held" "extends w (conn_Recycle env c w)"
  using owned_lose [OF assms(1)] put_owned [OF assms] by (auto simp: conn_Recycle_def pool_Put_def)

lemma fetch_owned:
  assumes "driver_fetch env c query timeout mem w = (f, w')"
  shows "owned w held \<Longrightarrow> owned w' held" "extends w w'"
  using assms owned_logged [of w held] by (auto simp: driver_fetch_def Let_def)

lemma Kill_owned:
  assumes "owned w held" "coPool c < length (woPools w)"
  shows "owned (conn_Kill env c w) held" "extends w (conn_Kill env c w)"
proof -
  obtain r w1 where g: "pool_Get env (coPool c) w = (r, w1)" by force
  note get = Get_owned [OF assms g]
  let ?q = "''KILL '' @ sprintf_d (int (coID c))"
  have "owned (conn_Kill env c w) held \<and> extends w (conn_Kill env c w)"
  proof (cases r)
    case (Inl e)
    with get show ?thesis by (simp add: conn_Kill_def g)
  next
    case (Inr kill)
    obtain f w2 where f: "driver_fetch env kill ?q 0 0 w1 = (f, w2)" by force
    from get Inr have k: "owned w1 (add_mset (coRef kill) held)" "coPool kill = coPool c" "extends w w1" by simp_all
    note o2 = fetch_owned(1) [OF f k(1)] and e2 = extends_trans [OF k(3) fetch_owned(2) [OF f]]
    have "coPool kill < length (woPools w2)" using k(2) assms(2) extends_length [OF e2] by simp
    moreover have "conn_Kill env c w = conn_Recycle env kill w2" unfolding conn_Kill_def g Inr prod.case sum.case f snd_conv ..
    ultimately show ?thesis using Recycle_owned [OF o2] extends_trans [OF e2] by simp
  qed
  then show "owned (conn_Kill env c w) held" "extends w (conn_Kill env c w)" by simp_all
qed

lemma Execute_owned:
  assumes "owned w held" "coPool c < length (woPools w)" "ExecuteWithLimits env c query timeout mem w = (r, w')"
  shows "owned w' held \<and> extends w w'"
proof -
  obtain f w1 where f: "driver_fetch env c query timeout mem w = (f, w1)" by force
  note o1 = fetch_owned(1) [OF f assms(1)] and e1 = fetch_owned(2) [OF f]
  have "coPool c < length (woPools w1)" using assms(2) extends_length [OF e1] by simp
  note k = Kill_owned [OF o1 this, of env]
  show ?thesis
    using assms(3) f o1 e1 k extends_trans [OF e1] by (auto simp: ExecuteWithLimits_def split: fetch.splits if_splits)
qed

lemma Close_all_owned:
  assumes "owned w (image_mset coRef (mset cs) + held)"
  shows "owned (fold conn_Close cs w) held" "extends w (fold conn_Close cs w)" "woPools (fold conn_Close cs w) = woPools w"
  using assms
proof (induction cs arbitrary: w)
  case (Cons c cs)
  case 1
  with owned_Close [of w c "image_mset coRef (mset cs) + held"] Cons.IH(1) show ?case by simp
  case 2
  with owned_Close [of w c "image_mset coRef (mset cs) + held"] Cons.IH(2) [of "conn_Close c w"] show ?case
    by (auto simp: conn_Close_def intro: extends_trans)
  case 3
  with owned_Close [of w c "image_mset coRef (mset cs) + held"] Cons.IH(3) [of "conn_Close c w"] show ?case
    by (simp add: conn_Close_def)
qed simp_all

lemma pool_Close_owned:
  assumes "owned w held" "p < length (woPools w)"
  shows "owned (pool_Close p w) held" "length (woPools (pool_Close p w)) = length (woPools w)"
    and "q \<noteq> p \<Longrightarrow> woPools (pool_Close p w) ! q = woPools w ! q"
proof -
  have "owned (pool_Close p w) held \<and> length (woPools (pool_Close p w)) = length (woPools w)
    \<and> (\<forall>q. q \<noteq> p \<longrightarrow> woPools (pool_Close p w) ! q = woPools w ! q)"
  proof (cases "poConnections (woPools w ! p)")
    case None
    with assms(1) show ?thesis by (simp add: pool_Close_def)
  next
    case (Some cs)
    let ?w1 = "set_connections p None w"
    have "idle ?w1 + image_mset coRef (mset cs) = idle w"
      using idle_set_connections [OF assms(2), of None] Some by (simp add: pool_refs_def)
    then have "owned ?w1 (image_mset coRef (mset cs) + held)"
    proof (intro owned_transfer [OF assms(1)])
      show "\<forall>q < length (woPools ?w1). Pool_ok q (woPools ?w1 ! q)"
        using assms(1) by (intro Pool_ok_set_connections) (auto simp: owned_def Pool_ok_def)
    qed (simp_all add: add.assoc [symmetric])
    note c = Close_all_owned [OF this]
    have "set_connections p None (fold conn_Close cs w) = fold conn_Close cs ?w1"
    proof (induction cs arbitrary: w)
      case (Cons c cs)
      have "set_connections p None (conn_Close c w) = conn_Close c (set_connections p None w)"
        by (simp add: conn_Close_def logged_def set_connections_def)
      with Cons.IH [of "conn_Close c w"] show ?case by simp
    qed simp
    then have w2: "pool_Close p w = fold conn_Close cs ?w1" by (simp add: pool_Close_def Some)
    have "woPools (pool_Close p w) = woPools ?w1" unfolding w2 by (rule c(3))
    moreover have "owned (pool_Close p w) held" unfolding w2 by (rule c(1))
    ultimately show ?thesis by (simp add: set_connections_def)
  qed
  then show "owned (pool_Close p w) held" "length (woPools (pool_Close p w)) = length (woPools w)"
    "q \<noteq> p \<Longrightarrow> woPools (pool_Close p w) ! q = woPools w ! q" by simp_all
qed

end
