(* ===== verification/Radon_Txn.thy ===== *)
theory Radon_Txn
  imports Radon_Pool
begin

section \<open>Transactions\<close>

text \<open>
  \<open>src/src/backend/{txn,xa,txnmgr}.go\<close> and the log of unfinished commits of \<open>xacheck.go\<close>. The shards of
  a request run as goroutines of an error group: all of them run to their end, and the first error is
  reported. The model runs them one after the other. Sleeping, counters and log messages are left out.
\<close>

subsection \<open>The log of unfinished commits\<close>

record XaCommitErr =
  xeTime :: string
  xeXaid :: string
  xeState :: string
  xeTimes :: int

text \<open>What \<open>xacheck.json\<close> holds, as \<open>encoding/json\<close> reads it.\<close>

datatype xa_file = XaAbsent | XaBroken | XaLogs "XaCommitErr list"

text \<open>\<open>xcWrite\<close> is whether the next write of the file succeeds, and what a failed write leaves.\<close>

record XaCheck =
  xcTimes :: int
  xcRetrys :: "(string \<times> XaCommitErr) list"
  xcFile :: xa_file
  xcWrite :: "xa_file option"
  xcTimesOut :: "XaCommitErr list"

definition addXaCommitErrLog :: "XaCommitErr \<Rightarrow> XaCheck \<Rightarrow> (XaCheck, unit) outcome" where
  "addXaCommitErrLog e xc =
     (if map_of (xcRetrys xc) (xeXaid e) \<noteq> None
      then (Inl (GoError (''xacheck.addXACommitErrLog.xaid['' @ xeXaid e @ ''].duplicate'')), xc)
      else (Inr (), xc\<lparr>xcRetrys := AList.update (xeXaid e) e (xcRetrys xc)\<rparr>))"

text \<open>A failed write ends in \<open>log.Panicf\<close>.\<close>

definition flushXaCommitErrLog :: "XaCheck \<Rightarrow> (XaCheck, unit) outcome" where
  "flushXaCommitErrLog xc =
     (case xcWrite xc of
        None \<Rightarrow> (Inr (), xc\<lparr>xcFile := XaLogs (map snd (xcRetrys xc))\<rparr>)
      | Some left \<Rightarrow> (Inl (GoPanic ''xacheck.flush.config.to.file''), xc\<lparr>xcFile := left\<rparr>))"

definition XaCheck_Write :: "string \<Rightarrow> string \<Rightarrow> string \<Rightarrow> XaCheck \<Rightarrow> (XaCheck, unit) outcome" where
  "XaCheck_Write stamp xid state xc =
     sbind (addXaCommitErrLog \<lparr>xeTime = stamp, xeXaid = xid, xeState = state, xeTimes = xcTimes xc\<rparr> xc)
       (\<lambda>_. flushXaCommitErrLog)"

definition LoadXaCommitErrLogs :: "XaCheck \<Rightarrow> (XaCheck, unit) outcome" where
  "LoadXaCommitErrLogs xc =
     (case xcFile xc of
        XaAbsent \<Rightarrow> (Inr (), xc)
      | XaBroken \<Rightarrow> (Inl (GoError ''xacheck.LoadXaCommitErrLogs''), xc)
      | XaLogs logs \<Rightarrow> sfold addXaCommitErrLog logs xc)"

subsection \<open>The state of a transaction\<close>

datatype txnState = StLive | StBeginning | StExecutingTwoPC | StExecutingNormal | StRollbacking | StCommitting
  | StFinshing | StAborting | StRecovering

datatype txnXAState = XaNone | XaStart | XaStartFinished | XaEnd | XaEndFinished | XaPrepare | XaPrepareFinished
  | XaCommit | XaCommitFinished | XaRollback | XaRollbackFinished | XaRecover | XaRecoverFinished

record TxnManager =
  mgTxnid :: "64 word"
  mgTxnNums :: "64 word"
  mgXaCheck :: XaCheck

record Poolz =
  pzConf :: BackendConfig
  pzNormal :: "nat option"
  pzReplica :: "nat option"

record Txn =
  txId :: "64 word"
  txXid :: string
  txReq :: "RequestContext option"
  txTwopc :: bool
  txIsExecOnRep :: bool
  txIsMultiStmtTxn :: bool
  txState :: txnState
  txXaState :: txnXAState
  txBackends :: "(string \<times> Poolz) list"
  txTimeout :: int
  txMaxResult :: int
  txMaxJoinRows :: int
  txErrors :: nat
  txTwopcConnections :: "(string \<times> conn) list"
  txNormalConnections :: "conn list"
  txReplicaConnections :: "conn list"

text \<open>A transaction, its manager and the world around them.\<close>

record sys =
  syTxn :: Txn
  syMgr :: TxnManager
  syWorld :: world

definition upd_txn :: "(Txn \<Rightarrow> Txn) \<Rightarrow> sys \<Rightarrow> sys" where
  "upd_txn f s = s\<lparr>syTxn := f (syTxn s)\<rparr>"

definition upd_world :: "(world \<Rightarrow> world) \<Rightarrow> sys \<Rightarrow> sys" where
  "upd_world f s = s\<lparr>syWorld := f (syWorld s)\<rparr>"

definition on_world :: "(world \<Rightarrow> (world, 'a) outcome) \<Rightarrow> sys \<Rightarrow> (sys, 'a) outcome" where
  "on_world f s = (case f (syWorld s) of (r, w) \<Rightarrow> (r, s\<lparr>syWorld := w\<rparr>))"

definition set_state :: "txnState \<Rightarrow> sys \<Rightarrow> sys" where
  "set_state st = upd_txn (\<lambda>t. t\<lparr>txState := st\<rparr>)"

definition set_xa :: "txnXAState \<Rightarrow> sys \<Rightarrow> sys" where
  "set_xa st = upd_txn (\<lambda>t. t\<lparr>txXaState := st\<rparr>)"

definition incErrors :: "sys \<Rightarrow> sys" where
  "incErrors = upd_txn (\<lambda>t. t\<lparr>txErrors := txErrors t + 1\<rparr>)"

definition NewTxn :: "64 word \<Rightarrow> (string \<times> Poolz) list \<Rightarrow> Txn" where
  "NewTxn txid backends =
     \<lparr>txId = txid, txXid = [], txReq = None, txTwopc = False, txIsExecOnRep = False, txIsMultiStmtTxn = False,
      txState = StLive, txXaState = XaNone, txBackends = backends, txTimeout = 0, txMaxResult = 0, txMaxJoinRows = 0,
      txErrors = 0, txTwopcConnections = [], txNormalConnections = [], txReplicaConnections = []\<rparr>"

text \<open>\<open>TxnManager\<close>: the counters wrap around as \<open>uint64\<close> and \<open>int64\<close> do.\<close>

definition mgr_GetID :: "TxnManager \<Rightarrow> 64 word \<times> TxnManager" where
  "mgr_GetID m = (mgTxnid m + 1, m\<lparr>mgTxnid := mgTxnid m + 1\<rparr>)"

definition mgr_Add :: "TxnManager \<Rightarrow> TxnManager" where
  "mgr_Add m = m\<lparr>mgTxnNums := mgTxnNums m + 1\<rparr>"

definition mgr_Remove :: "TxnManager \<Rightarrow> TxnManager" where
  "mgr_Remove m = m\<lparr>mgTxnNums := mgTxnNums m - 1\<rparr>"

definition CreateTxn :: "(string \<times> Poolz) list \<Rightarrow> TxnManager \<Rightarrow> (TxnManager, Txn) outcome" where
  "CreateTxn backends m =
     (if backends = [] then (Inl (GoError ''backends.is.NULL''), m)
      else let (txid, m1) = mgr_GetID m in (Inr (NewTxn txid backends), mgr_Add m1))"

subsection \<open>Connections of a transaction\<close>

definition no_connection :: "string \<Rightarrow> string \<Rightarrow> go_err" where
  "no_connection kind back = GoError (''txn.can.not.get.'' @ kind @ ''.connection.by.backend['' @ back @ ''].from.pool'')"

text \<open>A backend without an address has no pool; the call of its \<open>Get\<close> panics.\<close>

definition normal_Get :: "backend_env \<Rightarrow> Poolz \<Rightarrow> sys \<Rightarrow> (sys, conn) outcome" where
  "normal_Get env poolz s =
     (case pzNormal poolz of
        None \<Rightarrow> (Inl (GoPanic ''nil pointer dereference''), s)
      | Some p \<Rightarrow> on_world (pool_Get env p) s)"

definition twopcConnection :: "backend_env \<Rightarrow> string \<Rightarrow> sys \<Rightarrow> (sys, conn) outcome" where
  "twopcConnection env back s =
     (case map_of (txTwopcConnections (syTxn s)) back of
        Some c \<Rightarrow> (Inr c, s)
      | None \<Rightarrow>
          (case map_of (txBackends (syTxn s)) back of
             None \<Rightarrow> (Inl (no_connection ''twopc'' back), s)
           | Some poolz \<Rightarrow>
               sbind (normal_Get env poolz s) (\<lambda>c s.
                 (Inr c, upd_txn (\<lambda>t. t\<lparr>txTwopcConnections := AList.update back c (txTwopcConnections t)\<rparr>) s))))"

definition reFetchTwopcConnection :: "backend_env \<Rightarrow> string \<Rightarrow> sys \<Rightarrow> (sys, conn) outcome" where
  "reFetchTwopcConnection env back s =
     twopcConnection env back
       (case map_of (txTwopcConnections (syTxn s)) back of
          None \<Rightarrow> s
        | Some c \<Rightarrow> upd_world (conn_Close c)
            (upd_txn (\<lambda>t. t\<lparr>txTwopcConnections := AList.delete back (txTwopcConnections t)\<rparr>) s))"

definition normalConnection :: "backend_env \<Rightarrow> string \<Rightarrow> sys \<Rightarrow> (sys, conn) outcome" where
  "normalConnection env back s =
     (case map_of (txBackends (syTxn s)) back of
        None \<Rightarrow> (Inl (no_connection ''normal'' back), s)
      | Some poolz \<Rightarrow>
          sbind (normal_Get env poolz s) (\<lambda>c s.
            (Inr c, upd_txn (\<lambda>t. t\<lparr>txNormalConnections := txNormalConnections t @ [c]\<rparr>) s)))"

definition replicaConnection :: "backend_env \<Rightarrow> string \<Rightarrow> sys \<Rightarrow> (sys, conn) outcome" where
  "replicaConnection env back s =
     (case map_of (txBackends (syTxn s)) back of
        None \<Rightarrow> (Inl (no_connection ''replica'' back), s)
      | Some poolz \<Rightarrow>
          (case pzReplica poolz of
             None \<Rightarrow> (Inl (no_connection ''replica'' back), s)
           | Some p \<Rightarrow>
               sbind (on_world (pool_Get env p) s) (\<lambda>c s.
                 (Inr c, upd_txn (\<lambda>t. t\<lparr>txReplicaConnections := txReplicaConnections t @ [c]\<rparr>) s))))"

definition fetchOneConnection :: "backend_env \<Rightarrow> string \<Rightarrow> sys \<Rightarrow> (sys, conn) outcome" where
  "fetchOneConnection env back s =
     (let primary = (if txTwopc (syTxn s) then twopcConnection env back else normalConnection env back)
      in if txIsExecOnRep (syTxn s)
         then (case replicaConnection env back s of
                 (Inr c, s1) \<Rightarrow> (Inr c, s1)
               | (Inl _, s1) \<Rightarrow> primary s1)
         else primary s)"

subsection \<open>Requests\<close>

text \<open>\<open>errgroup\<close>: every function runs, and the first error is the result.\<close>

fun run_all :: "('a \<Rightarrow> 's \<Rightarrow> ('s, unit) outcome) \<Rightarrow> 'a list \<Rightarrow> 's \<Rightarrow> ('s, unit) outcome" where
  "run_all f [] s = (Inr (), s)"
| "run_all f (x # xs) s =
     (case f x s of (r, s1) \<Rightarrow> case run_all f xs s1 of (r', s2) \<Rightarrow> (case r of Inl e \<Rightarrow> Inl e | Inr _ \<Rightarrow> r', s2))"

text \<open>The queries of one shard go over one connection; results are appended to the common result.\<close>

fun shard_queries :: "backend_env \<Rightarrow> conn \<Rightarrow> string list \<Rightarrow> sys \<times> Result \<Rightarrow> (sys \<times> Result, unit) outcome" where
  "shard_queries env c [] (s, qr) = (Inr (), (s, qr))"
| "shard_queries env c (query # querys) (s, qr) =
     (case on_world (ExecuteWithLimits env c query (txTimeout (syTxn s)) (txMaxResult (syTxn s))) s of
        (Inl e, s1) \<Rightarrow> (Inl e, (s1, qr))
      | (Inr innerqr, s1) \<Rightarrow> shard_queries env c querys (s1, AppendResult qr innerqr))"

definition exec_shard :: "backend_env \<Rightarrow> string \<times> string list \<Rightarrow> sys \<times> Result \<Rightarrow> (sys \<times> Result, unit) outcome" where
  "exec_shard env = (\<lambda>(back, querys) (s, qr).
     case fetchOneConnection env back s of
       (Inl e, s1) \<Rightarrow> (Inl e, (s1, qr))
     | (Inr c, s1) \<Rightarrow> shard_queries env c querys (s1, qr))"

abbreviation NormalBackend :: int where "NormalBackend \<equiv> 0"

text \<open>The map of the queries by backend, in the order in which it is visited.\<close>

fun query_map :: "string QueryTuple list \<Rightarrow> (string \<times> string list) list \<Rightarrow> (string \<times> string list) list" where
  "query_map [] m = m"
| "query_map (q # qs) m =
     query_map qs (AList.update (qtBackend q)
       ((case map_of m (qtBackend q) of None \<Rightarrow> [] | Some v \<Rightarrow> v) @ [qtQuery q]) m)"

definition txn_execute :: "backend_env \<Rightarrow> RequestContext \<Rightarrow> sys \<Rightarrow> (sys, Result) outcome" where
  "txn_execute env req s =
     (let s1 = set_state (if txTwopc (syTxn s) then StExecutingTwoPC else StExecutingNormal) s;
          normal = filter (\<lambda>(_, poolz). bRole (pzConf poolz) = NormalBackend) (txBackends (syTxn s));
          raw = (\<lambda>(back, _). (back, [rcRawQuery req]));
          shards = (case rcMode req of
             ReqSingle \<Rightarrow> (case normal of [] \<Rightarrow> [] | b # _ \<Rightarrow> [raw b])
           | ReqScatter \<Rightarrow> map raw normal
           | ReqNormal \<Rightarrow> query_map (rcQuerys req) [])
      in case run_all (exec_shard env) shards (s1, empty_Result) of
           (Inl e, (s2, _)) \<Rightarrow> (Inl e, s2)
         | (Inr _, (s2, qr)) \<Rightarrow> (Inr qr, s2))"

subsection \<open>XA commands\<close>

text \<open>The backends of a command. A request to a single backend needs no XA.\<close>

definition xa_backends :: "RequestContext \<Rightarrow> Txn \<Rightarrow> string list" where
  "xa_backends req t =
     (case rcMode req of
        ReqNormal \<Rightarrow> (let backs = remdups (map qtBackend (rcQuerys req)) in if 1 < length backs then backs else [])
      | ReqScatter \<Rightarrow> map fst (txBackends t)
      | ReqSingle \<Rightarrow> [])"

abbreviation xaMaxRetryNum :: nat where "xaMaxRetryNum \<equiv> 10"

text \<open>
  The loop of commit and rollback on one shard: attempt number \<open>retry\<close> with \<open>n\<close> attempts left and the error
  of the last one. A new connection is taken from the second attempt on; error 1397 (unknown XID) ends it.
\<close>

fun xa_retry :: "backend_env \<Rightarrow> string \<Rightarrow> string \<Rightarrow> nat \<Rightarrow> nat \<Rightarrow> unit res \<Rightarrow> sys \<Rightarrow> (sys, unit) outcome" where
  "xa_retry env query back retry 0 x s = (x, s)"
| "xa_retry env query back retry (Suc n) x s =
     (case (if retry = 0 then twopcConnection env back s else reFetchTwopcConnection env back s) of
        (Inl (GoPanic p), s1) \<Rightarrow> (Inl (GoPanic p), s1)
      | (Inl e, s1) \<Rightarrow> xa_retry env query back (retry + 1) n (Inl e) s1
      | (Inr c, s1) \<Rightarrow>
          (case on_world (conn_Execute env c query) s1 of
             (Inr _, s2) \<Rightarrow> (Inr (), s2)
           | (Inl e, s2) \<Rightarrow> if e = SQLError 1397 then (Inl e, s2) else xa_retry env query back (retry + 1) n (Inl e) s2))"

definition xa_shard :: "backend_env \<Rightarrow> txnXAState \<Rightarrow> string \<Rightarrow> string \<Rightarrow> sys \<Rightarrow> (sys, unit) outcome" where
  "xa_shard env state query back s =
     (if state = XaStart \<or> state = XaEnd \<or> state = XaPrepare then
        sbind (twopcConnection env back s) (\<lambda>c s1.
        sbind (on_world (conn_Execute env c query) s1) (\<lambda>_ s2. (Inr (), s2)))
      else if state = XaCommit \<or> state = XaRollback then xa_retry env query back 0 xaMaxRetryNum (Inr ()) s
      else (Inr (), s))"

definition executeXA :: "backend_env \<Rightarrow> RequestContext \<Rightarrow> txnXAState \<Rightarrow> sys \<Rightarrow> (sys, unit) outcome" where
  "executeXA env req state s =
     (let s1 = set_state StExecutingTwoPC s;
          backs = xa_backends req (syTxn s);
          lock = ((state = XaCommit \<or> state = XaRollback) \<and> (rcMode req = ReqScatter \<or> backs \<noteq> []));
          s2 = (if lock then upd_world (logged CommitLocked) s1 else s1)
      in case run_all (xa_shard env state (rcRawQuery req)) backs s2 of
           (r, s3) \<Rightarrow> (r, if lock then upd_world (logged CommitUnlocked) s3 else s3))"

definition executeXACommand :: "backend_env \<Rightarrow> string \<Rightarrow> txnXAState \<Rightarrow> sys \<Rightarrow> (sys, unit) outcome" where
  "executeXACommand env query state s =
     (case txReq (syTxn s) of
        None \<Rightarrow> (Inl (GoPanic ''nil pointer dereference''), s)
      | Some req \<Rightarrow>
          executeXA env \<lparr>rcRawQuery = query, rcMode = rcMode req, rcTxnMode = TxnNone, rcQuerys = rcQuerys req\<rparr> state s)"

text \<open>The common part of \<open>xaStart\<close>, \<open>xaEnd\<close> and \<open>xaPrepare\<close>: an error is counted and returned.\<close>

definition xa_phase :: "backend_env \<Rightarrow> txnXAState \<Rightarrow> txnXAState \<Rightarrow> string \<Rightarrow> sys \<Rightarrow> (sys, unit) outcome" where
  "xa_phase env state finished query s =
     (case executeXACommand env query state (set_xa state s) of
        (Inl e, s1) \<Rightarrow> (Inl e, set_xa finished (incErrors s1))
      | (Inr _, s1) \<Rightarrow> (Inr (), set_xa finished s1))"

definition xa_command :: "string \<Rightarrow> string \<Rightarrow> string" where
  "xa_command verb xid = ''XA '' @ verb @ '' '' @ [CHR 0x27] @ xid @ [CHR 0x27]"

definition new_xid :: "backend_env \<Rightarrow> sys \<Rightarrow> string" where
  "new_xid env s =
     (if txIsMultiStmtTxn (syTxn s) then ''MULTRXID-'' else ''RXID-'')
       @ evStamp env (woTrace (syWorld s)) @ ''-'' @ sprintf_d (uint (txId (syTxn s)))"

definition xaStart :: "backend_env \<Rightarrow> sys \<Rightarrow> (sys, unit) outcome" where
  "xaStart env s =
     (let xid = new_xid env s
      in xa_phase env XaStart XaStartFinished (xa_command ''START'' xid) (upd_txn (\<lambda>t. t\<lparr>txXid := xid\<rparr>) s))"

definition xaEnd :: "backend_env \<Rightarrow> sys \<Rightarrow> (sys, unit) outcome" where
  "xaEnd env s = xa_phase env XaEnd XaEndFinished (xa_command ''END'' (txXid (syTxn s))) s"

definition xaPrepare :: "backend_env \<Rightarrow> sys \<Rightarrow> (sys, unit) outcome" where
  "xaPrepare env s = xa_phase env XaPrepare XaPrepareFinished (xa_command ''PREPARE'' (txXid (syTxn s))) s"

text \<open>
  \<open>WriteXaCommitErrLog\<close> records the transaction for the checker. Its errors are only logged, but the panic of a
  failed flush passes through.
\<close>

definition WriteXaCommitErrLog :: "backend_env \<Rightarrow> string \<Rightarrow> sys \<Rightarrow> (sys, unit) outcome" where
  "WriteXaCommitErrLog env state s =
     (case XaCheck_Write (evStamp env (woTrace (syWorld s))) (txXid (syTxn s)) state (mgXaCheck (syMgr s)) of
        (r, xc) \<Rightarrow> (r, s\<lparr>syMgr := (syMgr s)\<lparr>mgXaCheck := xc\<rparr>\<rparr>))"

text \<open>The common part of \<open>xaCommit\<close> and \<open>xaRollback\<close>: an error is counted and recorded, and not returned.\<close>

definition xa_finish :: "backend_env \<Rightarrow> txnXAState \<Rightarrow> txnXAState \<Rightarrow> string \<Rightarrow> string \<Rightarrow> sys \<Rightarrow> (sys, unit) outcome" where
  "xa_finish env state finished query record_state s =
     (case executeXACommand env query state (set_xa state s) of
        (Inr _, s1) \<Rightarrow> (Inr (), set_xa finished s1)
      | (Inl (GoPanic p), s1) \<Rightarrow> (Inl (GoPanic p), set_xa finished s1)
      | (Inl _, s1) \<Rightarrow>
          (case WriteXaCommitErrLog env record_state (incErrors s1) of
             (Inl (GoPanic p), s2) \<Rightarrow> (Inl (GoPanic p), set_xa finished s2)
           | (_, s2) \<Rightarrow> (Inr (), set_xa finished s2)))"

definition xaCommit :: "backend_env \<Rightarrow> sys \<Rightarrow> (sys, unit) outcome" where
  "xaCommit env s = xa_finish env XaCommit XaCommitFinished (xa_command ''COMMIT'' (txXid (syTxn s))) ''commit'' s"

definition xaRollback :: "backend_env \<Rightarrow> sys \<Rightarrow> (sys, unit) outcome" where
  "xaRollback env s = xa_finish env XaRollback XaRollbackFinished (xa_command ''ROLLBACK'' (txXid (syTxn s))) ''rollback'' s"

subsection \<open>Begin, execute, commit and rollback\<close>

definition txn_Begin :: "sys \<Rightarrow> sys" where
  "txn_Begin = upd_txn (\<lambda>t. t\<lparr>txTwopc := True\<rparr>)"

text \<open>In twopc mode a read holds the commit lock for reading, and a write opens its branches first.\<close>

definition txn_Execute :: "backend_env \<Rightarrow> RequestContext \<Rightarrow> sys \<Rightarrow> (sys, Result) outcome" where
  "txn_Execute env req s =
     (let finish = (\<lambda>(r, s1). case r of Inl e \<Rightarrow> (Inl e, incErrors s1) | Inr qr \<Rightarrow> (Inr qr, s1))
      in if \<not> txTwopc (syTxn s) then finish (txn_execute env req s)
         else let s1 = upd_txn (\<lambda>t. t\<lparr>txReq := Some req\<rparr>) s in
           case rcTxnMode req of
             TxnRead \<Rightarrow> (case finish (txn_execute env req (upd_world (logged CommitRLocked) s1)) of
                           (r, s2) \<Rightarrow> (r, upd_world (logged CommitRUnlocked) s2))
           | TxnWrite \<Rightarrow> if txIsMultiStmtTxn (syTxn s) then finish (txn_execute env req s1)
                         else sbind (xaStart env s1) (\<lambda>_ s2. finish (txn_execute env req s2))
           | TxnNone \<Rightarrow> finish (txn_execute env req s1))"

definition is_write :: "sys \<Rightarrow> bool res" where
  "is_write s =
     (case txReq (syTxn s) of
        None \<Rightarrow> Inl (GoPanic ''nil pointer dereference'')
      | Some req \<Rightarrow> Inr (rcTxnMode req = TxnWrite))"

definition when_write :: "(sys \<Rightarrow> (sys, unit) outcome) \<Rightarrow> sys \<Rightarrow> (sys, unit) outcome" where
  "when_write f s = (case is_write s of Inl e \<Rightarrow> (Inl e, s) | Inr write \<Rightarrow> if write then f s else (Inr (), s))"

definition txn_Commit :: "backend_env \<Rightarrow> sys \<Rightarrow> (sys, unit) outcome" where
  "txn_Commit env s =
     when_write (\<lambda>s. sbind (xaEnd env s) (\<lambda>_ s. sbind (xaPrepare env s) (\<lambda>_. xaCommit env))) (set_state StCommitting s)"

definition txn_Rollback :: "backend_env \<Rightarrow> sys \<Rightarrow> (sys, unit) outcome" where
  "txn_Rollback env s =
     when_write (\<lambda>s. sbind (xaEnd env s) (\<lambda>_ s. sbind (xaPrepare env s) (\<lambda>_. xaRollback env))) (set_state StRollbacking s)"

definition RollbackPhaseOne :: "backend_env \<Rightarrow> sys \<Rightarrow> (sys, unit) outcome" where
  "RollbackPhaseOne env s = when_write (\<lambda>s. sbind (xaEnd env s) (\<lambda>_. xaRollback env)) (set_state StRollbacking s)"

definition scatter_request :: "sys \<Rightarrow> sys" where
  "scatter_request = upd_txn (\<lambda>t. t\<lparr>txTwopc := True, txReq := Some (NewRequestContext\<lparr>rcMode := ReqScatter\<rparr>)\<rparr>)"

definition BeginScatter :: "backend_env \<Rightarrow> sys \<Rightarrow> (sys, unit) outcome" where
  "BeginScatter env s = xaStart env (scatter_request s)"

definition CommitScatter :: "backend_env \<Rightarrow> sys \<Rightarrow> (sys, unit) outcome" where
  "CommitScatter env s =
     sbind (xaEnd env (scatter_request (set_state StCommitting s))) (\<lambda>_ s. sbind (xaPrepare env s) (\<lambda>_. xaCommit env))"

definition RollbackScatter :: "backend_env \<Rightarrow> sys \<Rightarrow> (sys, unit) outcome" where
  "RollbackScatter env s =
     sbind (xaEnd env (scatter_request (set_state StRollbacking s))) (\<lambda>_ s. sbind (xaPrepare env s) (\<lambda>_. xaRollback env))"

definition ExecuteScatter :: "backend_env \<Rightarrow> string \<Rightarrow> sys \<Rightarrow> (sys, Result) outcome" where
  "ExecuteScatter env query = txn_Execute env (NewRequestContext\<lparr>rcRawQuery := query, rcMode := ReqScatter\<rparr>)"

definition ExecuteSingle :: "backend_env \<Rightarrow> string \<Rightarrow> sys \<Rightarrow> (sys, Result) outcome" where
  "ExecuteSingle env query = txn_Execute env (NewRequestContext\<lparr>rcRawQuery := query, rcMode := ReqSingle\<rparr>)"

definition ExecuteOnThisBackend :: "backend_env \<Rightarrow> string \<Rightarrow> string \<Rightarrow> sys \<Rightarrow> (sys, Result) outcome" where
  "ExecuteOnThisBackend env back query =
     txn_Execute env (NewRequestContext\<lparr>rcQuerys := [\<lparr>qtQuery = query, qtBackend = back, qtRange = []\<rparr>]\<rparr>)"

subsection \<open>Finish and abort\<close>

definition release :: "backend_env \<Rightarrow> Txn \<Rightarrow> conn \<Rightarrow> world \<Rightarrow> world" where
  "release env t c = (if 0 < txErrors t then conn_Close c else conn_Recycle env c)"

definition txn_Finish :: "backend_env \<Rightarrow> sys \<Rightarrow> sys" where
  "txn_Finish env s =
     (let t = syTxn s;
          s1 = (if txState t = StAborting then s
                else s\<lparr>syTxn := t\<lparr>txXaState := XaNone, txState := StFinshing, txTwopcConnections := []\<rparr>,
                       syWorld := fold (release env t)
                         (map snd (txTwopcConnections t) @ txNormalConnections t @ txReplicaConnections t) (syWorld s),
                       syMgr := mgr_Remove (syMgr s)\<rparr>)
      in upd_txn (\<lambda>t. t\<lparr>txTwopc := False, txIsMultiStmtTxn := False\<rparr>) s1)"

definition txn_Abort :: "backend_env \<Rightarrow> sys \<Rightarrow> sys" where
  "txn_Abort env s =
     (let t = syTxn s;
          s1 = (if txState t = StFinshing then s
                else s\<lparr>syTxn := t\<lparr>txState := StAborting, txTwopcConnections := []\<rparr>,
                       syWorld := fold (conn_Kill env)
                         (map snd (txTwopcConnections t) @ txNormalConnections t @ txReplicaConnections t) (syWorld s),
                       syMgr := mgr_Remove (syMgr s)\<rparr>)
      in upd_txn (\<lambda>t. t\<lparr>txTwopc := False, txIsMultiStmtTxn := False\<rparr>) s1)"

subsection \<open>A statement in its own transaction\<close>

text \<open>
  \<open>ExecuteSingleStmtTxnTwoPC\<close> of \<open>src/src/proxy/execute.go\<close>. The plan is the request the planner makes of the
  statement, or its error; a data-changing statement is one request. The transaction is created before.
\<close>

definition ExecuteSingleStmtTxnTwoPC :: "backend_env \<Rightarrow> RequestContext res \<Rightarrow> sys \<Rightarrow> (sys, Result) outcome" where
  "ExecuteSingleStmtTxnTwoPC env plan s =
     (let s1 = txn_Begin s;
          body = (case plan of
             Inl e \<Rightarrow> (Inl e, s1)
           | Inr req \<Rightarrow>
               (case txn_Execute env req s1 of
                  (Inl e, s2) \<Rightarrow> (case RollbackPhaseOne env s2 of
                                   (Inl (GoPanic p), s3) \<Rightarrow> (Inl (GoPanic p), s3)
                                 | (_, s3) \<Rightarrow> (Inl e, s3))
                | (Inr qr, s2) \<Rightarrow> sbind (txn_Commit env s2) (\<lambda>_ s3. (Inr qr, s3))))
      in case body of (r, s4) \<Rightarrow> (r, txn_Finish env s4))"

end
