(* ===== verification/Radon_TwoPC.thy ===== *)
theory Radon_TwoPC
  imports Radon_Txn
begin

section \<open>Two-phase commit\<close>

text \<open>
  What the transactions of \<open>Radon_Txn\<close> send to the backends, for every environment: which commands, in
  which order, how often, and who owns the connections in between.
\<close>

subsection \<open>The invariant of a transaction\<close>

definition txn_conns :: "Txn \<Rightarrow> conn list" where
  "txn_conns t = map snd (txTwopcConnections t) @ txNormalConnections t @ txReplicaConnections t"

definition txn_refs :: "Txn \<Rightarrow> nat multiset" where
  "txn_refs t = image_mset coRef (mset (txn_conns t))"

definition Poolz_ok :: "world \<Rightarrow> Poolz \<Rightarrow> bool" where
  "Poolz_ok w pz \<longleftrightarrow> (\<forall>p. pzNormal pz = Some p \<longrightarrow> p < length (woPools w)) \<and> (\<forall>p. pzReplica pz = Some p \<longrightarrow> p < length (woPools w))"

definition backend_pool :: "Txn \<Rightarrow> string \<Rightarrow> nat" where
  "backend_pool t back = the (pzNormal (the (map_of (txBackends t) back)))"

text \<open>
  The connections of the transaction and those held by others are owned, the connections for two-phase
  commit belong to the pools of their backends, and the pools exist.
\<close>

definition sys_inv :: "nat multiset \<Rightarrow> sys \<Rightarrow> bool" where
  "sys_inv others s \<longleftrightarrow>
     owned (syWorld s) (txn_refs (syTxn s) + others)
     \<and> distinct_keys (txTwopcConnections (syTxn s))
     \<and> (\<forall>(b, c) \<in> set (txTwopcConnections (syTxn s)).
          map_of (txBackends (syTxn s)) b \<noteq> None \<and> coPool c = backend_pool (syTxn s) b)
     \<and> (\<forall>c \<in> set (txn_conns (syTxn s)). coPool c < length (woPools (syWorld s)))
     \<and> (\<forall>(b, pz) \<in> set (txBackends (syTxn s)). Poolz_ok (syWorld s) pz)"

text \<open>What the commands of a transaction do not change.\<close>

definition kept :: "sys \<Rightarrow> sys \<Rightarrow> bool" where
  "kept s s' \<longleftrightarrow> txXid (syTxn s') = txXid (syTxn s) \<and> txReq (syTxn s') = txReq (syTxn s)
     \<and> txBackends (syTxn s') = txBackends (syTxn s) \<and> syMgr s' = syMgr s
     \<and> (txState (syTxn s') = StAborting \<longrightarrow> txState (syTxn s) = StAborting)"

lemma kept_refl [simp, intro]: "kept s s"
  by (simp add: kept_def)

lemma kept_trans [trans]: "kept s t \<Longrightarrow> kept t u \<Longrightarrow> kept s u"
  by (simp add: kept_def)

lemma kept_backend_pool: "kept s s' \<Longrightarrow> backend_pool (syTxn s') = backend_pool (syTxn s)"
  by (simp add: kept_def backend_pool_def fun_eq_iff)

text \<open>The queries that were executed, with their results, in order.\<close>

fun exec_of :: "event \<Rightarrow> (conn \<times> string \<times> Result res) list" where
  "exec_of (Executed c q r) = [(c, q, r)]"
| "exec_of _ = []"

definition execs :: "world \<Rightarrow> (conn \<times> string \<times> Result res) list" where
  "execs w = concat (map exec_of (woTrace w))"

lemma execs_logged [simp]: "execs (logged e w) = execs w @ exec_of e"
  by (simp add: execs_def)

lemma execs_set_connections [simp]: "execs (set_connections p cs w) = execs w"
  by (simp add: execs_def)

lemma execs_Close [simp]: "execs (conn_Close c w) = execs w"
  by (simp add: conn_Close_def)

lemma execs_reconnect: "pool_reconnect env p w = (r, w') \<Longrightarrow> execs w' = execs w"
  by (auto simp: pool_reconnect_def Let_def split: option.splits)

lemma execs_Get: "pool_Get env p w = (r, w') \<Longrightarrow> execs w' = execs w"
  by (auto simp: pool_Get_def Let_def split: option.splits list.splits if_splits dest!: execs_reconnect)

lemma execs_Recycle [simp]: "execs (conn_Recycle env c w) = execs w"
  by (auto simp: conn_Recycle_def pool_Put_def pool_put_def Let_def split: option.splits)

lemma execs_Execute: "conn_Execute env c q w = (r, w') \<Longrightarrow> execs w' = execs w @ [(c, q, r)]"
  by (auto simp: conn_Execute_def ExecuteWithLimits_def driver_fetch_def Let_def split: fetch.splits)

subsection \<open>Connections\<close>

lemma mset_alist_update:
  assumes "map_of m k = None"
  shows "mset (map snd (AList.update k v m)) = add_mset v (mset (map snd m))"
  using assms by (induction m) (auto split: if_splits)

lemma mset_alist_delete:
  assumes "distinct_keys m" "map_of m k = Some v"
  shows "add_mset v (mset (map snd (AList.delete k m))) = mset (map snd m)"
  using assms
proof (induction m)
  case (Cons x m)
  obtain k' v' where x: "x = (k', v')" by force
  have d: "distinct_keys m" "k' \<notin> keys m" using Cons.prems(1) by (auto simp: x distinct_keys_def)
  have "AList.delete k m = m" if "k \<notin> keys m" using that by (simp add: delete_notin_dom)
  with Cons d show ?case by (auto simp: x split: if_splits)
qed simp

lemma sys_inv_pool:
  assumes "sys_inv others s" "map_of (txBackends (syTxn s)) b = Some pz"
  shows "pzNormal pz = Some p \<Longrightarrow> p < length (woPools (syWorld s))" "pzReplica pz = Some p \<Longrightarrow> p < length (woPools (syWorld s))"
  using assms map_of_SomeD [OF assms(2)] by (auto simp: sys_inv_def Poolz_ok_def)

text \<open>A world that extends another keeps the parts of the invariant that are about pools.\<close>

lemma sys_inv_world:
  assumes "sys_inv others s" "extends (syWorld s) w" "owned w (txn_refs (syTxn s) + others)"
  shows "sys_inv others (s\<lparr>syWorld := w\<rparr>)"
  using assms extends_length [OF assms(2)] by (auto simp: sys_inv_def Poolz_ok_def)

text \<open>A connection taken from a pool and added to one of the lists of the transaction.\<close>

lemma Get_sys_inv:
  assumes "sys_inv others s" "p < length (woPools (syWorld s))" "on_world (pool_Get env p) s = (r, s1)"
  shows "kept s s1" "syTxn s1 = syTxn s" "extends (syWorld s) (syWorld s1)" "execs (syWorld s1) = execs (syWorld s)"
    and "r = Inl e \<Longrightarrow> sys_inv others s1"
    and "r = Inr c \<Longrightarrow> coPool c = p \<and> owned (syWorld s1) (add_mset (coRef c) (txn_refs (syTxn s) + others))"
    and "s1 = s\<lparr>syWorld := syWorld s1\<rparr>"
proof -
  obtain w where g: "pool_Get env p (syWorld s) = (r, w)" and s1: "s1 = s\<lparr>syWorld := w\<rparr>"
    using assms(3) by (auto simp: on_world_def split: prod.splits)
  have "owned (syWorld s) (txn_refs (syTxn s) + others)" using assms(1) by (simp add: sys_inv_def)
  note go = Get_owned [OF this assms(2) g]
  show "kept s s1" "syTxn s1 = syTxn s" "s1 = s\<lparr>syWorld := syWorld s1\<rparr>" by (simp_all add: s1 kept_def)
  show "execs (syWorld s1) = execs (syWorld s)" using execs_Get [OF g] by (simp add: s1)
  show "extends (syWorld s) (syWorld s1)" using go by (simp add: s1)
  show "sys_inv others s1" if "r = Inl e" using go that sys_inv_world [OF assms(1), of w] by (simp add: s1)
  show "coPool c = p \<and> owned (syWorld s1) (add_mset (coRef c) (txn_refs (syTxn s) + others))" if "r = Inr c"
    using go that by (simp add: s1)
qed

definition step :: "nat multiset \<Rightarrow> sys \<Rightarrow> sys \<Rightarrow> bool" where
  "step others s s' \<longleftrightarrow> sys_inv others s' \<and> kept s s' \<and> extends (syWorld s) (syWorld s')"

lemma step_refl [intro]: "sys_inv others s \<Longrightarrow> step others s s"
  by (simp add: step_def)

lemma step_trans [trans]: "step others s t \<Longrightarrow> step others t u \<Longrightarrow> step others s u"
  by (auto simp: step_def intro: kept_trans extends_trans)

lemma step_inv: "step others s s' \<Longrightarrow> sys_inv others s'"
  by (simp add: step_def)

text \<open>The invariant for a transaction with one more connection.\<close>

lemma sys_inv_add:
  assumes "sys_inv others s" "txBackends t = txBackends (syTxn s)" "mset (txn_conns t) = add_mset c (mset (txn_conns (syTxn s)))"
    and "owned w (add_mset (coRef c) (txn_refs (syTxn s) + others))" "extends (syWorld s) w" "coPool c < length (woPools w)"
    and "distinct_keys (txTwopcConnections t)"
    and "\<forall>(b, c) \<in> set (txTwopcConnections t). map_of (txBackends t) b \<noteq> None \<and> coPool c = backend_pool t b"
  shows "sys_inv others (s\<lparr>syTxn := t, syWorld := w\<rparr>)"
proof -
  have "txn_refs t = add_mset (coRef c) (txn_refs (syTxn s))" by (simp add: txn_refs_def assms(3))
  moreover have "set (txn_conns t) = insert c (set (txn_conns (syTxn s)))" using arg_cong [OF assms(3), of set_mset] by simp
  ultimately show ?thesis
    using assms(1,2,4,6-8) extends_length [OF assms(5)] by (auto simp: sys_inv_def Poolz_ok_def)
qed

lemma twopcConnection_step:
  assumes "sys_inv others s" "twopcConnection env back s = (r, s')"
  shows "step others s s'" "execs (syWorld s') = execs (syWorld s)"
    and "r = Inr c \<Longrightarrow> coPool c = backend_pool (syTxn s) back \<and> coPool c < length (woPools (syWorld s'))"
proof -
  let ?tw = "txTwopcConnections (syTxn s)"
  have "step others s s' \<and> execs (syWorld s') = execs (syWorld s)
    \<and> (\<forall>c. r = Inr c \<longrightarrow> coPool c = backend_pool (syTxn s) back \<and> coPool c < length (woPools (syWorld s')))"
  proof (cases "map_of ?tw back")
    case (Some c)
    from map_of_SomeD [OF this] assms(1) have "coPool c = backend_pool (syTxn s) back" "coPool c < length (woPools (syWorld s))"
      by (force simp: sys_inv_def txn_conns_def)+
    with Some assms show ?thesis by (auto simp: twopcConnection_def)
  next
    case None
    show ?thesis
    proof (cases "map_of (txBackends (syTxn s)) back")
      case None': None
      with None assms show ?thesis by (auto simp: twopcConnection_def)
    next
      case (Some pz)
      show ?thesis
      proof (cases "pzNormal pz")
        case N: None
        with None Some assms show ?thesis by (auto simp: twopcConnection_def normal_Get_def)
      next
        case N: (Some p)
        note p = sys_inv_pool(1) [OF assms(1) Some N]
        obtain r1 s1 where g: "on_world (pool_Get env p) s = (r1, s1)" by force
        note g' = Get_sys_inv [OF assms(1) p g]
        show ?thesis
        proof (cases r1)
          case (Inl e)
          with assms(2) None Some N g g' show ?thesis by (auto simp: twopcConnection_def normal_Get_def step_def)
        next
          case (Inr c)
          let ?t = "(syTxn s)\<lparr>txTwopcConnections := AList.update back c ?tw\<rparr>"
          have "r = Inr c" "s' = upd_txn (\<lambda>t. t\<lparr>txTwopcConnections := AList.update back c (txTwopcConnections t)\<rparr>) s1"
            using assms(2) None Some N g Inr by (simp_all add: twopcConnection_def normal_Get_def)
          then have s': "s' = s\<lparr>syTxn := ?t, syWorld := syWorld s1\<rparr>" "r = Inr c"
            by (simp_all add: upd_txn_def g'(2)) (subst g'(7), simp)
          have c: "coPool c = p" "owned (syWorld s1) (add_mset (coRef c) (txn_refs (syTxn s) + others))"
            using g'(6) Inr by blast+
          have cp: "coPool c < length (woPools (syWorld s1))" using c(1) p extends_length [OF g'(3)] by simp
          have bp: "backend_pool (syTxn s) back = p" by (simp add: backend_pool_def Some N)
          have "sys_inv others s'"
            unfolding s'(1)
          proof (rule sys_inv_add [OF assms(1) _ _ c(2) g'(3) cp])
            show "mset (txn_conns ?t) = add_mset c (mset (txn_conns (syTxn s)))"
              using mset_alist_update [OF None, of c] by (simp add: txn_conns_def)
            show "distinct_keys (txTwopcConnections ?t)" using assms(1) by (simp add: sys_inv_def)
            show "\<forall>(b, c) \<in> set (txTwopcConnections ?t). map_of (txBackends ?t) b \<noteq> None \<and> coPool c = backend_pool ?t b"
              using assms(1) c(1) bp Some set_update [of ?tw "back" c] by (fastforce simp: sys_inv_def backend_pool_def)
          qed simp
          with g' cp bp c(1) show ?thesis by (auto simp: s' step_def kept_def)
        qed
      qed
    qed
  qed
  then show "step others s s'" "execs (syWorld s') = execs (syWorld s)"
    and "r = Inr c \<Longrightarrow> coPool c = backend_pool (syTxn s) back \<and> coPool c < length (woPools (syWorld s'))" by blast+
qed

text \<open>The invariant for a transaction with fewer connections.\<close>

lemma sys_inv_sub:
  assumes "sys_inv others s" "txBackends t = txBackends (syTxn s)" "set (txn_conns t) \<subseteq> set (txn_conns (syTxn s))"
    and "set (txTwopcConnections t) \<subseteq> set (txTwopcConnections (syTxn s))" "distinct_keys (txTwopcConnections t)"
    and "owned w (txn_refs t + others)" "extends (syWorld s) w"
  shows "sys_inv others (s\<lparr>syTxn := t, syWorld := w\<rparr>)"
proof -
  have b: "backend_pool t = backend_pool (syTxn s)" by (simp add: backend_pool_def fun_eq_iff assms(2))
  have "\<forall>(b, c) \<in> set (txTwopcConnections t). map_of (txBackends t) b \<noteq> None \<and> coPool c = backend_pool t b"
    unfolding b assms(2) using assms(1,4) unfolding sys_inv_def by blast
  moreover have "\<forall>c \<in> set (txn_conns t). coPool c < length (woPools w)"
    unfolding extends_length [OF assms(7)] using assms(1,3) unfolding sys_inv_def by blast
  moreover have "\<forall>(b, pz) \<in> set (txBackends t). Poolz_ok w pz"
    using assms(1) extends_length [OF assms(7)] unfolding assms(2) sys_inv_def Poolz_ok_def by simp
  ultimately show ?thesis using assms(5,6) by (simp add: sys_inv_def)
qed

lemma sys_inv_drop:
  assumes "sys_inv others s" "map_of (txTwopcConnections (syTxn s)) b = Some c"
  defines "s' \<equiv> upd_world (conn_Close c) (upd_txn (\<lambda>t. t\<lparr>txTwopcConnections := AList.delete b (txTwopcConnections t)\<rparr>) s)"
  shows "step others s s'" "execs (syWorld s') = execs (syWorld s)"
proof -
  let ?tw = "txTwopcConnections (syTxn s)"
  let ?t = "(syTxn s)\<lparr>txTwopcConnections := AList.delete b ?tw\<rparr>"
  have d: "distinct_keys ?tw" using assms(1) by (simp add: sys_inv_def)
  have m: "add_mset c (mset (txn_conns ?t)) = mset (txn_conns (syTxn s))"
    using mset_alist_delete [OF d assms(2)] by (simp add: txn_conns_def flip: add_mset_add_single)
  then have "txn_refs (syTxn s) = add_mset (coRef c) (txn_refs ?t)" unfolding txn_refs_def by (simp flip: m)
  with assms(1) have "owned (syWorld s) (add_mset (coRef c) (txn_refs ?t + others))" by (simp add: sys_inv_def)
  from owned_Close [OF this] have o: "owned (conn_Close c (syWorld s)) (txn_refs ?t + others)" .
  have e: "extends (syWorld s) (conn_Close c (syWorld s))" by (simp add: conn_Close_def)
  have "sys_inv others (s\<lparr>syTxn := ?t, syWorld := conn_Close c (syWorld s)\<rparr>)"
  proof (rule sys_inv_sub [OF assms(1) _ _ _ _ o e])
    show "set (txn_conns ?t) \<subseteq> set (txn_conns (syTxn s))" using arg_cong [OF m, of set_mset] by auto
    show "set (txTwopcConnections ?t) \<subseteq> set (txTwopcConnections (syTxn s))" by (auto simp: AList.delete_eq)
    show "distinct_keys (txTwopcConnections ?t)" using d by simp
  qed simp
  moreover have s': "s' = s\<lparr>syTxn := ?t, syWorld := conn_Close c (syWorld s)\<rparr>" by (simp add: s'_def upd_txn_def upd_world_def)
  ultimately show "step others s s'" using e by (simp add: step_def kept_def)
  show "execs (syWorld s') = execs (syWorld s)" by (simp add: s')
qed

lemma reFetch_step:
  assumes "sys_inv others s" "reFetchTwopcConnection env b s = (r, s')"
  shows "step others s s'" "execs (syWorld s') = execs (syWorld s)"
    and "r = Inr c \<Longrightarrow> coPool c = backend_pool (syTxn s) b \<and> coPool c < length (woPools (syWorld s'))"
proof -
  let ?s1 = "case map_of (txTwopcConnections (syTxn s)) b of None \<Rightarrow> s
    | Some c \<Rightarrow> upd_world (conn_Close c) (upd_txn (\<lambda>t. t\<lparr>txTwopcConnections := AList.delete b (txTwopcConnections t)\<rparr>) s)"
  have d: "step others s ?s1" "execs (syWorld ?s1) = execs (syWorld s)"
    using sys_inv_drop [OF assms(1)] assms(1) by (auto split: option.split)
  have t: "twopcConnection env b ?s1 = (r, s')" using assms(2) by (simp add: reFetchTwopcConnection_def)
  have bp: "backend_pool (syTxn ?s1) = backend_pool (syTxn s)" using d(1) by (intro kept_backend_pool) (simp add: step_def)
  note tw = twopcConnection_step [OF step_inv [OF d(1)] t]
  show "step others s s'" using d(1) tw(1) by (rule step_trans)
  show "execs (syWorld s') = execs (syWorld s)" using d(2) tw(2) by simp
  show "coPool c = backend_pool (syTxn s) b \<and> coPool c < length (woPools (syWorld s'))" if "r = Inr c"
    using tw(3) [OF that] bp by simp
qed

lemma exec_step:
  assumes "sys_inv others s" "coPool c < length (woPools (syWorld s))"
    and "on_world (ExecuteWithLimits env c q timeout mem) s = (r, s')"
  shows "step others s s'"
proof -
  obtain w where x: "ExecuteWithLimits env c q timeout mem (syWorld s) = (r, w)" and s': "s' = s\<lparr>syWorld := w\<rparr>"
    using assms(3) by (auto simp: on_world_def split: prod.splits)
  have "owned (syWorld s) (txn_refs (syTxn s) + others)" using assms(1) by (simp add: sys_inv_def)
  from Execute_owned [OF this assms(2) x] sys_inv_world [OF assms(1)] show ?thesis by (simp add: s' step_def kept_def)
qed

lemma command_step:
  assumes "sys_inv others s" "coPool c < length (woPools (syWorld s))" "on_world (conn_Execute env c q) s = (r, s')"
  shows "step others s s'" "execs (syWorld s') = execs (syWorld s) @ [(c, q, r)]"
proof -
  show "step others s s'" by (rule exec_step [OF assms(1,2)]) (use assms(3) in \<open>simp add: conn_Execute_def [abs_def] on_world_def\<close>)
  show "execs (syWorld s') = execs (syWorld s) @ [(c, q, r)]"
    using assms(3) execs_Execute [of env c q "syWorld s"] by (auto simp: on_world_def split: prod.splits)
qed

subsection \<open>The commands of one shard\<close>

text \<open>
  What a shard sends for a command: only this command, over connections of its backend's pool, at most
  \<open>n\<close> times; it reports success exactly when an execution succeeded.
\<close>

type_synonym exec_log = "(conn \<times> string \<times> Result res) list"

definition acknowledged :: "string \<Rightarrow> nat \<Rightarrow> exec_log \<Rightarrow> bool" where
  "acknowledged q p xs \<longleftrightarrow> (\<exists>c qr. (c, q, Inr qr) \<in> set xs \<and> coPool c = p)"

definition shard_log :: "string \<Rightarrow> nat \<Rightarrow> nat \<Rightarrow> exec_log \<Rightarrow> bool" where
  "shard_log q n p xs \<longleftrightarrow> (\<forall>(c, q', _) \<in> set xs. q' = q \<and> coPool c = p) \<and> length xs \<le> n"

lemma xa_retry_log:
  assumes "sys_inv others s" "xa_retry env q b retry n x s = (r, s')" "n = 0 \<Longrightarrow> x \<noteq> Inr ()" "retry \<noteq> 0 \<Longrightarrow> x \<noteq> Inr ()"
  shows "step others s s' \<and> (\<exists>xs. execs (syWorld s') = execs (syWorld s) @ xs
    \<and> shard_log q n (backend_pool (syTxn s) b) xs \<and> (r = Inr () \<longleftrightarrow> acknowledged q (backend_pool (syTxn s) b) xs))"
  using assms
proof (induction n arbitrary: retry x s)
  case 0
  then show ?case by (auto simp: shard_log_def acknowledged_def intro: step_refl)
next
  case (Suc n)
  let ?p = "backend_pool (syTxn s) b"
  obtain r1 s1 where g: "(if retry = 0 then twopcConnection env b s else reFetchTwopcConnection env b s) = (r1, s1)" by force
  have "step others s s1 \<and> execs (syWorld s1) = execs (syWorld s)
    \<and> (\<forall>c. r1 = Inr c \<longrightarrow> coPool c = ?p \<and> coPool c < length (woPools (syWorld s1)))"
  proof (cases "retry = 0")
    case True
    with g have "twopcConnection env b s = (r1, s1)" by simp
    from twopcConnection_step [OF Suc.prems(1) this] show ?thesis by blast
  next
    case False
    with g have "reFetchTwopcConnection env b s = (r1, s1)" by simp
    from reFetch_step [OF Suc.prems(1) this] show ?thesis by blast
  qed
  then have g1: "step others s s1" "execs (syWorld s1) = execs (syWorld s)"
    and g2: "r1 = Inr c \<Longrightarrow> coPool c = ?p \<and> coPool c < length (woPools (syWorld s1))" for c by blast+
  have bp: "backend_pool (syTxn s1) = backend_pool (syTxn s)" using g1(1) by (intro kept_backend_pool) (simp add: step_def)
  show ?case
  proof (cases r1)
    case (Inl e)
    show ?thesis
    proof (cases "\<exists>p. e = GoPanic p")
      case True
      with Suc.prems(2) g Inl g1 show ?thesis by (auto simp: shard_log_def acknowledged_def)
    next
      case False
      then have "xa_retry env q b (retry + 1) n (Inl e) s1 = (r, s')" using Suc.prems(2) g Inl by (cases e) simp_all
      from Suc.IH [OF step_inv [OF g1(1)] this] g1 bp show ?thesis
        by (auto simp: shard_log_def intro: step_trans)
    qed
  next
    case (Inr c)
    obtain r2 s2 where x: "on_world (conn_Execute env c q) s1 = (r2, s2)" by force
    note c = g2 [OF Inr]
    note x' = command_step [OF step_inv [OF g1(1)] _ x]
    have s2: "step others s s2" using step_trans [OF g1(1) x'(1)] c by simp
    have e2: "execs (syWorld s2) = execs (syWorld s) @ [(c, q, r2)]" using x'(2) c g1(2) by simp
    have bp2: "backend_pool (syTxn s2) = backend_pool (syTxn s)" using s2 by (intro kept_backend_pool) (simp add: step_def)
    show ?thesis
    proof (cases r2)
      case ok: (Inr qr)
      then have "r = Inr ()" "s' = s2" using Suc.prems(2) g Inr x by simp_all
      with s2 e2 ok c show ?thesis
        by (auto simp: shard_log_def acknowledged_def intro!: exI [of _ "[(c, q, r2)]"])
    next
      case err: (Inl e)
      show ?thesis
      proof (cases "e = SQLError 1397")
        case True
        then have "r = Inl e" "s' = s2" using Suc.prems(2) g Inr x err by simp_all
        with s2 e2 err c show ?thesis
          by (auto simp: shard_log_def acknowledged_def intro!: exI [of _ "[(c, q, r2)]"])
      next
        case False
        then have "xa_retry env q b (retry + 1) n (Inl e) s2 = (r, s')" using Suc.prems(2) g Inr x err by simp
        from Suc.IH [OF step_inv [OF s2] this] obtain xs where ih: "step others s2 s'" "execs (syWorld s') = execs (syWorld s2) @ xs"
          "shard_log q n ?p xs" "r = Inr () \<longleftrightarrow> acknowledged q ?p xs" by (auto simp: bp2)
        have "shard_log q (Suc n) ?p ((c, q, r2) # xs)" using ih(3) c by (simp add: shard_log_def)
        moreover have "acknowledged q ?p ((c, q, r2) # xs) \<longleftrightarrow> acknowledged q ?p xs" by (auto simp: acknowledged_def err)
        ultimately show ?thesis using ih step_trans [OF s2 ih(1)] e2 by (auto intro!: exI [of _ "(c, q, r2) # xs"])
      qed
    qed
  qed
qed

abbreviation attempts :: "txnXAState \<Rightarrow> nat" where
  "attempts state \<equiv> if state = XaCommit \<or> state = XaRollback then xaMaxRetryNum else 1"

abbreviation is_command :: "txnXAState \<Rightarrow> bool" where
  "is_command state \<equiv> state \<in> {XaStart, XaEnd, XaPrepare, XaCommit, XaRollback}"

lemma xa_shard_log:
  assumes "is_command state" "sys_inv others s" "xa_shard env state q b s = (r, s')"
  shows "step others s s' \<and> (\<exists>xs. execs (syWorld s') = execs (syWorld s) @ xs
    \<and> shard_log q (attempts state) (backend_pool (syTxn s) b) xs
    \<and> (r = Inr () \<longleftrightarrow> acknowledged q (backend_pool (syTxn s) b) xs))"
proof (cases "state = XaCommit \<or> state = XaRollback")
  case True
  then have "xa_retry env q b 0 xaMaxRetryNum (Inr ()) s = (r, s')" using assms(3) by (auto simp: xa_shard_def)
  from xa_retry_log [OF assms(2) this] True show ?thesis by simp
next
  case False
  obtain r1 s1 where g: "twopcConnection env b s = (r1, s1)" by force
  note g' = twopcConnection_step [OF assms(2) g]
  show ?thesis
  proof (cases r1)
    case (Inl e)
    with assms(1,3) False g g' show ?thesis by (auto simp: xa_shard_def shard_log_def acknowledged_def)
  next
    case (Inr c)
    obtain r2 s2 where x: "on_world (conn_Execute env c q) s1 = (r2, s2)" by force
    have c: "coPool c = backend_pool (syTxn s) b" "coPool c < length (woPools (syWorld s1))" using g'(3) [OF Inr] by simp_all
    note x' = command_step [OF step_inv [OF g'(1)] c(2) x]
    have st: "step others s s2" using step_trans [OF g'(1) x'(1)] .
    have "r = Inr () \<longleftrightarrow> (\<exists>qr. r2 = Inr qr)" "s' = s2"
      using assms(1,3) False g Inr x by (cases r2; auto simp: xa_shard_def)+
    with st x'(2) g'(2) c False show ?thesis
      by (auto simp: shard_log_def acknowledged_def intro!: exI [of _ "[(c, q, r2)]"])
  qed
qed

lemma run_all_log:
  assumes "is_command state" "sys_inv others s" "run_all (xa_shard env state q) backs s = (r, s')"
  shows "step others s s' \<and> (\<exists>xss. execs (syWorld s') = execs (syWorld s) @ concat xss
    \<and> list_all2 (\<lambda>b. shard_log q (attempts state) (backend_pool (syTxn s) b)) backs xss
    \<and> (r = Inr () \<longleftrightarrow> list_all2 (\<lambda>b. acknowledged q (backend_pool (syTxn s) b)) backs xss))"
  using assms(2,3)
proof (induction backs arbitrary: s r)
  case Nil
  then show ?case by (auto intro: step_refl)
next
  case (Cons b backs)
  obtain r1 s1 where x: "xa_shard env state q b s = (r1, s1)" by force
  obtain r2 where rest: "run_all (xa_shard env state q) backs s1 = (r2, s')" and r: "r = (case r1 of Inl e \<Rightarrow> Inl e | Inr _ \<Rightarrow> r2)"
    using Cons.prems(2) x by (auto split: prod.splits)
  from xa_shard_log [OF assms(1) Cons.prems(1) x] obtain xs where s1: "step others s s1"
    "execs (syWorld s1) = execs (syWorld s) @ xs" "shard_log q (attempts state) (backend_pool (syTxn s) b) xs"
    "r1 = Inr () \<longleftrightarrow> acknowledged q (backend_pool (syTxn s) b) xs" by blast
  have bp: "backend_pool (syTxn s1) = backend_pool (syTxn s)" using s1(1) by (intro kept_backend_pool) (simp add: step_def)
  from Cons.IH [OF step_inv [OF s1(1)] rest] obtain xss where s2: "step others s1 s'"
    "execs (syWorld s') = execs (syWorld s1) @ concat xss"
    "list_all2 (\<lambda>b. shard_log q (attempts state) (backend_pool (syTxn s) b)) backs xss"
    "r2 = Inr () \<longleftrightarrow> list_all2 (\<lambda>b. acknowledged q (backend_pool (syTxn s) b)) backs xss"
    unfolding bp by blast
  have "r = Inr () \<longleftrightarrow> r1 = Inr () \<and> r2 = Inr ()" by (auto simp: r split: sum.splits)
  with s1 s2 step_trans [OF s1(1) s2(1)] show ?case by (intro conjI exI [of _ "xs # xss"]) auto
qed

subsection \<open>The phases\<close>

text \<open>How often a log sends over the connections of a pool.\<close>

definition sends :: "nat \<Rightarrow> exec_log \<Rightarrow> nat" where
  "sends p xs = length (filter (\<lambda>(c, _, _). coPool c = p) xs)"

lemma sends_append [simp]: "sends p [] = 0" "sends p (xs @ ys) = sends p xs + sends p ys"
  by (simp_all add: sends_def)

lemma shard_log_sends:
  assumes "shard_log q n p' xs"
  shows "sends p xs \<le> (if p = p' then n else 0)"
proof (cases "p = p'")
  case True
  then show ?thesis
    using assms le_trans [OF length_filter_le] unfolding sends_def shard_log_def by auto
next
  case False
  then have "filter (\<lambda>(c, _, _). coPool c = p) xs = []"
    using assms unfolding shard_log_def filter_empty_conv by blast
  with False show ?thesis by (simp add: sends_def)
qed

lemma shard_logs_sends:
  assumes "list_all2 (\<lambda>b. shard_log q n (f b)) backs xss"
  shows "sends p (concat xss) \<le> n * count_list (map f backs) p"
  using assms
proof (induction rule: list_all2_induct)
  case (Cons b bs xs xss)
  with shard_log_sends [OF Cons.hyps(1), of p] show ?case by (simp split: if_splits)
qed simp

text \<open>
  What a phase logs: the logs of its participants one after the other, each over the connections of
  its own pool; when it succeeds all of them acknowledged the command.
\<close>

definition phase_log :: "Txn \<Rightarrow> RequestContext \<Rightarrow> txnXAState \<Rightarrow> string \<Rightarrow> exec_log \<Rightarrow> bool \<Rightarrow> bool" where
  "phase_log t req state q xs all_ok \<longleftrightarrow>
     (\<forall>(c, q', _) \<in> set xs. q' = q) \<and> (\<forall>p. sends p xs \<le> attempts state * count_list (map (backend_pool t) (xa_backends req t)) p)
     \<and> (all_ok \<longrightarrow> (\<forall>b \<in> set (xa_backends req t). acknowledged q (backend_pool t b) xs))"

lemma sys_inv_upd:
  assumes "txn_conns (f (syTxn s)) = txn_conns (syTxn s)" "txTwopcConnections (f (syTxn s)) = txTwopcConnections (syTxn s)"
    and "txBackends (f (syTxn s)) = txBackends (syTxn s)"
  shows "sys_inv others (upd_txn f s) \<longleftrightarrow> sys_inv others s"
  using assms by (simp add: sys_inv_def upd_txn_def txn_refs_def backend_pool_def)

lemma inv_set [simp]:
  "sys_inv others (set_state st s) \<longleftrightarrow> sys_inv others s" "sys_inv others (set_xa xa s) \<longleftrightarrow> sys_inv others s"
  "sys_inv others (incErrors s) \<longleftrightarrow> sys_inv others s"
  by (simp_all add: set_state_def set_xa_def incErrors_def sys_inv_upd txn_conns_def)

lemma set_simps [simp]:
  "syWorld (set_state st s) = syWorld s" "syWorld (set_xa xa s) = syWorld s" "syWorld (incErrors s) = syWorld s"
  "st \<noteq> StAborting \<Longrightarrow> kept s s' \<Longrightarrow> kept s (set_state st s')" "kept s (set_xa xa s') \<longleftrightarrow> kept s s'" "kept s (incErrors s') \<longleftrightarrow> kept s s'"
  by (simp_all add: set_state_def set_xa_def incErrors_def upd_txn_def kept_def)

lemma step_set [simp]:
  "st \<noteq> StAborting \<Longrightarrow> step others s s' \<Longrightarrow> step others s (set_state st s')" "step others s (set_xa xa s') \<longleftrightarrow> step others s s'"
  "step others s (incErrors s') \<longleftrightarrow> step others s s'"
  by (simp_all add: step_def)

lemma lock_step:
  assumes "sys_inv others s" "\<And>c. e \<noteq> Closed c"
  shows "step others s (upd_world (logged e) s)"
proof -
  have "owned (logged e (syWorld s)) (txn_refs (syTxn s) + others)" using assms by (intro owned_logged) (auto simp: sys_inv_def)
  from sys_inv_world [OF assms(1) _ this] show ?thesis by (simp add: upd_world_def step_def kept_def)
qed

lemma executeXA_log:
  assumes "is_command state" "sys_inv others s" "executeXA env req state s = (r, s')"
  shows "step others s s' \<and> (\<exists>xs. execs (syWorld s') = execs (syWorld s) @ xs
    \<and> phase_log (syTxn s) req state (rcRawQuery req) xs (r = Inr ()))"
proof -
  let ?backs = "xa_backends req (syTxn s)" and ?q = "rcRawQuery req"
  define lock where "lock = ((state = XaCommit \<or> state = XaRollback) \<and> (rcMode req = ReqScatter \<or> ?backs \<noteq> []))"
  define s2 where "s2 = (if lock then upd_world (logged CommitLocked) (set_state StExecutingTwoPC s) else set_state StExecutingTwoPC s)"
  obtain s3 where run: "run_all (xa_shard env state ?q) ?backs s2 = (r, s3)"
    and s': "s' = (if lock then upd_world (logged CommitUnlocked) s3 else s3)"
    using assms(3) by (auto simp: executeXA_def Let_def lock_def s2_def split: prod.splits)
  have i: "sys_inv others (set_state StExecutingTwoPC s)" using assms(2) by simp
  have s2: "step others s s2" "execs (syWorld s2) = execs (syWorld s)"
    using step_trans [of others s, OF _ lock_step [OF i, of CommitLocked]] assms(2)
    by (auto simp: s2_def upd_world_def step_refl)
  have bp: "backend_pool (syTxn s2) = backend_pool (syTxn s)" using s2(1) by (intro kept_backend_pool) (simp add: step_def)
  from run_all_log [OF assms(1) step_inv [OF s2(1)] run] obtain xss where s3: "step others s2 s3"
    "execs (syWorld s3) = execs (syWorld s2) @ concat xss"
    and l: "list_all2 (\<lambda>b. shard_log ?q (attempts state) (backend_pool (syTxn s) b)) ?backs xss"
    and a: "r = Inr () \<longleftrightarrow> list_all2 (\<lambda>b. acknowledged ?q (backend_pool (syTxn s) b)) ?backs xss" unfolding bp by blast
  have s'3: "step others s3 s'" "execs (syWorld s') = execs (syWorld s3)"
    using lock_step [OF step_inv [OF s3(1)], of CommitUnlocked] step_inv [OF s3(1)] by (auto simp: s' upd_world_def)
  have "phase_log (syTxn s) req state ?q (concat xss) (r = Inr ())"
    unfolding phase_log_def
  proof (intro conjI)
    show "\<forall>(c, q', _) \<in> set (concat xss). q' = ?q"
      using l by (fastforce simp: list_all2_conv_all_nth shard_log_def in_set_conv_nth)
    show "\<forall>p. sends p (concat xss) \<le> attempts state * count_list (map (backend_pool (syTxn s)) ?backs) p"
      using shard_logs_sends [OF l] ..
    show "r = Inr () \<longrightarrow> (\<forall>b \<in> set ?backs. acknowledged ?q (backend_pool (syTxn s) b) (concat xss))"
    proof (intro impI ballI)
      fix b assume "r = Inr ()" "b \<in> set ?backs"
      with a obtain xs where "xs \<in> set xss" "acknowledged ?q (backend_pool (syTxn s) b) xs"
        using list_all2_in_left [of "\<lambda>b. acknowledged ?q (backend_pool (syTxn s) b)"] by metis
      then show "acknowledged ?q (backend_pool (syTxn s) b) (concat xss)" unfolding acknowledged_def by force
    qed
  qed
  then show ?thesis using s2 s3 s'3 step_trans [OF s2(1)] step_trans [OF s3(1) s'3(1)] by auto
qed

end
