(* ===== verification/Radon_Commit.thy ===== *)
theory Radon_Commit
  imports Radon_TwoPC
begin

text \<open>
  The whole two-phase commit of \<open>src/backend/txn.go\<close> and \<open>src/backend/xa.go\<close> over the logs of its
  participants (\<open>Radon_TwoPC\<close>): what a transaction sends in each phase, when it may send the
  commit, what a reported success means, and which connections it still holds when it is finished.
\<close>

text \<open>
  What holds from the beginning of a statement to its end: the invariant, that nothing aborts it, that
  it stays counted and that the pools stay what they are.
\<close>

definition safe :: "nat multiset \<Rightarrow> sys \<Rightarrow> sys \<Rightarrow> bool" where
  "safe others s s' \<longleftrightarrow> sys_inv others s' \<and> (txState (syTxn s') = StAborting \<longrightarrow> txState (syTxn s) = StAborting)
     \<and> mgTxnNums (syMgr s') = mgTxnNums (syMgr s) \<and> extends (syWorld s) (syWorld s')"

lemma safe_refl: "sys_inv others s \<Longrightarrow> safe others s s"
  by (simp add: safe_def)

lemma safe_trans [trans]: "safe others s t \<Longrightarrow> safe others t u \<Longrightarrow> safe others s u"
  by (auto simp: safe_def intro: extends_trans)

lemma step_safe: "step others s s' \<Longrightarrow> safe others s s'"
  by (simp add: step_def safe_def kept_def)

lemma safe_inv: "safe others s s' \<Longrightarrow> sys_inv others s'"
  by (simp add: safe_def)

lemma safe_set [simp]:
  "st \<noteq> StAborting \<Longrightarrow> sys_inv others s \<Longrightarrow> safe others s (set_state st s)"
  "safe others s (set_xa xa s') \<longleftrightarrow> safe others s s'" "safe others s (incErrors s') \<longleftrightarrow> safe others s s'"
  by (auto simp: safe_def set_state_def set_xa_def incErrors_def upd_txn_def sys_inv_def txn_refs_def txn_conns_def backend_pool_def)

lemma safe_upd:
  assumes "sys_inv others s" "\<And>t. txn_conns (f t) = txn_conns t" "\<And>t. txTwopcConnections (f t) = txTwopcConnections t"
    and "\<And>t. txBackends (f t) = txBackends t" "\<And>t. txState (f t) = txState t"
  shows "safe others s (upd_txn f s)"
  using assms sys_inv_upd [of f s others] by (simp add: safe_def upd_txn_def)

text \<open>A command of the transaction with its own request.\<close>

lemma command_log:
  assumes "is_command state" "sys_inv others s" "txReq (syTxn s) = Some req" "executeXACommand env q state s = (r, s')"
  shows "step others s s' \<and> (\<exists>xs. execs (syWorld s') = execs (syWorld s) @ xs
    \<and> phase_log (syTxn s) req state q xs (r = Inr ()))"
proof -
  let ?req = "\<lparr>rcRawQuery = q, rcMode = rcMode req, rcTxnMode = TxnNone, rcQuerys = rcQuerys req\<rparr>"
  have "xa_backends ?req = xa_backends req" by (cases "rcMode req") (simp_all add: fun_eq_iff xa_backends_def)
  moreover have "executeXA env ?req state s = (r, s')" using assms(3,4) by (simp add: executeXACommand_def)
  ultimately show ?thesis using executeXA_log [OF assms(1,2), of env ?req] by (simp add: phase_log_def)
qed

lemma phase_log_cong:
  "txBackends t' = txBackends t \<Longrightarrow> phase_log t' = phase_log t"
proof -
  assume t: "txBackends t' = txBackends t"
  then have "xa_backends req t' = xa_backends req t" for req by (cases "rcMode req") (simp_all add: xa_backends_def)
  moreover from t have "backend_pool t' = backend_pool t" by (intro ext) (simp add: backend_pool_def)
  ultimately show ?thesis by (intro ext) (simp add: phase_log_def)
qed

lemma phase_log_upd [simp]:
  "phase_log (syTxn (set_xa st s)) = phase_log (syTxn s)" "txReq (syTxn (set_xa st s)) = txReq (syTxn s)"
  by (rule phase_log_cong, simp_all add: set_xa_def upd_txn_def)

lemma phase_log_kept: "kept s s' \<Longrightarrow> phase_log (syTxn s') = phase_log (syTxn s)"
  by (rule phase_log_cong) (simp add: kept_def)

lemma set_xa_step: "sys_inv others s \<Longrightarrow> step others s (set_xa st s)"
  by (simp add: step_def)

text \<open>The command a phase sends, from its state on.\<close>

lemma phase_command:
  assumes "is_command state" "sys_inv others s" "txReq (syTxn s) = Some req"
    and "executeXACommand env q state (set_xa state s) = (r, s')"
  shows "step others s s'"
    and "\<exists>xs. execs (syWorld s') = execs (syWorld s) @ xs \<and> phase_log (syTxn s) req state q xs (r = Inr ())"
proof -
  have i: "sys_inv others (set_xa state s)" using assms(2) by simp
  from command_log [OF assms(1) i _ assms(4)] assms(3)
  have c: "step others (set_xa state s) s'" "\<exists>xs. execs (syWorld s') = execs (syWorld s) @ xs
    \<and> phase_log (syTxn s) req state q xs (r = Inr ())" by simp_all
  show "step others s s'" using step_trans [OF set_xa_step [OF assms(2)] c(1)] .
  show "\<exists>xs. execs (syWorld s') = execs (syWorld s) @ xs \<and> phase_log (syTxn s) req state q xs (r = Inr ())" using c(2) .
qed

lemma xa_phase_log:
  assumes "is_command state" "sys_inv others s" "txReq (syTxn s) = Some req" "xa_phase env state fin q s = (r, s')"
  shows "step others s s'"
    and "\<exists>xs. execs (syWorld s') = execs (syWorld s) @ xs \<and> phase_log (syTxn s) req state q xs (r = Inr ())"
proof -
  obtain r1 s1 where x: "executeXACommand env q state (set_xa state s) = (r1, s1)" by force
  note c = phase_command [OF assms(1-3) x]
  have r: "r = r1" and w: "syWorld s' = syWorld s1" and st: "step others s s1 \<Longrightarrow> step others s s'"
    using assms(4) x by (cases r1; auto simp: xa_phase_def)+
  show "step others s s'" using st c(1) .
  show "\<exists>xs. execs (syWorld s') = execs (syWorld s) @ xs \<and> phase_log (syTxn s) req state q xs (r = Inr ())"
    using c(2) unfolding r w .
qed

text \<open>
  Commit and rollback do not change the transaction's identity, and record it when they are not
  acknowledged by all.
\<close>

definition recorded :: "string \<Rightarrow> sys \<Rightarrow> bool" where
  "recorded xid s \<longleftrightarrow> map_of (xcRetrys (mgXaCheck (syMgr s))) xid \<noteq> None"

lemma Write_records:
  assumes "XaCheck_Write stamp xid state xc = (r, xc')"
  shows "map_of (xcRetrys xc') xid \<noteq> None"
proof (cases "map_of (xcRetrys xc) xid")
  case None
  with assms show ?thesis
    by (cases "xcWrite xc") (auto simp: XaCheck_Write_def addXaCommitErrLog_def flushXaCommitErrLog_def update_conv')
next
  case (Some e)
  with assms show ?thesis by (auto simp: XaCheck_Write_def addXaCommitErrLog_def)
qed

lemma WriteXaCommitErrLog_frame:
  assumes "WriteXaCommitErrLog env state s = (r, s')"
  shows "syTxn s' = syTxn s" "syWorld s' = syWorld s" "recorded (txXid (syTxn s)) s'"
    and "mgTxnNums (syMgr s') = mgTxnNums (syMgr s)"
proof -
  obtain xc where w: "XaCheck_Write (evStamp env (woTrace (syWorld s))) (txXid (syTxn s)) state (mgXaCheck (syMgr s)) = (r, xc)"
    and s': "s' = s\<lparr>syMgr := (syMgr s)\<lparr>mgXaCheck := xc\<rparr>\<rparr>"
    using assms by (auto simp: WriteXaCommitErrLog_def split: prod.splits)
  show "syTxn s' = syTxn s" "syWorld s' = syWorld s" "mgTxnNums (syMgr s') = mgTxnNums (syMgr s)" by (simp_all add: s')
  show "recorded (txXid (syTxn s)) s'" using Write_records [OF w] by (simp add: s' recorded_def)
qed

text \<open>The three ways a commit or rollback ends.\<close>

lemma xa_finish_cases:
  assumes "xa_finish env state fin q rs s = (r, s')" "executeXACommand env q state (set_xa state s) = (r1, s1)"
  obtains (all) "r1 = Inr ()" "r = Inr ()" "s' = set_xa fin s1"
  | (panic) p where "r1 = Inl (GoPanic p)" "r = r1" "s' = set_xa fin s1"
  | (some) r2 s2 where "WriteXaCommitErrLog env rs (incErrors s1) = (r2, s2)" "s' = set_xa fin s2"
      "r = Inr () \<or> (\<exists>p. r = Inl (GoPanic p))"
proof (cases r1)
  case (Inr u)
  with assms show thesis by (intro all) (simp_all add: xa_finish_def)
next
  case (Inl e)
  obtain r2 s2 where w: "WriteXaCommitErrLog env rs (incErrors s1) = (r2, s2)" by force
  define tail where "tail = (case r2 of Inl (GoPanic p) \<Rightarrow> (Inl (GoPanic p), set_xa fin s2) | _ \<Rightarrow> (Inr (), set_xa fin s2))"
  have t: "snd tail = set_xa fin s2" "fst tail = Inr () \<or> (\<exists>p. fst tail = Inl (GoPanic p))"
    by (auto simp: tail_def split: sum.splits go_err.splits)
  show thesis
  proof (cases e)
    case (GoPanic p)
    with assms Inl show thesis by (intro panic [of p]) (simp_all add: xa_finish_def)
  next
    case (GoError m)
    with assms Inl w have "(r, s') = tail" by (simp add: xa_finish_def tail_def)
    with t show thesis by (intro some [OF w]) (metis fst_conv snd_conv)+
  next
    case (SQLError m)
    with assms Inl w have "(r, s') = tail" by (simp add: xa_finish_def tail_def)
    with t show thesis by (intro some [OF w]) (metis fst_conv snd_conv)+
  qed
qed

lemma xa_finish_log:
  assumes "is_command state" "sys_inv others s" "txReq (syTxn s) = Some req" "xa_finish env state fin q rs s = (r, s')"
  shows "safe others s s'"
    and "\<exists>xs ok. execs (syWorld s') = execs (syWorld s) @ xs \<and> phase_log (syTxn s) req state q xs ok
      \<and> (r = Inr () \<longrightarrow> ok \<or> recorded (txXid (syTxn s)) s')"
    and "r = Inr () \<or> (\<exists>p. r = Inl (GoPanic p))"
proof -
  obtain r1 s1 where x: "executeXACommand env q state (set_xa state s) = (r1, s1)" by force
  note c = phase_command [OF assms(1-3) x]
  have inv: "safe others s s1" using c(1) by (rule step_safe)
  have xid: "txXid (syTxn s1) = txXid (syTxn s)" using c(1) by (simp add: step_def kept_def)
  from assms(4) x have "safe others s s' \<and> syWorld s' = syWorld s1
    \<and> (r = Inr () \<longrightarrow> r1 = Inr () \<or> recorded (txXid (syTxn s)) s') \<and> (r = Inr () \<or> (\<exists>p. r = Inl (GoPanic p)))"
  proof (cases rule: xa_finish_cases)
    case all
    with inv show ?thesis by simp
  next
    case (panic p)
    with inv show ?thesis by simp
  next
    case (some r2 s2)
    note f = WriteXaCommitErrLog_frame [OF some(1)]
    have "safe others s (incErrors s1)" using inv by simp
    with f(1,2,4) have "safe others s s2" by (simp add: safe_def sys_inv_def)
    moreover have "recorded (txXid (syTxn s)) s'"
      using f(3) xid by (simp add: some(2) recorded_def incErrors_def set_xa_def upd_txn_def)
    ultimately show ?thesis using some(2,3) f(2) by auto
  qed
  with c(2) show "safe others s s'" "\<exists>xs ok. execs (syWorld s') = execs (syWorld s) @ xs \<and> phase_log (syTxn s) req state q xs ok
      \<and> (r = Inr () \<longrightarrow> ok \<or> recorded (txXid (syTxn s)) s')" "r = Inr () \<or> (\<exists>p. r = Inl (GoPanic p))" by auto
qed

subsection \<open>The two phases\<close>

abbreviation participants :: "sys \<Rightarrow> string list" where
  "participants s \<equiv> (case txReq (syTxn s) of None \<Rightarrow> [] | Some req \<Rightarrow> xa_backends req (syTxn s))"

text \<open>All participants of \<open>s\<close> acknowledged the command in the log.\<close>

definition all_acknowledged :: "sys \<Rightarrow> string \<Rightarrow> exec_log \<Rightarrow> bool" where
  "all_acknowledged s verb xs \<longleftrightarrow>
     (\<forall>b \<in> set (participants s). acknowledged (xa_command verb (txXid (syTxn s))) (backend_pool (syTxn s) b) xs)"

definition only_commands :: "sys \<Rightarrow> string set \<Rightarrow> exec_log \<Rightarrow> bool" where
  "only_commands s verbs xs \<longleftrightarrow> (\<forall>(c, q, r) \<in> set xs. \<exists>v \<in> verbs. q = xa_command v (txXid (syTxn s)))"

text \<open>Over the connections of a pool the log sends at most \<open>n\<close> times for each participant of the pool.\<close>

definition per_participant :: "sys \<Rightarrow> nat \<Rightarrow> exec_log \<Rightarrow> bool" where
  "per_participant s n xs \<longleftrightarrow>
     (\<forall>p. sends p xs \<le> n * count_list (map (backend_pool (syTxn s)) (participants s)) p)"

lemma all_acknowledged_mono: "all_acknowledged s v xs \<Longrightarrow> set xs \<subseteq> set ys \<Longrightarrow> all_acknowledged s v ys"
  by (fastforce simp: all_acknowledged_def acknowledged_def)

lemma only_commands_append [simp]: "only_commands s V (xs @ ys) \<longleftrightarrow> only_commands s V xs \<and> only_commands s V ys"
  by (simp add: only_commands_def ball_Un)

lemma only_commands_mono: "only_commands s V xs \<Longrightarrow> V \<subseteq> W \<Longrightarrow> only_commands s W xs"
  by (fastforce simp: only_commands_def)

lemma kept_participants:
  assumes "kept s s'"
  shows "participants s' = participants s" "all_acknowledged s' = all_acknowledged s" "only_commands s' = only_commands s"
    and "per_participant s' = per_participant s"
proof -
  have "xa_backends req (syTxn s') = xa_backends req (syTxn s)" for req
    using assms by (cases "rcMode req") (simp_all add: xa_backends_def kept_def)
  then show p: "participants s' = participants s" using assms by (simp add: kept_def split: option.splits)
  show "all_acknowledged s' = all_acknowledged s"
    using assms kept_backend_pool [OF assms] p by (intro ext) (simp add: all_acknowledged_def kept_def)
  show "only_commands s' = only_commands s" using assms by (intro ext) (simp add: only_commands_def kept_def)
  show "per_participant s' = per_participant s"
    unfolding per_participant_def p kept_backend_pool [OF assms] by (intro ext) simp
qed

text \<open>What one phase logs, in these terms.\<close>

lemma phase_logD:
  assumes "phase_log (syTxn s) req state (xa_command v (txXid (syTxn s))) xs ok" "txReq (syTxn s) = Some req"
  shows "only_commands s {v} xs" "per_participant s (attempts state) xs" "ok \<Longrightarrow> all_acknowledged s v xs"
  using assms by (auto simp: phase_log_def only_commands_def all_acknowledged_def per_participant_def)

lemma xa_phase_commands:
  assumes "is_command state" "sys_inv others s" "txReq (syTxn s) = Some req"
    and "xa_phase env state fin (xa_command v (txXid (syTxn s))) s = (r, s')"
  obtains xs where "step others s s'" "execs (syWorld s') = execs (syWorld s) @ xs" "only_commands s {v} xs"
    "per_participant s (attempts state) xs" "r = Inr () \<Longrightarrow> all_acknowledged s v xs"
  using xa_phase_log [OF assms] phase_logD [OF _ assms(3)] that by blast

text \<open>
  The first phase, with what follows it: the continuation only runs when every participant has acknowledged
  the end and the preparation of its branch.
\<close>

lemma first_phase:
  assumes "sys_inv others s" "txReq (syTxn s) = Some req"
    and "sbind (xaEnd env s) (\<lambda>_ s. sbind (xaPrepare env s) (\<lambda>_. f)) = (r, s')"
  obtains xs s1 where "step others s s1" "execs (syWorld s1) = execs (syWorld s) @ xs" "only_commands s {''END'', ''PREPARE''} xs"
    "(\<exists>e. r = Inl e \<and> s' = s1) \<or> (f s1 = (r, s') \<and> all_acknowledged s ''END'' xs \<and> all_acknowledged s ''PREPARE'' xs)"
proof -
  obtain r1 s1 where e: "xaEnd env s = (r1, s1)" by force
  obtain xs where xs: "step others s s1" "execs (syWorld s1) = execs (syWorld s) @ xs" "only_commands s {''END''} xs"
    "r1 = Inr () \<Longrightarrow> all_acknowledged s ''END'' xs"
    using xa_phase_commands [OF _ assms(1,2) e [unfolded xaEnd_def]] by auto
  obtain r2 s2 where p: "xaPrepare env s1 = (r2, s2)" by force
  have k: "kept s s1" using xs(1) by (simp add: step_def)
  have "txReq (syTxn s1) = Some req" using k assms(2) by (simp add: kept_def)
  from xa_phase_commands [OF _ step_inv [OF xs(1)] this p [unfolded xaPrepare_def]]
  obtain ys where ys: "step others s1 s2" "execs (syWorld s2) = execs (syWorld s1) @ ys" "only_commands s {''PREPARE''} ys"
    "r2 = Inr () \<Longrightarrow> all_acknowledged s ''PREPARE'' ys"
    unfolding kept_participants [OF k] by auto
  have c: "only_commands s {''END'', ''PREPARE''} xs" "only_commands s {''END'', ''PREPARE''} ys"
    using xs(3) ys(3) by (auto intro: only_commands_mono)
  show thesis
  proof (cases r1)
    case (Inl er)
    with assms(3) e have "r = Inl er \<and> s' = s1" by simp
    then show thesis using xs c by (intro that [of s1 xs]) auto
  next
    case r1: (Inr u)
    have st: "step others s s2" using step_trans [OF xs(1) ys(1)] .
    show thesis
    proof (cases r2)
      case (Inl er)
      with assms(3) e p r1 have "r = Inl er \<and> s' = s2" by simp
      then show thesis using xs ys st c by (intro that [of s2 "xs @ ys"]) auto
    next
      case (Inr u')
      with assms(3) e p r1 have "f s2 = (r, s')" by simp
      moreover have "all_acknowledged s ''END'' (xs @ ys)" "all_acknowledged s ''PREPARE'' (xs @ ys)"
        using xs(4) ys(4) r1 Inr by (auto intro: all_acknowledged_mono)
      ultimately show thesis using xs ys st c by (intro that [of s2 "xs @ ys"]) auto
    qed
  qed
qed

lemma xaCommit_log:
  assumes "sys_inv others s" "txReq (syTxn s) = Some req" "xaCommit env s = (r, s')"
  obtains ys where "safe others s s'" "execs (syWorld s') = execs (syWorld s) @ ys" "only_commands s {''COMMIT''} ys"
    "per_participant s xaMaxRetryNum ys"
    "r = Inr () \<Longrightarrow> all_acknowledged s ''COMMIT'' ys \<or> recorded (txXid (syTxn s)) s'" "r = Inr () \<or> (\<exists>p. r = Inl (GoPanic p))"
proof -
  note l = xa_finish_log [OF _ assms(1,2) assms(3) [unfolded xaCommit_def], simplified]
  from l(2) obtain ys ok where ys: "execs (syWorld s') = execs (syWorld s) @ ys"
    "phase_log (syTxn s) req XaCommit (xa_command ''COMMIT'' (txXid (syTxn s))) ys ok"
    "r = Inr () \<longrightarrow> ok \<or> recorded (txXid (syTxn s)) s'" by blast
  note d = phase_logD [OF ys(2) assms(2), simplified]
  show thesis using l(1,3) ys(1,3) d by (intro that [of ys]) auto
qed

text \<open>
  A whole commit: \<open>before\<close> is the log of the first phase and \<open>after\<close> that of the second.
\<close>

lemma txn_Commit_log:
  assumes "sys_inv others s" "txReq (syTxn s) = Some req" "rcTxnMode req = TxnWrite" "txn_Commit env s = (r, s')"
  obtains before after where "safe others (set_state StCommitting s) s'" "execs (syWorld s') = execs (syWorld s) @ before @ after"
    "only_commands s {''END'', ''PREPARE''} before" "only_commands s {''COMMIT''} after"
    "per_participant s xaMaxRetryNum after"
    "after \<noteq> [] \<Longrightarrow> all_acknowledged s ''END'' before \<and> all_acknowledged s ''PREPARE'' before"
    "r = Inr () \<Longrightarrow> all_acknowledged s ''COMMIT'' after \<or> recorded (txXid (syTxn s)) s'"
    "r = Inr () \<or> (\<exists>p. r = Inl (GoPanic p)) \<or> (after = [] \<and> syMgr s' = syMgr s)"
proof -
  let ?s = "set_state StCommitting s"
  have i: "sys_inv others ?s" using assms(1) by simp
  have k: "kept s ?s" by simp
  have q: "txReq (syTxn ?s) = Some req" using k assms(2) by (simp add: kept_def)
  have b: "sbind (xaEnd env ?s) (\<lambda>_ s. sbind (xaPrepare env s) (\<lambda>_. xaCommit env)) = (r, s')"
    using assms(3,4) q by (simp add: txn_Commit_def when_write_def is_write_def)
  obtain xs s1 where f: "step others ?s s1" "execs (syWorld s1) = execs (syWorld s) @ xs"
    "only_commands s {''END'', ''PREPARE''} xs"
    "(\<exists>e. r = Inl e \<and> s' = s1) \<or> (xaCommit env s1 = (r, s') \<and> all_acknowledged s ''END'' xs \<and> all_acknowledged s ''PREPARE'' xs)"
    by (rule first_phase [OF i q b, unfolded kept_participants [OF k] set_simps])
  note s1 = step_safe [OF f(1)]
  have k1: "kept s s1" using f(1) kept_trans [OF k] by (simp add: step_def)
  from f(4) show thesis
  proof
    assume "\<exists>e. r = Inl e \<and> s' = s1"
    then show thesis using f s1 k1 by (intro that [of xs "[]"]) (auto simp: only_commands_def kept_def per_participant_def)
  next
    assume c: "xaCommit env s1 = (r, s') \<and> all_acknowledged s ''END'' xs \<and> all_acknowledged s ''PREPARE'' xs"
    have q1: "txReq (syTxn s1) = Some req" "txXid (syTxn s1) = txXid (syTxn s)" using k1 assms(2) by (simp_all add: kept_def)
    from xaCommit_log [OF step_inv [OF f(1)] q1(1) conjunct1 [OF c]] obtain ys where "safe others s1 s'"
      "execs (syWorld s') = execs (syWorld s1) @ ys" "only_commands s {''COMMIT''} ys"
      "per_participant s xaMaxRetryNum ys"
      "r = Inr () \<Longrightarrow> all_acknowledged s ''COMMIT'' ys \<or> recorded (txXid (syTxn s)) s'" "r = Inr () \<or> (\<exists>p. r = Inl (GoPanic p))"
      unfolding kept_participants [OF k1] q1(2) by auto
    then show thesis using f(2,3) c safe_trans [OF s1] by (intro that [of xs ys]) auto
  qed
qed

subsection \<open>Connections of a whole statement\<close>

text \<open>The connections of a transaction that is not in two-phase mode.\<close>

lemma added_safe:
  assumes "sys_inv others s" "p < length (woPools (syWorld s))"
    and "\<And>t c. mset (txn_conns (f c t)) = add_mset c (mset (txn_conns t))" "\<And>t c. txBackends (f c t) = txBackends t"
    and "\<And>t c. txTwopcConnections (f c t) = txTwopcConnections t" "\<And>t c. txState (f c t) = txState t"
    and "sbind (on_world (pool_Get env p) s) (\<lambda>c s. (Inr c, upd_txn (f c) s)) = (r, s')"
  shows "safe others s s'" "r = Inr c \<Longrightarrow> coPool c < length (woPools (syWorld s'))"
proof -
  obtain r1 s1 where g: "on_world (pool_Get env p) s = (r1, s1)" by force
  note g' = Get_sys_inv [OF assms(1,2) g]
  have "safe others s s' \<and> (\<forall>c. r = Inr c \<longrightarrow> coPool c < length (woPools (syWorld s')))"
  proof (cases r1)
    case (Inl e)
    with assms(7) g g'(1,3,5) show ?thesis by (auto simp: safe_def kept_def)
  next
    case (Inr c)
    have s': "s' = s\<lparr>syTxn := f c (syTxn s), syWorld := syWorld s1\<rparr>" "r = Inr c"
      using assms(7) g Inr by (simp_all add: upd_txn_def g'(2)) (metis g'(7) sys.simps sys.surjective sys.update_convs)
    have c: "coPool c = p" "owned (syWorld s1) (add_mset (coRef c) (txn_refs (syTxn s) + others))" using g'(6) Inr by blast+
    have cp: "coPool c < length (woPools (syWorld s1))" using c(1) assms(2) extends_length [OF g'(3)] by simp
    have b: "backend_pool (f c (syTxn s)) = backend_pool (syTxn s)" by (simp add: backend_pool_def fun_eq_iff assms(4))
    have "sys_inv others s'" unfolding s'(1)
      by (rule sys_inv_add [OF assms(1) _ _ c(2) g'(3) cp]) (use assms(1) in \<open>simp_all add: assms(3-5) b sys_inv_def\<close>)
    with s' cp assms(6) g'(3) show ?thesis by (simp add: safe_def)
  qed
  then show "safe others s s'" "r = Inr c \<Longrightarrow> coPool c < length (woPools (syWorld s'))" by blast+
qed

lemma normalConnection_safe:
  assumes "sys_inv others s" "normalConnection env b s = (r, s')"
  shows "safe others s s' \<and> (\<forall>c. r = Inr c \<longrightarrow> coPool c < length (woPools (syWorld s')))"
proof (cases "map_of (txBackends (syTxn s)) b")
  case None
  with assms show ?thesis by (auto simp: normalConnection_def safe_refl)
next
  case pz: (Some pz)
  show ?thesis
  proof (cases "pzNormal pz")
    case None
    with assms pz show ?thesis by (auto simp: normalConnection_def normal_Get_def safe_refl)
  next
    case (Some p)
    with assms(2) pz have "sbind (on_world (pool_Get env p) s)
      (\<lambda>c s. (Inr c, upd_txn (\<lambda>t. t\<lparr>txNormalConnections := txNormalConnections t @ [c]\<rparr>) s)) = (r, s')"
      by (simp add: normalConnection_def normal_Get_def)
    from added_safe [OF assms(1) sys_inv_pool(1) [OF assms(1) pz Some] _ _ _ _ this] show ?thesis by (simp add: txn_conns_def)
  qed
qed

lemma replicaConnection_safe:
  assumes "sys_inv others s" "replicaConnection env b s = (r, s')"
  shows "safe others s s' \<and> (\<forall>c. r = Inr c \<longrightarrow> coPool c < length (woPools (syWorld s')))"
proof (cases "\<exists>pz p. map_of (txBackends (syTxn s)) b = Some pz \<and> pzReplica pz = Some p")
  case False
  with assms have "s' = s" "\<exists>e. r = Inl e" by (auto simp: replicaConnection_def split: option.splits)
  with assms(1) show ?thesis by (auto simp: safe_refl)
next
  case True
  then obtain pz p where pz: "map_of (txBackends (syTxn s)) b = Some pz" "pzReplica pz = Some p" by blast
  from assms(2) pz have "sbind (on_world (pool_Get env p) s)
    (\<lambda>c s. (Inr c, upd_txn (\<lambda>t. t\<lparr>txReplicaConnections := txReplicaConnections t @ [c]\<rparr>) s)) = (r, s')"
    by (simp add: replicaConnection_def)
  from added_safe [OF assms(1) sys_inv_pool(2) [OF assms(1) pz] _ _ _ _ this] show ?thesis by (simp add: txn_conns_def)
qed

lemma fetchOneConnection_safe:
  assumes "sys_inv others s" "fetchOneConnection env b s = (r, s')"
  shows "safe others s s' \<and> (\<forall>c. r = Inr c \<longrightarrow> coPool c < length (woPools (syWorld s')))"
proof -
  have prim: "safe others s1 s2 \<and> (\<forall>c. r2 = Inr c \<longrightarrow> coPool c < length (woPools (syWorld s2)))"
    if "sys_inv others s1" "(if txTwopc (syTxn s) then twopcConnection env b else normalConnection env b) s1 = (r2, s2)" for s1 r2 s2
  proof (cases "txTwopc (syTxn s)")
    case True
    with that(2) have t: "twopcConnection env b s1 = (r2, s2)" by simp
    show ?thesis using step_safe [OF twopcConnection_step(1) [OF that(1) t]] twopcConnection_step(3) [OF that(1) t] by blast
  next
    case False
    with that(2) normalConnection_safe [OF that(1)] show ?thesis by simp
  qed
  show ?thesis
  proof (cases "txIsExecOnRep (syTxn s)")
    case False
    with assms prim show ?thesis by (simp add: fetchOneConnection_def)
  next
    case True
    obtain r1 s1 where x: "replicaConnection env b s = (r1, s1)" by force
    note x' = replicaConnection_safe [OF assms(1) x]
    show ?thesis
    proof (cases r1)
      case (Inl e)
      with assms(2) True x have "(if txTwopc (syTxn s) then twopcConnection env b else normalConnection env b) s1 = (r, s')"
        by (simp add: fetchOneConnection_def Let_def)
      from prim [OF _ this] x' show ?thesis using safe_trans safe_inv by blast
    next
      case (Inr c)
      with assms(2) True x x' show ?thesis by (simp add: fetchOneConnection_def Let_def)
    qed
  qed
qed

lemma shard_queries_safe:
  assumes "sys_inv others s" "coPool c < length (woPools (syWorld s))" "shard_queries env c qs (s, qr) = (r, (s', qr'))"
  shows "safe others s s'"
  using assms
proof (induction qs arbitrary: s qr)
  case Nil
  then show ?case by (simp add: safe_refl)
next
  case (Cons q qs)
  obtain r1 s1 where x: "on_world (ExecuteWithLimits env c q (txTimeout (syTxn s)) (txMaxResult (syTxn s))) s = (r1, s1)" by force
  note st = exec_step [OF Cons.prems(1,2) x]
  have "coPool c < length (woPools (syWorld s1))" using Cons.prems(2) st extends_length [of "syWorld s" "syWorld s1"] by (simp add: step_def)
  note IH = Cons.IH [OF step_inv [OF st] this]
  show ?case
  proof (cases r1)
    case (Inl e)
    with Cons.prems(3) x st show ?thesis by (auto intro: step_safe)
  next
    case (Inr q1)
    with Cons.prems(3) x IH have "safe others s1 s'" by simp
    with safe_trans [OF step_safe [OF st]] show ?thesis .
  qed
qed

lemma exec_shard_safe:
  assumes "sys_inv others s" "exec_shard env x (s, qr) = (r, (s', qr'))"
  shows "safe others s s'"
proof -
  obtain b qs where x: "x = (b, qs)" by force
  obtain r1 s1 where f: "fetchOneConnection env b s = (r1, s1)" by force
  note f' = fetchOneConnection_safe [OF assms(1) f]
  show ?thesis
  proof (cases r1)
    case (Inl e)
    with assms(2) f f' show ?thesis by (simp add: exec_shard_def x)
  next
    case (Inr c)
    with assms(2) f have "shard_queries env c qs (s1, qr) = (r, (s', qr'))" by (simp add: exec_shard_def x)
    from shard_queries_safe [OF _ _ this] f' Inr show ?thesis using safe_trans safe_inv by blast
  qed
qed

lemma run_all_safe:
  assumes "sys_inv others s" "run_all (exec_shard env) xs (s, qr) = (r, (s', qr'))"
  shows "safe others s s'"
  using assms
proof (induction xs arbitrary: s qr r)
  case Nil
  then show ?case by (simp add: safe_refl)
next
  case (Cons x xs)
  obtain r1 s1 q1 where x: "exec_shard env x (s, qr) = (r1, (s1, q1))" by (metis surj_pair)
  obtain r2 s2 q2 where y: "run_all (exec_shard env) xs (s1, q1) = (r2, (s2, q2))" by (metis surj_pair)
  note st = exec_shard_safe [OF Cons.prems(1) x]
  from Cons.prems(2) x y have e: "s' = s2" "qr' = q2" by simp_all
  show ?case using safe_trans [OF st Cons.IH [OF safe_inv [OF st] y [folded e]]] .
qed

lemma txn_execute_safe:
  assumes "sys_inv others s" "txn_execute env req s = (r, s')"
  shows "safe others s s'"
proof -
  let ?st = "if txTwopc (syTxn s) then StExecutingTwoPC else StExecutingNormal"
  have s1: "safe others s (set_state ?st s)" using assms(1) by (intro safe_set) auto
  from assms(2) obtain xs r2 qr2 where "run_all (exec_shard env) xs (set_state ?st s, empty_Result) = (r2, (s', qr2))"
    by (auto simp: txn_execute_def Let_def split: prod.splits sum.splits)
  from safe_trans [OF s1 run_all_safe [OF safe_inv [OF s1] this]] show ?thesis .
qed

text \<open>A whole request: its branches are opened before it, and the locks are only events.\<close>

lemma xaStart_safe:
  assumes "sys_inv others s" "txReq (syTxn s) = Some req" "xaStart env s = (r, s')"
  shows "safe others s s'"
proof -
  let ?s = "upd_txn (\<lambda>t. t\<lparr>txXid := new_xid env s\<rparr>) s"
  have s1: "safe others s ?s" using assms(1) by (intro safe_upd) (simp_all add: txn_conns_def)
  have x: "xa_phase env XaStart XaStartFinished (xa_command ''START'' (new_xid env s)) ?s = (r, s')"
    using assms(3) by (simp add: xaStart_def Let_def)
  have "txReq (syTxn ?s) = Some req" using assms(2) by (simp add: upd_txn_def)
  from xa_phase_log(1) [OF _ safe_inv [OF s1] this x] show ?thesis using safe_trans [OF s1] step_safe by simp
qed

lemma txn_Execute_safe:
  assumes "sys_inv others s" "txn_Execute env req s = (r, s')"
  shows "safe others s s'"
proof (cases "txTwopc (syTxn s)")
  case False
  with assms(2) txn_execute_safe [OF assms(1)] show ?thesis
    by (auto simp: txn_Execute_def Let_def split: prod.splits sum.splits)
next
  case t: True
  note assms = assms(1) t assms(2)
  let ?s = "upd_txn (\<lambda>t. t\<lparr>txReq := Some req\<rparr>) s"
  have s1: "safe others s ?s" using assms(1) by (intro safe_upd) (simp_all add: txn_conns_def)
  have q: "txReq (syTxn ?s) = Some req" by (simp add: upd_txn_def)
  have run: "safe others s1 s2" if "sys_inv others s1"
    "(case txn_execute env req s1 of (r, s1) \<Rightarrow> case r of Inl e \<Rightarrow> (Inl e, incErrors s1) | Inr qr \<Rightarrow> (Inr qr, s1)) = (r2, s2)"
    for s1 r2 s2
    using that(2) txn_execute_safe [OF that(1)] by (auto split: prod.splits sum.splits)
  have "safe others ?s s'"
  proof (cases "rcTxnMode req")
    case TxnNone
    with assms(2,3) run [OF safe_inv [OF s1]] show ?thesis by (simp add: txn_Execute_def Let_def)
  next
    case TxnRead
    have l: "safe others ?s (upd_world (logged CommitRLocked) ?s)"
      using lock_step [OF safe_inv [OF s1]] by (intro step_safe) simp
    from TxnRead assms(2,3) obtain r2 s2 where x: "(case txn_execute env req (upd_world (logged CommitRLocked) ?s) of
        (r, s1) \<Rightarrow> case r of Inl e \<Rightarrow> (Inl e, incErrors s1) | Inr qr \<Rightarrow> (Inr qr, s1)) = (r2, s2)"
      and s': "s' = upd_world (logged CommitRUnlocked) s2"
      by (auto simp: txn_Execute_def Let_def split: prod.splits)
    have m: "safe others ?s s2" using safe_trans [OF l run [OF safe_inv [OF l] x]] .
    have "safe others s2 s'" unfolding s' using lock_step [OF safe_inv [OF m]] by (intro step_safe) simp
    with safe_trans [OF m] show ?thesis .
  next
    case TxnWrite
    show ?thesis
    proof (cases "txIsMultiStmtTxn (syTxn s)")
      case True
      with TxnWrite assms(2,3) run [OF safe_inv [OF s1]] show ?thesis by (simp add: txn_Execute_def Let_def)
    next
      case False
      obtain r1 s2 where x: "xaStart env ?s = (r1, s2)" by force
      note x' = xaStart_safe [OF safe_inv [OF s1] q x]
      show ?thesis
      proof (cases r1)
        case (Inl e)
        with TxnWrite False assms(2,3) x x' show ?thesis by (simp add: txn_Execute_def Let_def)
      next
        case (Inr u)
        with TxnWrite False assms(2,3) x have "(case txn_execute env req s2 of
            (r, s1) \<Rightarrow> case r of Inl e \<Rightarrow> (Inl e, incErrors s1) | Inr qr \<Rightarrow> (Inr qr, s1)) = (r, s')"
          by (simp add: txn_Execute_def Let_def)
        from safe_trans [OF x' run [OF safe_inv [OF x'] this]] show ?thesis .
      qed
    qed
  qed
  with safe_trans [OF s1] show ?thesis .
qed

lemma txn_Commit_safe:
  assumes "sys_inv others s" "txn_Commit env s = (r, s')"
  shows "safe others (set_state StCommitting s) s'"
proof (cases "\<exists>req. txReq (syTxn s) = Some req \<and> rcTxnMode req = TxnWrite")
  case True
  then obtain req where "txReq (syTxn s) = Some req" "rcTxnMode req = TxnWrite" by blast
  from txn_Commit_log [OF assms(1) this assms(2)] show ?thesis by metis
next
  case False
  have "txReq (syTxn (set_state StCommitting s)) = txReq (syTxn s)" by (simp add: set_state_def upd_txn_def)
  with False assms(2) have "s' = set_state StCommitting s"
    by (auto simp: txn_Commit_def when_write_def is_write_def split: option.splits if_splits)
  with assms(1) show ?thesis by (simp add: safe_refl)
qed

lemma RollbackPhaseOne_safe:
  assumes "sys_inv others s" "RollbackPhaseOne env s = (r, s')"
  shows "safe others s s'"
proof -
  let ?s = "set_state StRollbacking s"
  have s1: "safe others s ?s" using assms(1) by simp
  have q: "txReq (syTxn ?s) = txReq (syTxn s)" by (simp add: set_state_def upd_txn_def)
  show ?thesis
  proof (cases "\<exists>req. txReq (syTxn s) = Some req \<and> rcTxnMode req = TxnWrite")
    case False
    with assms(2) q have "s' = ?s" by (auto simp: RollbackPhaseOne_def when_write_def is_write_def split: option.splits if_splits)
    with s1 show ?thesis by simp
  next
    case True
    then obtain req where req: "txReq (syTxn s) = Some req" "rcTxnMode req = TxnWrite" by blast
    obtain r1 s2 where e: "xaEnd env ?s = (r1, s2)" by force
    note st = xa_phase_log(1) [OF _ safe_inv [OF s1] _ e [unfolded xaEnd_def], of req, unfolded q, simplified, OF req(1)]
    have s2: "safe others s s2" using safe_trans [OF s1 step_safe [OF st]] .
    have q2: "txReq (syTxn s2) = Some req" using st q req by (simp add: step_def kept_def)
    show ?thesis
    proof (cases r1)
      case (Inl er)
      with assms(2) req e q s2 show ?thesis by (simp add: RollbackPhaseOne_def when_write_def is_write_def)
    next
      case (Inr u)
      with assms(2) req e q have "xaRollback env s2 = (r, s')" by (simp add: RollbackPhaseOne_def when_write_def is_write_def)
      from xa_finish_log(1) [OF _ safe_inv [OF s2] q2 this [unfolded xaRollback_def]] safe_trans [OF s2] show ?thesis by simp
    qed
  qed
qed

text \<open>Finishing gives all connections of the transaction back, or closes them.\<close>

lemma release_owned:
  assumes "owned w (add_mset (coRef c) held)" "coPool c < length (woPools w)"
  shows "owned (release env t c w) held \<and> extends w (release env t c w)"
  using owned_Close [OF assms(1)] Recycle_owned [OF assms] by (auto simp: release_def conn_Close_def)

lemma release_all_owned:
  assumes "owned w (image_mset coRef (mset cs) + held)" "\<forall>c \<in> set cs. coPool c < length (woPools w)"
  shows "owned (fold (release env t) cs w) held \<and> extends w (fold (release env t) cs w)"
  using assms
proof (induction cs arbitrary: w)
  case (Cons c cs)
  have r: "owned (release env t c w) (image_mset coRef (mset cs) + held) \<and> extends w (release env t c w)"
    using Cons.prems by (intro release_owned) simp_all
  with Cons.prems(2) Cons.IH [of "release env t c w"] extends_length [of w "release env t c w"]
  have "owned (fold (release env t) cs (release env t c w)) held
    \<and> extends (release env t c w) (fold (release env t) cs (release env t c w))" by simp
  with r show ?case by (auto intro: extends_trans)
qed simp

lemma Finish_owned:
  assumes "sys_inv others s" "txState (syTxn s) \<noteq> StAborting"
  shows "owned (syWorld (txn_Finish env s)) others" "extends (syWorld s) (syWorld (txn_Finish env s))"
  using assms release_all_owned [of "syWorld s" "txn_conns (syTxn s)" others env "syTxn s"]
  by (simp_all add: txn_Finish_def Let_def sys_inv_def txn_refs_def txn_conns_def upd_txn_def)

text \<open>A statement in its own transaction, up to its end.\<close>

lemma body_safe:
  assumes "sys_inv others s"
    and "(case plan of Inl e \<Rightarrow> (Inl e, s)
          | Inr req \<Rightarrow>
              (case txn_Execute env req s of
                 (Inl e, s2) \<Rightarrow> (case RollbackPhaseOne env s2 of
                                  (Inl (GoPanic p), s3) \<Rightarrow> (Inl (GoPanic p), s3)
                                | (_, s3) \<Rightarrow> (Inl e, s3))
               | (Inr qr, s2) \<Rightarrow> sbind (txn_Commit env s2) (\<lambda>_ s3. (Inr qr, s3)))) = (r, s')"
  shows "safe others s s'"
proof (cases plan)
  case (Inl e)
  with assms show ?thesis by (simp add: safe_refl)
next
  case req: (Inr req)
  obtain r1 s1 where x: "txn_Execute env req s = (r1, s1)" by force
  note x' = txn_Execute_safe [OF assms(1) x]
  show ?thesis
  proof (cases r1)
    case (Inl e)
    obtain r2 s2 where b: "RollbackPhaseOne env s1 = (r2, s2)" by force
    have "s' = s2" using assms(2) req x Inl b by (auto split: sum.splits go_err.splits)
    with safe_trans [OF x' RollbackPhaseOne_safe [OF safe_inv [OF x'] b]] show ?thesis by simp
  next
    case (Inr qr)
    obtain r2 s2 where b: "txn_Commit env s1 = (r2, s2)" by force
    have "s' = s2" using assms(2) req x Inr b by (cases r2) auto
    with safe_trans [OF x' safe_trans [OF safe_set(1) [OF _ safe_inv [OF x']] txn_Commit_safe [OF safe_inv [OF x'] b]]]
    show ?thesis by simp
  qed
qed

lemma statement_safe:
  assumes "sys_inv others (txn_Begin s)"
  obtains r s' where "ExecuteSingleStmtTxnTwoPC env plan s = (r, txn_Finish env s')" "safe others (txn_Begin s) s'"
proof -
  obtain r s' where b: "(case plan of Inl e \<Rightarrow> (Inl e, txn_Begin s)
          | Inr req \<Rightarrow>
              (case txn_Execute env req (txn_Begin s) of
                 (Inl e, s2) \<Rightarrow> (case RollbackPhaseOne env s2 of
                                  (Inl (GoPanic p), s3) \<Rightarrow> (Inl (GoPanic p), s3)
                                | (_, s3) \<Rightarrow> (Inl e, s3))
               | (Inr qr, s2) \<Rightarrow> sbind (txn_Commit env s2) (\<lambda>_ s3. (Inr qr, s3)))) = (r, s')" by (rule prod.exhaust)
  from body_safe [OF assms this] have "safe others (txn_Begin s) s'" .
  moreover have "ExecuteSingleStmtTxnTwoPC env plan s = (r, txn_Finish env s')"
    unfolding ExecuteSingleStmtTxnTwoPC_def Let_def b by simp
  ultimately show thesis using that by blast
qed

subsection \<open>Finishing and aborting\<close>

lemma created_inv:
  assumes "CreateTxn backends m = (Inr t, m')" "owned w others" "\<forall>(b, pz) \<in> set backends. Poolz_ok w pz"
  shows "sys_inv others \<lparr>syTxn = t\<lparr>txTimeout := timeout, txMaxResult := maxResult, txMaxJoinRows := maxJoin, txIsExecOnRep := rep\<rparr>,
    syMgr = m', syWorld = w\<rparr>" "txState t = StLive"
  using assms by (auto simp: CreateTxn_def NewTxn_def mgr_GetID_def sys_inv_def txn_refs_def txn_conns_def distinct_keys_def
    split: if_splits prod.splits)

lemma Kill_all_owned:
  assumes "owned w held" "\<forall>c \<in> set cs. coPool c < length (woPools w)"
  shows "owned (fold (conn_Kill env) cs w) held \<and> length (woPools (fold (conn_Kill env) cs w)) = length (woPools w)"
  using assms
proof (induction cs arbitrary: w)
  case (Cons c cs)
  from Cons.prems Kill_owned [of w held c env] extends_length Cons.IH [of "conn_Kill env c w"] show ?case by simp
qed simp

lemma owned_union: "owned w (a + held) \<Longrightarrow> owned w held"
  by (induction a) (auto dest: owned_lose)

lemma Abort_inv:
  assumes "sys_inv others s"
  shows "sys_inv others (txn_Abort env s)"
proof -
  let ?t = "syTxn s" and ?w = "fold (conn_Kill env) (txn_conns (syTxn s)) (syWorld s)"
  have o: "owned ?w (txn_refs ?t + others)" "length (woPools ?w) = length (woPools (syWorld s))"
    using Kill_all_owned [of "syWorld s" "txn_refs ?t + others" "txn_conns ?t" env] assms by (simp_all add: sys_inv_def)
  have "owned ?w (image_mset coRef (mset (txNormalConnections ?t @ txReplicaConnections ?t)) + others)"
    using owned_union [of ?w "image_mset coRef (mset (map snd (txTwopcConnections ?t)))"] o(1)
    by (simp add: txn_refs_def txn_conns_def ac_simps)
  with assms o(2) show ?thesis
    by (auto simp: txn_Abort_def Let_def upd_txn_def sys_inv_def txn_refs_def txn_conns_def Poolz_ok_def backend_pool_def distinct_keys_def)
qed

lemma execs_Finish [simp]: "execs (syWorld (txn_Finish env s)) = execs (syWorld s)"
proof -
  have "execs (fold (release env t) cs w) = execs w" for t cs w
    by (induction cs arbitrary: w) (simp_all add: release_def)
  then show ?thesis by (simp add: txn_Finish_def Let_def upd_txn_def)
qed

subsection \<open>A concrete cluster\<close>

text \<open>
  Two backends without replicas, a request that writes to both and a clock that stands still; \<open>answer\<close> is
  what a backend answers to a query.
\<close>

definition demo_poolz :: "string \<Rightarrow> nat \<Rightarrow> Poolz" where
  "demo_poolz name p =
     \<lparr>pzConf = \<lparr>bName = name, bAddress = name, bReplica = [], bUser = [], bPassword = [], bDBName = [], bCharset = [],
        bMaxConnections = 4, bRole = 0\<rparr>, pzNormal = Some p, pzReplica = None\<rparr>"

definition demo_backends :: "(string \<times> Poolz) list" where
  "demo_backends = [(''b0'', demo_poolz ''b0'' 0), (''b1'', demo_poolz ''b1'' 1)]"

definition demo_world :: world where
  "demo_world = \<lparr>woTrace = [], woPools = map (\<lambda>a. \<lparr>poAddress = a, poMaxConnections = 4, poMaxIdleTime = 20, poConnections = Some []\<rparr>) [''b0'', ''b1'']\<rparr>"

definition demo_mgr :: TxnManager where
  "demo_mgr = \<lparr>mgTxnid = 0, mgTxnNums = 0, mgXaCheck = \<lparr>xcTimes = 3, xcRetrys = [], xcFile = XaAbsent, xcWrite = None, xcTimesOut = []\<rparr>\<rparr>"

definition cluster_env :: "(nat \<Rightarrow> string \<Rightarrow> fetch) \<Rightarrow> backend_env" where
  "cluster_env answer = \<lparr>evNow = (\<lambda>_. 0), evStamp = (\<lambda>_. ''t''), evDial = (\<lambda>tr _. Some (length tr)), evPing = (\<lambda>_ _. True),
     evFetch = (\<lambda>_ c q _ _. answer (coPool c) q), evClosed = (\<lambda>_ _. False)\<rparr>"

definition demo_req :: RequestContext where
  "demo_req = \<lparr>rcRawQuery = [], rcMode = ReqNormal, rcTxnMode = TxnWrite,
     rcQuerys = [\<lparr>qtQuery = ''q0'', qtBackend = ''b0'', qtRange = []\<rparr>, \<lparr>qtQuery = ''q1'', qtBackend = ''b1'', qtRange = []\<rparr>]\<rparr>"

text \<open>The new transaction, and the same one when its statement has been executed.\<close>

definition demo_new :: sys where
  "demo_new = \<lparr>syTxn = NewTxn 1 demo_backends, syMgr = demo_mgr\<lparr>mgTxnid := 1, mgTxnNums := 1\<rparr>, syWorld = demo_world\<rparr>"

definition demo_sys :: sys where
  "demo_sys = upd_txn (\<lambda>t. t\<lparr>txTwopc := True, txXid := ''X'', txReq := Some demo_req\<rparr>) demo_new"

text \<open>All queries succeed; or the second backend fails to prepare; or it fails to commit.\<close>

definition answer_ok :: "nat \<Rightarrow> string \<Rightarrow> fetch" where
  "answer_ok p q = Fetched empty_Result"

definition answer_failing :: "string \<Rightarrow> nat \<Rightarrow> string \<Rightarrow> fetch" where
  "answer_failing verb p q =
     (if p = 1 \<and> take (length verb) (drop 3 q) = verb then FetchErr (SQLError 1399) else Fetched empty_Result)"

lemma demo_create: "CreateTxn demo_backends demo_mgr = (Inr (syTxn demo_new), syMgr demo_new)"
  by (simp add: CreateTxn_def demo_backends_def demo_new_def mgr_GetID_def mgr_Add_def demo_mgr_def)

lemma demo_owned: "owned demo_world {#}" "\<forall>(b, pz) \<in> set demo_backends. Poolz_ok demo_world pz"
  by (auto simp: owned_def demo_world_def idle_def pool_refs_def closed_refs_def Pool_ok_def less_Suc_eq
    demo_backends_def Poolz_ok_def demo_poolz_def)

lemma demo_new_inv: "sys_inv {#} demo_new" "sys_inv {#} (txn_Begin demo_new)"
  using created_inv(1) [OF demo_create demo_owned, where timeout = 0 and maxResult = 0 and maxJoin = 0 and rep = False]
  by (simp_all add: demo_new_def NewTxn_def txn_Begin_def sys_inv_upd txn_conns_def)

lemma demo_inv: "sys_inv {#} demo_sys"
  using demo_new_inv(1) by (simp add: demo_sys_def sys_inv_upd txn_conns_def)

lemma demo_write: "txReq (syTxn demo_sys) = Some demo_req" "rcTxnMode demo_req = TxnWrite"
  by (simp_all add: demo_sys_def upd_txn_def demo_req_def)

lemma demo_xid: "txXid (syTxn demo_sys) = ''X''"
  by (simp add: demo_sys_def upd_txn_def)

definition sent :: "sys \<Rightarrow> (nat \<times> string \<times> bool) list" where
  "sent s = map (\<lambda>(c, q, r). (coPool c, q, case r of Inl _ \<Rightarrow> False | Inr _ \<Rightarrow> True)) (execs (syWorld s))"

lemma demo_runs:
  "fst (txn_Commit (cluster_env answer_ok) demo_sys) = Inr ()"
  "sent (snd (txn_Commit (cluster_env answer_ok) demo_sys)) =
     concat (map (\<lambda>v. [(0, xa_command v ''X'', True), (1, xa_command v ''X'', True)]) [''END'', ''PREPARE'', ''COMMIT''])"
  "fst (txn_Commit (cluster_env (answer_failing ''COMMIT'')) demo_sys) = Inr ()"
  "sent (snd (txn_Commit (cluster_env (answer_failing ''COMMIT'')) demo_sys)) =
     concat (map (\<lambda>v. [(0, xa_command v ''X'', True), (1, xa_command v ''X'', True)]) [''END'', ''PREPARE''])
     @ (0, xa_command ''COMMIT'' ''X'', True) # replicate 10 (1, xa_command ''COMMIT'' ''X'', False)"
  "fst (txn_Commit (cluster_env (answer_failing ''PREPARE'')) demo_sys) = Inl (SQLError 1399)"
  "sent (snd (txn_Commit (cluster_env (answer_failing ''PREPARE'')) demo_sys)) =
     [(0, xa_command ''END'' ''X'', True), (1, xa_command ''END'' ''X'', True),
      (0, xa_command ''PREPARE'' ''X'', True), (1, xa_command ''PREPARE'' ''X'', False)]"
  by code_simp+

subsection \<open>The properties\<close>

text \<open>C3: A transaction sends the commit only when every participant has acknowledged the end and the
  preparation of its branch: in the log of \<open>Commit\<close>, the commands of the first phase come before those
  of the second, and a second phase exists only when all participants are prepared.
\<close>

theorem commit_needs_prepared:
  assumes "sys_inv others s" "txReq (syTxn s) = Some req" "rcTxnMode req = TxnWrite" "txn_Commit env s = (r, s')"
  shows "\<exists>before after. execs (syWorld s') = execs (syWorld s) @ before @ after
    \<and> only_commands s {''END'', ''PREPARE''} before \<and> only_commands s {''COMMIT''} after
    \<and> (after \<noteq> [] \<longrightarrow> all_acknowledged s ''END'' before \<and> all_acknowledged s ''PREPARE'' before)"
  using txn_Commit_log [OF assms] by metis

theorem commit_needs_prepared_witness:
  "let s' = snd (txn_Commit (cluster_env answer_ok) demo_sys)
   in (1, xa_command ''COMMIT'' ''X'', True) \<in> set (sent s')
     \<and> (\<exists>before after. execs (syWorld s') = execs (syWorld demo_sys) @ before @ after
       \<and> only_commands demo_sys {''END'', ''PREPARE''} before \<and> only_commands demo_sys {''COMMIT''} after
       \<and> (after \<noteq> [] \<longrightarrow> all_acknowledged demo_sys ''END'' before \<and> all_acknowledged demo_sys ''PREPARE'' before))"
  using commit_needs_prepared [OF demo_inv demo_write prod.collapse [symmetric]] by (simp add: Let_def demo_runs)

text \<open>C5: The second phase ends, for each participant on its own: whatever the backends answer, \<open>Commit\<close>
  sends \<open>XA COMMIT\<close> over the connections of a pool at most ten times for each participant whose pool it
  is, so ten times for a backend that shares its pool with no other, and never over the pool of a
  backend that does not take part.
\<close>

theorem commit_bounded:
  assumes "sys_inv others s" "txReq (syTxn s) = Some req" "rcTxnMode req = TxnWrite" "txn_Commit env s = (r, s')"
  shows "\<exists>log. execs (syWorld s') = execs (syWorld s) @ log
    \<and> (\<forall>p. length (filter (\<lambda>(c, q, r). coPool c = p \<and> q = xa_command ''COMMIT'' (txXid (syTxn s))) log)
        \<le> 10 * count_list (map (backend_pool (syTxn s)) (participants s)) p)"
proof -
  let ?commit = "xa_command ''COMMIT'' (txXid (syTxn s))"
  let ?F = "\<lambda>p xs. filter (\<lambda>(c, q, r). coPool c = p \<and> q = ?commit) xs"
  from txn_Commit_log [OF assms] obtain before after where l:
    "execs (syWorld s') = execs (syWorld s) @ before @ after" "only_commands s {''END'', ''PREPARE''} before"
    "per_participant s 10 after" by metis
  from l(2) have "\<forall>x \<in> set before. \<not> (case x of (c, q, r) \<Rightarrow> coPool c = p \<and> q = ?commit)" for p
    by (fastforce simp: only_commands_def xa_command_def)
  then have "?F p before = []" for p by (simp add: filter_empty_conv)
  moreover have "length (?F p after) \<le> sends p after" for p
    unfolding sends_def by (induction after) auto
  then have "length (?F p after) \<le> 10 * count_list (map (backend_pool (syTxn s)) (participants s)) p" for p
    using l(3) le_trans unfolding per_participant_def by blast
  ultimately show ?thesis using l(1) by (intro exI [of _ "before @ after"]) simp
qed

theorem commit_bounded_witness:
  "let s' = snd (txn_Commit (cluster_env (answer_failing ''COMMIT'')) demo_sys)
   in map (backend_pool (syTxn demo_sys)) (participants demo_sys) = [0, 1]
     \<and> length (filter (\<lambda>(p, q, ok). p = 1 \<and> q = xa_command ''COMMIT'' ''X'') (sent s')) = 10
     \<and> (\<exists>log. execs (syWorld s') = execs (syWorld demo_sys) @ log
       \<and> length (filter (\<lambda>(c, q, r). coPool c = 1 \<and> q = xa_command ''COMMIT'' ''X'') log) \<le> 10)"
proof -
  define s' where "s' = snd (txn_Commit (cluster_env (answer_failing ''COMMIT'')) demo_sys)"
  have pools: "map (backend_pool (syTxn demo_sys)) (participants demo_sys) = [0, 1]" by code_simp
  from commit_bounded [OF demo_inv demo_write prod.collapse [symmetric], unfolded demo_xid,
      of "cluster_env (answer_failing ''COMMIT'')", folded s'_def, unfolded pools]
  obtain log where log: "execs (syWorld s') = execs (syWorld demo_sys) @ log"
    "\<forall>p. length (filter (\<lambda>(c, q, r). coPool c = p \<and> q = xa_command ''COMMIT'' ''X'') log) \<le> 10 * count_list [0, 1] p"
    by blast
  have "length (filter (\<lambda>(c, q, r). coPool c = 1 \<and> q = xa_command ''COMMIT'' ''X'') log) \<le> 10"
    using spec [OF log(2), of 1] by simp
  moreover have "length (filter (\<lambda>(p, q, ok). p = 1 \<and> q = xa_command ''COMMIT'' ''X'') (sent s')) = 10"
    by (simp add: s'_def demo_runs xa_command_def)
  ultimately show ?thesis unfolding Let_def s'_def [symmetric] using pools log(1) by blast
qed

text \<open>C4: When \<open>Commit\<close> of a write succeeds, every participant has acknowledged the commit, or the transaction
  is in the list of the checker, which tries the commit again.
\<close>

theorem commit_success_settled:
  assumes "sys_inv others s" "txReq (syTxn s) = Some req" "rcTxnMode req = TxnWrite" "txn_Commit env s = (Inr (), s')"
  shows "\<exists>log. execs (syWorld s') = execs (syWorld s) @ log
    \<and> (all_acknowledged s ''COMMIT'' log \<or> recorded (txXid (syTxn s)) s')"
  using txn_Commit_log [OF assms] by (metis all_acknowledged_mono set_append Un_upper2)

theorem commit_success_settled_witness:
  "let s' = snd (txn_Commit (cluster_env (answer_failing ''COMMIT'')) demo_sys)
   in (1, xa_command ''COMMIT'' ''X'', True) \<notin> set (sent s')
     \<and> (\<exists>log. execs (syWorld s') = execs (syWorld demo_sys) @ log
       \<and> (all_acknowledged demo_sys ''COMMIT'' log \<or> recorded ''X'' s'))"
  using commit_success_settled [OF demo_inv demo_write, of "cluster_env (answer_failing ''COMMIT'')", unfolded demo_xid]
    demo_runs(3) prod.collapse [of "txn_Commit (cluster_env (answer_failing ''COMMIT'')) demo_sys"]
  by (simp add: Let_def demo_runs xa_command_def)

text \<open>C12: When the commit of a statement fails before the second phase, \<open>ExecuteSingleStmtTxnTwoPC\<close> only finishes
  the transaction: no participant gets a commit or a rollback and the checker does not get the transaction,
  although some participants may have prepared their branch and keep its locks.
\<close>

theorem failed_prepare_abandoned:
  assumes "sys_inv others s2" "txReq (syTxn s2) = Some req" "rcTxnMode req = TxnWrite"
    and "txn_Execute env req (txn_Begin s) = (Inr qr, s2)" "fst (txn_Commit env s2) = Inl e" "\<And>p. e \<noteq> GoPanic p"
  shows "\<exists>s' log. ExecuteSingleStmtTxnTwoPC env (Inr req) s = (Inl e, s') \<and> execs (syWorld s') = execs (syWorld s2) @ log
    \<and> only_commands s2 {''END'', ''PREPARE''} log \<and> mgXaCheck (syMgr s') = mgXaCheck (syMgr s2)"
proof -
  obtain s3 where c: "txn_Commit env s2 = (Inl e, s3)" using assms(5) by (metis prod.collapse)
  obtain before after where l: "execs (syWorld s3) = execs (syWorld s2) @ before @ after"
    "only_commands s2 {''END'', ''PREPARE''} before" "after = [] \<and> syMgr s3 = syMgr s2"
    by (rule txn_Commit_log [OF assms(1-3) c]) (use assms(6) in blast)
  have "ExecuteSingleStmtTxnTwoPC env (Inr req) s = (Inl e, txn_Finish env s3)"
    using assms(4) c by (simp add: ExecuteSingleStmtTxnTwoPC_def Let_def)
  moreover have "mgXaCheck (syMgr (txn_Finish env s3)) = mgXaCheck (syMgr s2)"
    using l(3) by (simp add: txn_Finish_def Let_def upd_txn_def mgr_Remove_def)
  ultimately show ?thesis using l by auto
qed

definition demo_executed :: sys where
  "demo_executed = snd (txn_Execute (cluster_env (answer_failing ''PREPARE'')) demo_req (txn_Begin demo_new))"

lemma demo_executed:
  "txReq (syTxn demo_executed) = Some demo_req"
  "fst (txn_Execute (cluster_env (answer_failing ''PREPARE'')) demo_req (txn_Begin demo_new)) = Inr empty_Result"
  "fst (txn_Commit (cluster_env (answer_failing ''PREPARE'')) demo_executed) = Inl (SQLError 1399)"
  by code_simp+

lemma demo_execute:
  "txn_Execute (cluster_env (answer_failing ''PREPARE'')) demo_req (txn_Begin demo_new) = (Inr empty_Result, demo_executed)"
  using demo_executed(2) by (simp add: demo_executed_def prod_eq_iff)

lemma demo_executed_inv: "sys_inv {#} demo_executed"
  using txn_Execute_safe [OF demo_new_inv(2) demo_execute] safe_inv by (simp add: txn_Begin_def upd_txn_def)

theorem failed_prepare_abandoned_witness:
  "let s' = snd (ExecuteSingleStmtTxnTwoPC (cluster_env (answer_failing ''PREPARE'')) (Inr demo_req) demo_new)
   in (0, xa_command ''PREPARE'' (txXid (syTxn demo_executed)), True) \<in> set (sent s')
     \<and> (\<exists>log. execs (syWorld s') = execs (syWorld demo_executed) @ log
          \<and> only_commands demo_executed {''END'', ''PREPARE''} log \<and> mgXaCheck (syMgr s') = mgXaCheck (syMgr demo_executed))"
proof -
  have "(0, xa_command ''PREPARE'' (txXid (syTxn demo_executed)), True)
    \<in> set (sent (snd (ExecuteSingleStmtTxnTwoPC (cluster_env (answer_failing ''PREPARE'')) (Inr demo_req) demo_new)))"
    by code_simp
  with failed_prepare_abandoned [OF demo_executed_inv demo_executed(1) demo_write(2) demo_execute demo_executed(3)]
  show ?thesis by (auto simp: Let_def)
qed

text \<open>C6: Whatever the plan is and whatever the backends answer, a statement in its own transaction leaves the
  connections in order: none is idle twice, or idle and held by another client; none that is idle or held by
  another client was closed; every idle connection is in the pool it came from, and no pool has more of them
  than it may.
\<close>

theorem statement_keeps_connections:
  assumes "CreateTxn backends m = (Inr t, m')" "owned w others" "\<forall>(b, pz) \<in> set backends. Poolz_ok w pz"
  shows "owned (syWorld (snd (ExecuteSingleStmtTxnTwoPC env plan
    \<lparr>syTxn = t\<lparr>txTimeout := timeout, txMaxResult := maxResult, txMaxJoinRows := maxJoin, txIsExecOnRep := rep\<rparr>,
     syMgr = m', syWorld = w\<rparr>))) others"
proof -
  let ?t = "t\<lparr>txTimeout := timeout, txMaxResult := maxResult, txMaxJoinRows := maxJoin, txIsExecOnRep := rep\<rparr>"
  let ?s = "\<lparr>syTxn = ?t, syMgr = m', syWorld = w\<rparr>"
  note c = created_inv [OF assms]
  have b: "sys_inv others (txn_Begin ?s)" using c(1) by (simp add: txn_Begin_def sys_inv_upd txn_conns_def)
  have st: "txState (syTxn (txn_Begin ?s)) \<noteq> StAborting" using c(2) by (simp add: txn_Begin_def upd_txn_def)
  obtain r s' where x: "ExecuteSingleStmtTxnTwoPC env plan ?s = (r, txn_Finish env s')" "safe others (txn_Begin ?s) s'"
    by (rule statement_safe [OF b])
  have "owned (syWorld (txn_Finish env s')) others" using x(2) st by (intro Finish_owned) (auto simp: safe_def)
  with x(1) show ?thesis by simp
qed

theorem statement_keeps_connections_witness:
  "owned (syWorld (snd (ExecuteSingleStmtTxnTwoPC (cluster_env (answer_failing ''COMMIT'')) (Inr demo_req)
    \<lparr>syTxn = (syTxn demo_new)\<lparr>txTimeout := 1, txMaxResult := 2, txMaxJoinRows := 3, txIsExecOnRep := True\<rparr>,
     syMgr = syMgr demo_new, syWorld = demo_world\<rparr>))) {#}"
  by (rule statement_keeps_connections [OF demo_create demo_owned])

text \<open>A kill that arrives before the commit is lost: \<open>Commit\<close> sets its own state over the aborted one, so that
  \<open>Finish\<close> does not see it and the transaction is taken off the manager's count a second time.
\<close>

theorem abort_before_commit_counted_twice:
  assumes "sys_inv others s" "txState (syTxn s) \<noteq> StFinshing"
  shows "mgTxnNums (syMgr (txn_Finish env (snd (txn_Commit env (txn_Abort env s))))) = mgTxnNums (syMgr s) - 2"
proof -
  obtain r s' where c: "txn_Commit env (txn_Abort env s) = (r, s')" by force
  note s' = txn_Commit_safe [OF Abort_inv [OF assms(1)] c]
  have "txState (syTxn (set_state StCommitting (txn_Abort env s))) = StCommitting" by (simp add: set_state_def upd_txn_def)
  with s' have "txState (syTxn s') \<noteq> StAborting" "mgTxnNums (syMgr s') = mgTxnNums (syMgr (txn_Abort env s))"
    by (auto simp: safe_def set_state_def upd_txn_def)
  with assms(2) c show ?thesis by (simp add: txn_Finish_def txn_Abort_def Let_def upd_txn_def mgr_Remove_def)
qed

theorem abort_before_commit_counted_twice_witness:
  "mgTxnNums (syMgr (txn_Finish (cluster_env answer_ok) (snd (txn_Commit (cluster_env answer_ok) (txn_Abort (cluster_env answer_ok) demo_sys))))) = -1"
  using abort_before_commit_counted_twice [OF demo_inv, of "cluster_env answer_ok"]
  by (simp add: demo_sys_def demo_new_def NewTxn_def upd_txn_def)

end
