(* ===== verification/Radon_Scatter.thy ===== *)
theory Radon_Scatter
  imports Radon_Commit
begin

section \<open>The scatter: the registered backends\<close>

text \<open>
  \<open>src/src/backend/scatter.go\<close> with \<open>NewPoolz\<close>, \<open>NewPool\<close> and \<open>Close\<close> of \<open>src/src/backend/pool.go\<close>: adding and
  removing backends, the file \<open>backend.json\<close>, and transactions over the backends that are registered.
\<close>

text \<open>What \<open>backend.json\<close> holds, as \<open>encoding/json\<close> reads it.\<close>

datatype backends_file = BackendsAbsent | BackendsBroken | BackendsConfig "BackendConfig list"

record Scatter =
  scMgr :: TxnManager
  scBackends :: "(string \<times> Poolz) list"
  scWorld :: world
  scFile :: backends_file
  scVersion :: int

text \<open>
  The outcomes of the system calls: what a failed write leaves behind, whether the version stamp and a read
  succeed, the time, and the order in which \<open>range\<close> visits the map of backends.
\<close>

record scatter_io =
  siWrite :: "backends_file option"
  siVersion :: bool
  siRead :: bool
  siTs :: int
  siVisit :: "BackendConfig list \<Rightarrow> BackendConfig list"

definition NewScatter :: "XaCheck \<Rightarrow> world \<Rightarrow> backends_file \<Rightarrow> Scatter" where
  "NewScatter xc w f =
     \<lparr>scMgr = \<lparr>mgTxnid = 0, mgTxnNums = 0, mgXaCheck = xc\<rparr>, scBackends = [], scWorld = w, scFile = f, scVersion = 0\<rparr>"

subsection \<open>Pools of a backend\<close>

text \<open>A channel of a negative size panics; there is no pool for an empty address.\<close>

definition NewPool :: "BackendConfig \<Rightarrow> string \<Rightarrow> world \<Rightarrow> (world, nat option) outcome" where
  "NewPool conf address w =
     (if address = [] then (Inr None, w)
      else if bMaxConnections conf < 0 then (Inl (GoPanic ''makechan: size out of range''), w)
      else (Inr (Some (length (woPools w))),
            w\<lparr>woPools := woPools w @ [\<lparr>poAddress = address, poMaxConnections = nat (bMaxConnections conf),
                                       poMaxIdleTime = 20, poConnections = Some []\<rparr>]\<rparr>))"

definition NewPoolz :: "BackendConfig \<Rightarrow> world \<Rightarrow> (world, Poolz) outcome" where
  "NewPoolz conf w =
     sbind (NewPool conf (bAddress conf) w) (\<lambda>normal w1.
     sbind (NewPool conf (bReplica conf) w1) (\<lambda>replica w2.
       (Inr \<lparr>pzConf = conf, pzNormal = normal, pzReplica = replica\<rparr>, w2)))"

definition close_opt :: "nat option \<Rightarrow> world \<Rightarrow> world" where
  "close_opt p w = (case p of None \<Rightarrow> w | Some p \<Rightarrow> pool_Close p w)"

definition Poolz_Close :: "Poolz \<Rightarrow> world \<Rightarrow> world" where
  "Poolz_Close pz w = close_opt (pzReplica pz) (close_opt (pzNormal pz) w)"

subsection \<open>Backends\<close>

definition scatter_add :: "BackendConfig \<Rightarrow> Scatter \<Rightarrow> (Scatter, unit) outcome" where
  "scatter_add conf sc =
     (if map_of (scBackends sc) (bName conf) \<noteq> None
      then (Inl (GoError (''scatter.backend['' @ bName conf @ ''].duplicate'')), sc)
      else if list_ex (\<lambda>(_, pz). bAddress (pzConf pz) = bAddress conf) (scBackends sc)
      then (Inl (GoError (''scatter.address['' @ bAddress conf @ ''].already.exists.in.backends'')), sc)
      else case NewPoolz conf (scWorld sc) of
        (Inl e, w) \<Rightarrow> (Inl e, sc\<lparr>scWorld := w\<rparr>)
      | (Inr pz, w) \<Rightarrow> (Inr (), sc\<lparr>scWorld := w, scBackends := AList.update (bName conf) pz (scBackends sc)\<rparr>))"

definition scatter_remove :: "BackendConfig \<Rightarrow> Scatter \<Rightarrow> (Scatter, unit) outcome" where
  "scatter_remove conf sc =
     (case map_of (scBackends sc) (bName conf) of
        None \<Rightarrow> (Inl (GoError (''scatter.backend['' @ bName conf @ ''].can.not.be.found'')), sc)
      | Some pz \<Rightarrow> (Inr (), sc\<lparr>scBackends := AList.delete (bName conf) (scBackends sc), scWorld := Poolz_Close pz (scWorld sc)\<rparr>))"

definition scatter_clear :: "Scatter \<Rightarrow> Scatter" where
  "scatter_clear sc = sc\<lparr>scWorld := fold (\<lambda>(_, pz). Poolz_Close pz) (scBackends sc) (scWorld sc), scBackends := []\<rparr>"

text \<open>The configurations in the order in which they are visited.\<close>

definition BackendConfigsClone :: "scatter_io \<Rightarrow> Scatter \<Rightarrow> BackendConfig list" where
  "BackendConfigsClone io sc = siVisit io (map (\<lambda>(_, pz). pzConf pz) (scBackends sc))"

text \<open>\<open>WriteConfig\<close> of the file; \<open>None\<close> is success.\<close>

definition write_backends :: "scatter_io \<Rightarrow> BackendConfig list \<Rightarrow> Scatter \<Rightarrow> (Scatter, unit) outcome" where
  "write_backends io confs sc =
     (case siWrite io of
        None \<Rightarrow> (Inr (), sc\<lparr>scFile := BackendsConfig confs\<rparr>)
      | Some left \<Rightarrow> (Inl (GoError ''write''), sc\<lparr>scFile := left\<rparr>))"

definition scatter_FlushConfig :: "scatter_io \<Rightarrow> Scatter \<Rightarrow> (Scatter, unit) outcome" where
  "scatter_FlushConfig io sc =
     (case write_backends io (BackendConfigsClone io sc) sc of
        (Inl _, sc1) \<Rightarrow> (Inl (GoPanic ''scatter.flush.config.to.file''), sc1)
      | (Inr _, sc1) \<Rightarrow>
          if siVersion io then (Inr (), sc1\<lparr>scVersion := siTs io\<rparr>)
          else (Inl (GoPanic ''scatter.flush.config.update.version''), sc1))"

definition scatter_LoadConfig :: "scatter_io \<Rightarrow> Scatter \<Rightarrow> (Scatter, unit) outcome" where
  "scatter_LoadConfig io sc =
     (let sc1 = scatter_clear sc
      in sbind (if scFile sc1 = BackendsAbsent then write_backends io [] sc1 else (Inr (), sc1)) (\<lambda>_ sc2.
           if \<not> siRead io then (Inl (GoError ''read''), sc2)
           else case scFile sc2 of
             BackendsConfig confs \<Rightarrow> sfold scatter_add confs sc2
           | _ \<Rightarrow> (Inl (GoError ''json''), sc2)))"

definition AllBackends :: "Scatter \<Rightarrow> string list" where
  "AllBackends sc = sort (map fst (scBackends sc))"

definition normal_backends :: "Scatter \<Rightarrow> string list" where
  "normal_backends sc = map fst (filter (\<lambda>(_, pz). bRole (pzConf pz) = NormalBackend) (scBackends sc))"

definition Backends :: "Scatter \<Rightarrow> string list" where
  "Backends sc = sort (normal_backends sc)"

definition CheckBackend :: "string \<Rightarrow> Scatter \<Rightarrow> bool" where
  "CheckBackend name sc \<longleftrightarrow> list_ex (\<lambda>k. k = name) (normal_backends sc)"

subsection \<open>Transactions over the scatter\<close>

definition CreateTransaction :: "Scatter \<Rightarrow> (TxnManager, Txn) outcome" where
  "CreateTransaction sc = CreateTxn (scBackends sc) (scMgr sc)"

text \<open>What a client does between \<open>CreateTransaction\<close> and the deferred \<open>Finish\<close>.\<close>

definition in_txn :: "backend_env \<Rightarrow> (sys \<Rightarrow> (sys, 'a) outcome) \<Rightarrow> Scatter \<Rightarrow> (Scatter, 'a) outcome" where
  "in_txn env f sc =
     (case CreateTransaction sc of
        (Inl e, m) \<Rightarrow> (Inl e, sc\<lparr>scMgr := m\<rparr>)
      | (Inr t, m) \<Rightarrow>
          (case f \<lparr>syTxn = t, syMgr = m, syWorld = scWorld sc\<rparr> of
             (r, s) \<Rightarrow> let s1 = txn_Finish env s in (r, sc\<lparr>scMgr := syMgr s1, scWorld := syWorld s1\<rparr>)))"

text \<open>The entry points of the proxy that run one query without a plan, and the one for a planned statement.\<close>

definition spanner_ExecuteSingle :: "backend_env \<Rightarrow> string \<Rightarrow> Scatter \<Rightarrow> (Scatter, Result) outcome" where
  "spanner_ExecuteSingle env query = in_txn env (ExecuteSingle env query)"

definition spanner_ExecuteScatter :: "backend_env \<Rightarrow> string \<Rightarrow> Scatter \<Rightarrow> (Scatter, Result) outcome" where
  "spanner_ExecuteScatter env query = in_txn env (ExecuteScatter env query)"

definition spanner_ExecuteOnThisBackend :: "backend_env \<Rightarrow> string \<Rightarrow> string \<Rightarrow> Scatter \<Rightarrow> (Scatter, Result) outcome" where
  "spanner_ExecuteOnThisBackend env back query = in_txn env (ExecuteOnThisBackend env back query)"

record limits =
  lmTimeout :: int
  lmMaxResult :: int
  lmMaxJoinRows :: int
  lmIsExecOnRep :: bool

definition set_limits :: "limits \<Rightarrow> Txn \<Rightarrow> Txn" where
  "set_limits l t = t\<lparr>txTimeout := lmTimeout l, txMaxResult := lmMaxResult l, txMaxJoinRows := lmMaxJoinRows l,
     txIsExecOnRep := lmIsExecOnRep l\<rparr>"

definition spanner_TxnTwoPC :: "backend_env \<Rightarrow> limits \<Rightarrow> RequestContext res \<Rightarrow> Scatter \<Rightarrow> (Scatter, Result) outcome" where
  "spanner_TxnTwoPC env l plan sc =
     (case CreateTransaction sc of
        (Inl e, m) \<Rightarrow> (Inl e, sc\<lparr>scMgr := m\<rparr>)
      | (Inr t, m) \<Rightarrow>
          (case ExecuteSingleStmtTxnTwoPC env plan \<lparr>syTxn = set_limits l t, syMgr = m, syWorld = scWorld sc\<rparr> of
             (r, s) \<Rightarrow> (r, sc\<lparr>scMgr := syMgr s, scWorld := syWorld s\<rparr>)))"

subsection \<open>The invariant\<close>

text \<open>The pool of an address: none for the empty one, otherwise an open pool of the store for this address.\<close>

definition pool_for :: "world \<Rightarrow> string \<Rightarrow> nat option \<Rightarrow> bool" where
  "pool_for w a p \<longleftrightarrow>
     (case p of
        None \<Rightarrow> a = []
      | Some i \<Rightarrow> a \<noteq> [] \<and> i < length (woPools w) \<and> poAddress (woPools w ! i) = a \<and> poConnections (woPools w ! i) \<noteq> None)"

definition poolz_ids :: "Poolz \<Rightarrow> nat list" where
  "poolz_ids pz = (case pzNormal pz of None \<Rightarrow> [] | Some p \<Rightarrow> [p]) @ (case pzReplica pz of None \<Rightarrow> [] | Some p \<Rightarrow> [p])"

definition conf_ok :: "BackendConfig \<Rightarrow> bool" where
  "conf_ok conf \<longleftrightarrow> (bAddress conf = [] \<and> bReplica conf = []) \<or> 0 \<le> bMaxConnections conf"

definition poolz_wf :: "world \<Rightarrow> Poolz \<Rightarrow> bool" where
  "poolz_wf w pz \<longleftrightarrow> conf_ok (pzConf pz) \<and> pool_for w (bAddress (pzConf pz)) (pzNormal pz) \<and> pool_for w (bReplica (pzConf pz)) (pzReplica pz)"

abbreviation addresses :: "(string \<times> Poolz) list \<Rightarrow> string list" where
  "addresses m \<equiv> map (\<lambda>(_, pz). bAddress (pzConf pz)) m"

abbreviation pool_ids :: "(string \<times> Poolz) list \<Rightarrow> nat list" where
  "pool_ids m \<equiv> concat (map (\<lambda>(_, pz). poolz_ids pz) m)"

definition scatter_inv :: "nat multiset \<Rightarrow> Scatter \<Rightarrow> bool" where
  "scatter_inv held sc \<longleftrightarrow>
     distinct_keys (scBackends sc) \<and> distinct (addresses (scBackends sc)) \<and> distinct (pool_ids (scBackends sc))
     \<and> (\<forall>(k, pz) \<in> set (scBackends sc). k = bName (pzConf pz) \<and> poolz_wf (scWorld sc) pz)
     \<and> owned (scWorld sc) held"

lemma pool_for_ids: "poolz_wf w pz \<Longrightarrow> p \<in> set (poolz_ids pz) \<Longrightarrow> p < length (woPools w)"
  by (auto simp: poolz_wf_def pool_for_def poolz_ids_def split: option.splits)

text \<open>A change of the world that leaves the pools of a backend open keeps them well-formed.\<close>

lemma pool_for_mono:
  assumes "pool_for w a p" "\<And>i. p = Some i \<Longrightarrow> i < length (woPools w')
    \<and> poAddress (woPools w' ! i) = poAddress (woPools w ! i) \<and> poConnections (woPools w' ! i) \<noteq> None"
  shows "pool_for w' a p"
  using assms by (auto simp: pool_for_def split: option.splits)

lemma poolz_wf_mono:
  assumes "poolz_wf w pz" "\<And>i. i \<in> set (poolz_ids pz) \<Longrightarrow> i < length (woPools w')
    \<and> poAddress (woPools w' ! i) = poAddress (woPools w ! i) \<and> poConnections (woPools w' ! i) \<noteq> None"
  shows "poolz_wf w' pz"
  using assms by (auto simp: poolz_wf_def poolz_ids_def intro: pool_for_mono)

lemma open_pool: "poolz_wf w pz \<Longrightarrow> p \<in> set (poolz_ids pz) \<Longrightarrow> poConnections (woPools w ! p) \<noteq> None"
  by (auto simp: poolz_wf_def pool_for_def poolz_ids_def split: option.splits)

text \<open>New pools.\<close>

lemma NewPool_result:
  assumes "owned w held" "NewPool conf a w = (r, w')"
  shows "owned w' held" "\<exists>ps. woPools w' = woPools w @ ps"
    and "r = Inr p \<Longrightarrow> pool_for w' a p \<and> (\<forall>i. p = Some i \<longrightarrow> i = length (woPools w))"
    and "r = Inr None \<Longrightarrow> w' = w"
    and "a = [] \<or> 0 \<le> bMaxConnections conf \<Longrightarrow> \<exists>p. r = Inr p"
proof -
  let ?new = "\<lparr>poAddress = a, poMaxConnections = nat (bMaxConnections conf), poMaxIdleTime = 20, poConnections = Some []\<rparr>"
  let ?w = "w\<lparr>woPools := woPools w @ [?new]\<rparr>"
  have "owned ?w held"
  proof (rule owned_transfer [OF assms(1)])
    show "idle ?w + held = idle w + held" by (simp add: idle_def pool_refs_def)
    show "\<forall>p < length (woPools ?w). Pool_ok p (woPools ?w ! p)"
      using assms(1) by (auto simp: owned_def nth_append less_Suc_eq Pool_ok_def)
  qed simp
  with assms show "owned w' held" by (auto simp: NewPool_def split: if_splits)
  show "\<exists>ps. woPools w' = woPools w @ ps" "a = [] \<or> 0 \<le> bMaxConnections conf \<Longrightarrow> \<exists>p. r = Inr p" "r = Inr None \<Longrightarrow> w' = w"
    using assms(2) by (auto simp: NewPool_def split: if_splits)
  show "pool_for w' a p \<and> (\<forall>i. p = Some i \<longrightarrow> i = length (woPools w))" if "r = Inr p"
    using assms(2) that by (auto simp: NewPool_def pool_for_def split: if_splits)
qed

lemma pool_for_append:
  assumes "pool_for w a p" "woPools w' = woPools w @ ps"
  shows "pool_for w' a p"
  using assms by (auto simp: pool_for_def nth_append split: option.splits)

lemma NewPoolz_result:
  assumes "owned w held" "NewPoolz conf w = (r, w')"
  shows "owned w' held" "\<exists>ps. woPools w' = woPools w @ ps"
    and "r = Inr pz \<Longrightarrow> pzConf pz = conf \<and> poolz_wf w' pz \<and> distinct (poolz_ids pz) \<and> (\<forall>i \<in> set (poolz_ids pz). length (woPools w) \<le> i)"
    and "conf_ok conf \<Longrightarrow> \<exists>pz. r = Inr pz"
proof -
  obtain r1 w1 where n: "NewPool conf (bAddress conf) w = (r1, w1)" by force
  note n' = NewPool_result [OF assms(1) n]
  obtain r2 w2 where m: "NewPool conf (bReplica conf) w1 = (r2, w2)" by force
  note m' = NewPool_result [OF n'(1) m]
  obtain ps qs where ps: "woPools w1 = woPools w @ ps" "woPools w2 = woPools w1 @ qs" using n'(2) m'(2) by blast
  have w': "w' = w1 \<or> w' = w2" using assms(2) n m by (cases r1; cases r2) (auto simp: NewPoolz_def)
  then show "owned w' held" "\<exists>ps. woPools w' = woPools w @ ps" using n'(1) m'(1) ps by auto
  show "\<exists>pz. r = Inr pz" if "conf_ok conf"
  proof -
    have "\<exists>p. r1 = Inr p" "\<exists>p. r2 = Inr p" using that by (auto simp: conf_ok_def intro!: n'(5) m'(5))
    then show ?thesis using assms(2) n m by (auto simp: NewPoolz_def)
  qed
  show "pzConf pz = conf \<and> poolz_wf w' pz \<and> distinct (poolz_ids pz) \<and> (\<forall>i \<in> set (poolz_ids pz). length (woPools w) \<le> i)"
    if r: "r = Inr pz"
  proof -
    from r assms(2) n m obtain p q where pq: "r1 = Inr p" "r2 = Inr q" "pz = \<lparr>pzConf = conf, pzNormal = p, pzReplica = q\<rparr>" "w' = w2"
      by (cases r1; cases r2) (auto simp: NewPoolz_def)
    have f: "pool_for w1 (bAddress conf) p" "\<And>i. p = Some i \<Longrightarrow> i = length (woPools w)"
      "pool_for w2 (bReplica conf) q" "\<And>i. q = Some i \<Longrightarrow> i = length (woPools w1)"
      using n'(3) [OF pq(1)] m'(3) [OF pq(2)] by blast+
    have "length (woPools w) < length (woPools w1)" if "p = Some i" for i
      using f(1,2) that by (auto simp: pool_for_def)
    moreover have "conf_ok conf" using n m pq(1,2) by (auto simp: NewPool_def conf_ok_def split: if_splits)
    ultimately show ?thesis using pq f pool_for_append [OF f(1) ps(2)] ps(1)
      by (auto simp: poolz_wf_def poolz_ids_def split: option.splits)
  qed
qed

text \<open>Closing the pools of a backend keeps those of the others.\<close>

lemma close_opt_result:
  assumes "owned w held" "\<And>i. p = Some i \<Longrightarrow> i < length (woPools w)"
  shows "owned (close_opt p w) held" "length (woPools (close_opt p w)) = length (woPools w)"
    and "p \<noteq> Some q \<Longrightarrow> woPools (close_opt p w) ! q = woPools w ! q"
proof -
  have "owned (close_opt p w) held \<and> length (woPools (close_opt p w)) = length (woPools w)
    \<and> (p \<noteq> Some q \<longrightarrow> woPools (close_opt p w) ! q = woPools w ! q)" for q
    using pool_Close_owned [OF assms(1)] assms by (cases p) (simp_all add: close_opt_def)
  then show "owned (close_opt p w) held" "length (woPools (close_opt p w)) = length (woPools w)"
    "p \<noteq> Some q \<Longrightarrow> woPools (close_opt p w) ! q = woPools w ! q" by blast+
qed

lemma Poolz_Close_result:
  assumes "owned w held" "\<And>i. i \<in> set (poolz_ids pz) \<Longrightarrow> i < length (woPools w)"
  shows "owned (Poolz_Close pz w) held" "length (woPools (Poolz_Close pz w)) = length (woPools w)"
    and "q \<notin> set (poolz_ids pz) \<Longrightarrow> woPools (Poolz_Close pz w) ! q = woPools w ! q"
proof -
  let ?w = "close_opt (pzNormal pz) w"
  have n: "\<And>i. pzNormal pz = Some i \<Longrightarrow> i < length (woPools w)" and m: "\<And>i. pzReplica pz = Some i \<Longrightarrow> i < length (woPools w)"
    using assms(2) by (auto simp: poolz_ids_def)
  note c = close_opt_result [OF assms(1) n]
  have "i < length (woPools ?w)" if "pzReplica pz = Some i" for i using m [OF that] c(2) by simp
  note d = close_opt_result [OF c(1) this]
  show "owned (Poolz_Close pz w) held" "length (woPools (Poolz_Close pz w)) = length (woPools w)"
    using c d by (simp_all add: Poolz_Close_def)
  show "woPools (Poolz_Close pz w) ! q = woPools w ! q" if "q \<notin> set (poolz_ids pz)"
    using that c(3) [where q = q] d(3) [where q = q] by (auto simp: Poolz_Close_def poolz_ids_def split: option.splits)
qed

lemma scatter_inv_pool:
  assumes "scatter_inv held sc" "(k, pz) \<in> set (scBackends sc)" "i \<in> set (poolz_ids pz)"
  shows "i < length (woPools (scWorld sc))"
  using assms pool_for_ids by (fastforce simp: scatter_inv_def)

subsection \<open>The operations keep the invariant\<close>

lemma update_new: "map_of m k = None \<Longrightarrow> AList.update k v m = m @ [(k, v)]"
  by (induction m) (auto split: if_splits)

lemma scatter_add_inv:
  assumes "scatter_inv held sc" "scatter_add conf sc = (r, sc')"
  shows "scatter_inv held sc'"
proof (cases "map_of (scBackends sc) (bName conf) = None \<and> \<not> list_ex (\<lambda>(_, pz). bAddress (pzConf pz) = bAddress conf) (scBackends sc)")
  case False
  with assms show ?thesis by (auto simp: scatter_add_def split: if_splits)
next
  case True
  obtain r1 w where n: "NewPoolz conf (scWorld sc) = (r1, w)" by force
  have o: "owned (scWorld sc) held" using assms(1) by (simp add: scatter_inv_def)
  note n' = NewPoolz_result [OF o n]
  obtain ps where ps: "woPools w = woPools (scWorld sc) @ ps" using n'(2) by blast
  have wf: "poolz_wf w pz" if "poolz_wf (scWorld sc) pz" for pz
    using that ps pool_for_append by (auto simp: poolz_wf_def)
  show ?thesis
  proof (cases r1)
    case (Inl e)
    with assms(2) True n have sc': "sc' = sc\<lparr>scWorld := w\<rparr>" by (auto simp: scatter_add_def)
    have "\<forall>(k, pz) \<in> set (scBackends sc). k = bName (pzConf pz) \<and> poolz_wf w pz"
      using assms(1) wf unfolding scatter_inv_def by blast
    with assms(1) n'(1) show ?thesis by (simp add: scatter_inv_def sc')
  next
    case (Inr pz)
    with assms(2) True n have sc': "sc' = sc\<lparr>scWorld := w, scBackends := scBackends sc @ [(bName conf, pz)]\<rparr>"
      by (auto simp: scatter_add_def update_new)
    note z = n'(3) [OF Inr]
    have "distinct_keys (scBackends sc')" "distinct (addresses (scBackends sc'))"
      using assms(1) True z by (auto simp: sc' scatter_inv_def distinct_keys_def map_of_None_keys list_ex_iff image_iff)
    moreover have "distinct (pool_ids (scBackends sc'))"
    proof -
      have "i < length (woPools (scWorld sc))" if "i \<in> set (pool_ids (scBackends sc))" for i
        using that scatter_inv_pool [OF assms(1)] by fastforce
      with z assms(1) show ?thesis by (fastforce simp: sc' scatter_inv_def)
    qed
    moreover have "\<forall>(k, pz) \<in> set (scBackends sc'). k = bName (pzConf pz) \<and> poolz_wf (scWorld sc') pz"
      using assms(1) z wf unfolding sc' scatter_inv_def by fastforce
    ultimately show ?thesis using n'(1) by (simp add: scatter_inv_def sc')
  qed
qed

lemma adds_inv:
  assumes "scatter_inv held sc" "sfold scatter_add confs sc = (r, sc')"
  shows "scatter_inv held sc'"
  using assms
proof (induction confs arbitrary: sc)
  case (Cons c confs)
  obtain r1 sc1 where a: "scatter_add c sc = (r1, sc1)" by force
  with Cons.prems Cons.IH scatter_add_inv [OF Cons.prems(1) a] show ?case by (cases r1) auto
qed simp

lemma delete_split:
  assumes "distinct_keys m" "map_of m k = Some v"
  shows "\<exists>xs ys. m = xs @ (k, v) # ys \<and> AList.delete k m = xs @ ys"
proof -
  from map_of_SomeD [OF assms(2)] obtain xs ys where m: "m = xs @ (k, v) # ys" by (auto simp: in_set_conv_decomp)
  with assms(1) have "k \<notin> keys xs" "k \<notin> keys ys" by (auto simp: distinct_keys_def)
  then have "AList.delete k xs = xs" "AList.delete k ys = ys" by (simp_all add: delete_notin_dom)
  with m show ?thesis by (auto simp: AList.delete_eq)
qed

lemma distinct_move: "distinct (as @ bs @ cs) \<Longrightarrow> distinct (bs @ as @ cs)"
  by auto

text \<open>Backends whose pools do not overlap: closing one keeps the others.\<close>

lemma close_keeps:
  assumes "distinct (poolz_ids pz @ pool_ids m)" "\<forall>(k, pz) \<in> set m. poolz_wf w pz" "poolz_wf w pz" "owned w held"
  shows "\<forall>(k, z) \<in> set m. poolz_wf (Poolz_Close pz w) z"
proof clarify
  fix k z assume z: "(k, z) \<in> set m"
  note c = Poolz_Close_result [OF assms(4) pool_for_ids [OF assms(3)]]
  have wf: "poolz_wf w z" using assms(2) z by auto
  have "i \<notin> set (poolz_ids pz)" if "i \<in> set (poolz_ids z)" for i using assms(1) z that by fastforce
  then show "poolz_wf (Poolz_Close pz w) z"
    using wf by (intro poolz_wf_mono [OF wf]) (simp add: c pool_for_ids open_pool)
qed

lemma scatter_remove_inv:
  assumes "scatter_inv held sc" "scatter_remove conf sc = (r, sc')"
  shows "scatter_inv held sc'"
proof (cases "map_of (scBackends sc) (bName conf)")
  case None
  with assms show ?thesis by (simp add: scatter_remove_def)
next
  case (Some pz)
  from assms(1) have d: "distinct_keys (scBackends sc)" by (simp add: scatter_inv_def)
  from delete_split [OF d Some] obtain xs ys where m: "scBackends sc = xs @ (bName conf, pz) # ys"
    "AList.delete (bName conf) (scBackends sc) = xs @ ys" by blast
  from assms(2) Some m(2) have sc': "sc' = sc\<lparr>scBackends := xs @ ys, scWorld := Poolz_Close pz (scWorld sc)\<rparr>"
    by (simp add: scatter_remove_def)
  have o: "owned (scWorld sc) held" and all: "\<forall>(k, z) \<in> set (scBackends sc). k = bName (pzConf z) \<and> poolz_wf (scWorld sc) z"
    using assms(1) unfolding scatter_inv_def by blast+
  have pz: "poolz_wf (scWorld sc) pz" and wf: "\<forall>(k, z) \<in> set (xs @ ys). poolz_wf (scWorld sc) z"
    using all by (auto simp: m(1))
  have "pool_ids (scBackends sc) = pool_ids xs @ poolz_ids pz @ pool_ids ys" by (simp add: m(1))
  then have "distinct (pool_ids xs @ poolz_ids pz @ pool_ids ys)" using assms(1) unfolding scatter_inv_def by metis
  from distinct_move [OF this] have ids: "distinct (poolz_ids pz @ pool_ids (xs @ ys))" by (metis concat_append map_append)
  have "\<forall>(k, z) \<in> set (xs @ ys). poolz_wf (Poolz_Close pz (scWorld sc)) z" by (rule close_keeps [OF ids wf pz o])
  moreover have "owned (Poolz_Close pz (scWorld sc)) held" using Poolz_Close_result(1) [OF o pool_for_ids [OF pz]] by blast
  moreover have "\<forall>(k, z) \<in> set (xs @ ys). k = bName (pzConf z)" using all by (auto simp: m(1))
  moreover have "distinct_keys (xs @ ys)" using d by (simp add: m(1) distinct_keys_def)
  moreover have "distinct (addresses (xs @ ys))" using assms(1) m(1) by (simp add: scatter_inv_def)
  moreover have "distinct (pool_ids (xs @ ys))" using ids by simp
  ultimately show ?thesis unfolding scatter_inv_def sc' by fastforce
qed

lemma clear_owned:
  assumes "distinct (pool_ids m)" "\<forall>(k, pz) \<in> set m. poolz_wf w pz" "owned w held"
  shows "owned (fold (\<lambda>(_, pz). Poolz_Close pz) m w) held"
  using assms
proof (induction m arbitrary: w)
  case (Cons x m)
  obtain k pz where x: "x = (k, pz)" by force
  have c: "owned (Poolz_Close pz w) held" using Poolz_Close_result(1) [OF Cons.prems(3) pool_for_ids] Cons.prems(2) x by auto
  have "\<forall>(k, z) \<in> set m. poolz_wf (Poolz_Close pz w) z"
    by (rule close_keeps [of pz]) (use Cons.prems x in auto)
  with Cons c show ?case by (auto simp: x)
qed simp

lemma scatter_clear_inv:
  assumes "scatter_inv held sc"
  shows "scatter_inv held (scatter_clear sc)"
proof -
  have "owned (fold (\<lambda>(_, pz). Poolz_Close pz) (scBackends sc) (scWorld sc)) held"
    using assms unfolding scatter_inv_def by (intro clear_owned) blast+
  then show ?thesis by (simp add: scatter_inv_def scatter_clear_def)
qed

lemma file_inv [simp]:
  "scatter_inv held (sc\<lparr>scFile := f\<rparr>) \<longleftrightarrow> scatter_inv held sc" "scatter_inv held (sc\<lparr>scVersion := v\<rparr>) \<longleftrightarrow> scatter_inv held sc"
  "scatter_inv held (sc\<lparr>scMgr := m\<rparr>) \<longleftrightarrow> scatter_inv held sc"
  by (simp_all add: scatter_inv_def)

lemma write_backends_inv:
  "scatter_inv held sc \<Longrightarrow> write_backends io confs sc = (r, sc') \<Longrightarrow> scatter_inv held sc'"
  by (auto simp: write_backends_def split: option.splits)

lemma scatter_FlushConfig_inv:
  assumes "scatter_inv held sc" "scatter_FlushConfig io sc = (r, sc')"
  shows "scatter_inv held sc'"
  using assms write_backends_inv [OF assms(1), of io "BackendConfigsClone io sc"]
  by (auto simp: scatter_FlushConfig_def split: prod.splits sum.splits if_splits)

lemma scatter_LoadConfig_inv:
  assumes "scatter_inv held sc" "scatter_LoadConfig io sc = (r, sc')"
  shows "scatter_inv held sc'"
proof -
  let ?sc = "scatter_clear sc"
  obtain r1 sc1 where w: "(if scFile ?sc = BackendsAbsent then write_backends io [] ?sc else (Inr (), ?sc)) = (r1, sc1)" by force
  have i: "scatter_inv held sc1" using w scatter_clear_inv [OF assms(1)] write_backends_inv by (auto split: if_splits)
  show ?thesis
    using assms(2) w i adds_inv [OF i]
    by (cases r1) (auto simp: scatter_LoadConfig_def Let_def split: if_splits backends_file.splits)
qed

subsection \<open>Transactions keep the invariant\<close>

lemma scatter_inv_world:
  assumes "scatter_inv held sc" "extends (scWorld sc) w" "owned w held"
  shows "scatter_inv held (sc\<lparr>scMgr := m, scWorld := w\<rparr>)"
proof -
  have "poolz_wf w pz" if pz: "poolz_wf (scWorld sc) pz" for pz
  proof (rule poolz_wf_mono [OF pz])
    fix i assume i: "i \<in> set (poolz_ids pz)"
    note l = pool_for_ids [OF pz i]
    show "i < length (woPools w) \<and> poAddress (woPools w ! i) = poAddress (woPools (scWorld sc) ! i) \<and> poConnections (woPools w ! i) \<noteq> None"
      using l extends_length [OF assms(2)] extends_shape [OF assms(2) l] open_pool [OF pz i] by (simp add: pool_shape_def)
  qed
  then have "\<forall>(k, pz) \<in> set (scBackends sc). k = bName (pzConf pz) \<and> poolz_wf w pz"
    using assms(1) unfolding scatter_inv_def by blast
  with assms(1,3) show ?thesis by (simp add: scatter_inv_def)
qed

lemma CreateTransaction_inv:
  assumes "scatter_inv held sc" "CreateTransaction sc = (Inr t, m)"
  shows "sys_inv held \<lparr>syTxn = set_limits l t, syMgr = m, syWorld = scWorld sc\<rparr>" "txState (set_limits l t) = StLive"
proof -
  have "\<forall>(b, pz) \<in> set (scBackends sc). Poolz_ok (scWorld sc) pz"
    using assms(1) unfolding scatter_inv_def poolz_wf_def Poolz_ok_def pool_for_def by (fastforce split: option.splits)
  moreover have "owned (scWorld sc) held" using assms(1) by (simp add: scatter_inv_def)
  ultimately have c: "sys_inv held \<lparr>syTxn = t\<lparr>txTimeout := x1, txMaxResult := x2, txMaxJoinRows := x3, txIsExecOnRep := x4\<rparr>,
    syMgr = m, syWorld = scWorld sc\<rparr>" "txState t = StLive" for x1 x2 x3 x4
    using created_inv [OF assms(2) [unfolded CreateTransaction_def]] by blast+
  show "sys_inv held \<lparr>syTxn = set_limits l t, syMgr = m, syWorld = scWorld sc\<rparr>" "txState (set_limits l t) = StLive"
    using c by (simp_all add: set_limits_def)
qed

lemma no_limits: "set_limits \<lparr>lmTimeout = txTimeout t, lmMaxResult = txMaxResult t, lmMaxJoinRows = txMaxJoinRows t,
    lmIsExecOnRep = txIsExecOnRep t\<rparr> t = t"
  by (simp add: set_limits_def)

lemma finished_inv:
  assumes "scatter_inv held sc" "safe held \<lparr>syTxn = t, syMgr = m, syWorld = scWorld sc\<rparr> s" "txState t \<noteq> StAborting"
  shows "scatter_inv held (sc\<lparr>scMgr := syMgr (txn_Finish env s), scWorld := syWorld (txn_Finish env s)\<rparr>)"
proof -
  have "sys_inv held s" "txState (syTxn s) \<noteq> StAborting" "extends (scWorld sc) (syWorld s)"
    using assms(2,3) by (auto simp: safe_def)
  from this(3) Finish_owned [OF this(1,2), of env] assms(1) show ?thesis by (auto intro: scatter_inv_world extends_trans)
qed

lemma in_txn_inv:
  assumes "scatter_inv held sc" "in_txn env f sc = (r, sc')" "\<And>s r s'. sys_inv held s \<Longrightarrow> f s = (r, s') \<Longrightarrow> safe held s s'"
  shows "scatter_inv held sc'"
proof -
  obtain r1 m where c: "CreateTransaction sc = (r1, m)" by force
  show ?thesis
  proof (cases r1)
    case (Inl e)
    with assms(1,2) c show ?thesis by (auto simp: in_txn_def)
  next
    case (Inr t)
    let ?s = "\<lparr>syTxn = t, syMgr = m, syWorld = scWorld sc\<rparr>"
    note i = CreateTransaction_inv [OF assms(1) c [unfolded Inr], of "\<lparr>lmTimeout = txTimeout t, lmMaxResult = txMaxResult t,
      lmMaxJoinRows = txMaxJoinRows t, lmIsExecOnRep = txIsExecOnRep t\<rparr>", unfolded no_limits]
    obtain r2 s where f: "f ?s = (r2, s)" by force
    have "sc' = sc\<lparr>scMgr := syMgr (txn_Finish env s), scWorld := syWorld (txn_Finish env s)\<rparr>"
      using assms(2) c Inr f by (simp add: in_txn_def Let_def)
    with finished_inv [OF assms(1) assms(3) [OF i(1) f]] i(2) show ?thesis by simp
  qed
qed

lemma spanner_inv:
  assumes "scatter_inv held sc"
  shows "spanner_ExecuteSingle env q sc = (r, sc') \<Longrightarrow> scatter_inv held sc'"
    and "spanner_ExecuteScatter env q sc = (r, sc') \<Longrightarrow> scatter_inv held sc'"
    and "spanner_ExecuteOnThisBackend env b q sc = (r, sc') \<Longrightarrow> scatter_inv held sc'"
  unfolding spanner_ExecuteSingle_def spanner_ExecuteScatter_def spanner_ExecuteOnThisBackend_def
    ExecuteSingle_def ExecuteScatter_def ExecuteOnThisBackend_def
  by (erule in_txn_inv [OF assms]; erule (1) txn_Execute_safe)+

lemma spanner_TxnTwoPC_inv:
  assumes "scatter_inv held sc" "spanner_TxnTwoPC env l plan sc = (r, sc')"
  shows "scatter_inv held sc'"
proof -
  obtain r1 m where c: "CreateTransaction sc = (r1, m)" by force
  show ?thesis
  proof (cases r1)
    case (Inl e)
    with assms c show ?thesis by (auto simp: spanner_TxnTwoPC_def)
  next
    case (Inr t)
    let ?t = "set_limits l t"
    let ?s = "\<lparr>syTxn = ?t, syMgr = m, syWorld = scWorld sc\<rparr>"
    note i = CreateTransaction_inv [OF assms(1) c [unfolded Inr], of l]
    have b: "sys_inv held (txn_Begin ?s)" using i(1) by (simp add: txn_Begin_def sys_inv_upd txn_conns_def)
    obtain r2 s where x: "ExecuteSingleStmtTxnTwoPC env plan ?s = (r2, txn_Finish env s)" "safe held (txn_Begin ?s) s"
      by (rule statement_safe [OF b])
    have "sc' = sc\<lparr>scMgr := syMgr (txn_Finish env s), scWorld := syWorld (txn_Finish env s)\<rparr>"
      using assms(2) c Inr x(1) by (simp add: spanner_TxnTwoPC_def)
    moreover have "safe held \<lparr>syTxn = ?t\<lparr>txTwopc := True\<rparr>, syMgr = m, syWorld = scWorld sc\<rparr> s"
      using x(2) by (simp add: txn_Begin_def upd_txn_def)
    ultimately show ?thesis using finished_inv [OF assms(1)] i(2) by simp
  qed
qed

subsection \<open>Every history\<close>

inductive scatter_step :: "backend_env \<Rightarrow> Scatter \<Rightarrow> Scatter \<Rightarrow> bool" for env where
  Add: "scatter_add conf sc = (r, sc') \<Longrightarrow> scatter_step env sc sc'"
| Remove: "scatter_remove conf sc = (r, sc') \<Longrightarrow> scatter_step env sc sc'"
| Flush: "scatter_FlushConfig io sc = (r, sc') \<Longrightarrow> scatter_step env sc sc'"
| Load: "scatter_LoadConfig io sc = (r, sc') \<Longrightarrow> scatter_step env sc sc'"
| Single: "spanner_ExecuteSingle env q sc = (r, sc') \<Longrightarrow> scatter_step env sc sc'"
| All: "spanner_ExecuteScatter env q sc = (r, sc') \<Longrightarrow> scatter_step env sc sc'"
| One: "spanner_ExecuteOnThisBackend env b q sc = (r, sc') \<Longrightarrow> scatter_step env sc sc'"
| Statement: "spanner_TxnTwoPC env l plan sc = (r, sc') \<Longrightarrow> scatter_step env sc sc'"

lemma scatter_step_inv: "scatter_step env sc sc' \<Longrightarrow> scatter_inv held sc \<Longrightarrow> scatter_inv held sc'"
  by (induction rule: scatter_step.induct)
    (blast intro: scatter_add_inv scatter_remove_inv scatter_FlushConfig_inv scatter_LoadConfig_inv spanner_inv spanner_TxnTwoPC_inv)+

lemma NewScatter_inv: "scatter_inv {#} (NewScatter xc \<lparr>woTrace = [], woPools = []\<rparr> f)"
  by (simp add: scatter_inv_def NewScatter_def owned_def idle_def closed_refs_def)

lemma scatter_history_inv:
  assumes "(scatter_step env)\<^sup>*\<^sup>* sc0 sc" "scatter_inv held sc0"
  shows "scatter_inv held sc"
  using assms by (induction rule: rtranclp_induct) (auto intro: scatter_step_inv)

text \<open>C9: After any history of adding, removing, saving and loading backends and of statements in between, whatever
  files and backends answer: no two backends have the same name or the same address, each is registered
  under the name of its configuration, its pools are open, belong to its addresses and are its own, and
  no connection is in two places.
\<close>

theorem scatter_reachable:
  assumes "(scatter_step env)\<^sup>*\<^sup>* (NewScatter xc \<lparr>woTrace = [], woPools = []\<rparr> f) sc"
  shows "scatter_inv {#} sc"
  by (rule scatter_history_inv [OF assms NewScatter_inv])

subsection \<open>The file\<close>

abbreviation configs :: "Scatter \<Rightarrow> (string \<times> BackendConfig) list" where
  "configs sc \<equiv> map (\<lambda>(k, pz). (k, pzConf pz)) (scBackends sc)"

lemma scatter_add_ok:
  assumes "scatter_inv held sc" "bName c \<notin> fst ` set (configs sc)" "bAddress c \<notin> bAddress ` snd ` set (configs sc)" "conf_ok c"
  shows "\<exists>sc'. scatter_add c sc = (Inr (), sc') \<and> configs sc' = configs sc @ [(bName c, c)]"
proof -
  obtain r w where n: "NewPoolz c (scWorld sc) = (r, w)" by force
  have o: "owned (scWorld sc) held" using assms(1) by (simp add: scatter_inv_def)
  from NewPoolz_result(4) [OF o n assms(4)] obtain pz where pz: "r = Inr pz" by blast
  with NewPoolz_result(3) [OF o n] have c: "pzConf pz = c" by blast
  have k: "map_of (scBackends sc) (bName c) = None" using assms(2) by (force simp: map_of_None_keys)
  have a: "\<not> list_ex (\<lambda>(_, pz). bAddress (pzConf pz) = bAddress c) (scBackends sc)" using assms(3) by (fastforce simp: list_ex_iff image_iff)
  from n pz c k a show ?thesis by (simp add: scatter_add_def update_new)
qed

lemma scatter_adds_ok:
  assumes "scatter_inv held sc" "\<forall>c \<in> set confs. conf_ok c" "distinct (map fst (configs sc) @ map bName confs)"
    and "distinct (map (bAddress \<circ> snd) (configs sc) @ map bAddress confs)"
  shows "\<exists>sc'. sfold scatter_add confs sc = (Inr (), sc') \<and> configs sc' = configs sc @ map (\<lambda>c. (bName c, c)) confs"
  using assms
proof (induction confs arbitrary: sc)
  case (Cons c confs)
  have "\<exists>sc'. scatter_add c sc = (Inr (), sc') \<and> configs sc' = configs sc @ [(bName c, c)]"
    by (rule scatter_add_ok [OF Cons.prems(1)]) (use Cons.prems(2-4) in \<open>auto simp: image_iff\<close>)
  then obtain sc1 where a: "scatter_add c sc = (Inr (), sc1)" "configs sc1 = configs sc @ [(bName c, c)]" by blast
  have i: "scatter_inv held sc1" by (rule scatter_add_inv [OF Cons.prems(1) a(1)])
  have "\<exists>sc'. sfold scatter_add confs sc1 = (Inr (), sc') \<and> configs sc' = configs sc1 @ map (\<lambda>c. (bName c, c)) confs"
    by (rule Cons.IH [OF i]) (use Cons.prems(2-4) in \<open>simp_all add: a(2) del: map_map\<close>)
  with a show ?case by auto
qed simp

lemma configs_names:
  assumes "scatter_inv held sc"
  shows "configs sc = map (\<lambda>c. (bName c, c)) (map snd (configs sc))" "distinct (map bName (map snd (configs sc)))"
    and "distinct (map bAddress (map snd (configs sc)))" "\<forall>c \<in> set (map snd (configs sc)). conf_ok c"
proof -
  have k: "\<forall>(k, pz) \<in> set (scBackends sc). k = bName (pzConf pz) \<and> poolz_wf (scWorld sc) pz"
    and d: "distinct (map fst (scBackends sc))" "distinct (addresses (scBackends sc))"
    using assms unfolding scatter_inv_def distinct_keys_def by blast+
  show c: "configs sc = map (\<lambda>c. (bName c, c)) (map snd (configs sc))" using k by (auto simp: comp_def)
  have "map bName (map snd (configs sc)) = map fst (configs sc)" by (subst (2) c) (simp add: comp_def)
  also have "\<dots> = map fst (scBackends sc)" by (auto simp: comp_def)
  finally have e: "map bName (map snd (configs sc)) = map fst (scBackends sc)" .
  show "distinct (map bName (map snd (configs sc)))" unfolding e by (rule d(1))
  have e: "map bAddress (map snd (configs sc)) = addresses (scBackends sc)" by (auto simp: comp_def)
  show "distinct (map bAddress (map snd (configs sc)))" unfolding e by (rule d(2))
  show "\<forall>c \<in> set (map snd (configs sc)). conf_ok c" using k by (auto simp: poolz_wf_def)
qed

lemma mset_distinct_map: "mset xs = mset ys \<Longrightarrow> distinct (map f ys) \<Longrightarrow> distinct (map f xs)"
  by (metis mset_eq_imp_distinct_iff mset_map)

lemma backends_recovered:
  assumes "scatter_inv held sc" "siWrite io = None" "siVersion io"
    and "mset (siVisit io (map snd (configs sc))) = mset (map snd (configs sc))" "scatter_inv held' fresh" "siRead io'"
  shows "\<exists>sc1 sc2. scatter_FlushConfig io sc = (Inr (), sc1) \<and> scatter_LoadConfig io' (fresh\<lparr>scFile := scFile sc1\<rparr>) = (Inr (), sc2)
    \<and> mset (configs sc2) = mset (configs sc)"
proof -
  let ?cs = "siVisit io (map snd (configs sc))"
  let ?sc1 = "sc\<lparr>scFile := BackendsConfig ?cs, scVersion := siTs io\<rparr>"
  let ?sc = "scatter_clear (fresh\<lparr>scFile := BackendsConfig ?cs\<rparr>)"
  note n = configs_names [OF assms(1)]
  have flush: "scatter_FlushConfig io sc = (Inr (), ?sc1)"
  proof -
    have "map (\<lambda>(_, pz). pzConf pz) (scBackends sc) = map snd (configs sc)" by auto
    with assms(2,3) show ?thesis by (simp only: scatter_FlushConfig_def write_backends_def BackendConfigsClone_def option.case prod.case sum.case) simp
  qed
  have i: "scatter_inv held' ?sc" by (rule scatter_clear_inv) (simp add: assms(5))
  have e: "configs ?sc = []" by (simp add: scatter_clear_def)
  have "\<exists>sc'. sfold scatter_add ?cs ?sc = (Inr (), sc') \<and> configs sc' = configs ?sc @ map (\<lambda>c. (bName c, c)) ?cs"
  proof (rule scatter_adds_ok [OF i])
    show "\<forall>c \<in> set ?cs. conf_ok c" using n(4) mset_eq_setD [OF assms(4)] by blast
    show "distinct (map fst (configs ?sc) @ map bName ?cs)" unfolding e using mset_distinct_map [OF assms(4) n(2)] by simp
    show "distinct (map (bAddress \<circ> snd) (configs ?sc) @ map bAddress ?cs)" unfolding e using mset_distinct_map [OF assms(4) n(3)] by simp
  qed
  then obtain sc2 where l: "sfold scatter_add ?cs ?sc = (Inr (), sc2)" "configs sc2 = map (\<lambda>c. (bName c, c)) ?cs" unfolding e by auto
  have "scatter_LoadConfig io' (fresh\<lparr>scFile := scFile ?sc1\<rparr>) = (Inr (), sc2)"
    using l(1) assms(6) by (simp add: scatter_LoadConfig_def Let_def scatter_clear_def)
  moreover have "mset (configs sc2) = mset (configs sc)"
    unfolding l(2) by (subst n(1)) (simp only: mset_map assms(4))
  ultimately show ?thesis using flush by blast
qed

text \<open>C10: The file of the backends is a faithful copy: \<open>LoadConfig\<close> of the file that \<open>FlushConfig\<close> wrote, by this or by
  any other process, succeeds and registers the same backends with the same configurations, in whatever order
  the map was written.
\<close>

theorem backends_file_roundtrip:
  assumes "scatter_inv held sc" "siWrite io = None" "siVersion io"
    and "mset (siVisit io (map snd (configs sc))) = mset (map snd (configs sc))" "scatter_inv held' fresh" "siRead io'"
  shows "\<exists>sc1 sc2. scatter_FlushConfig io sc = (Inr (), sc1) \<and> scatter_LoadConfig io' (fresh\<lparr>scFile := scFile sc1\<rparr>) = (Inr (), sc2)
    \<and> map_of (configs sc2) = map_of (configs sc) \<and> AllBackends sc2 = AllBackends sc"
proof -
  from backends_recovered [OF assms] obtain sc1 sc2 where l: "scatter_FlushConfig io sc = (Inr (), sc1)"
    "scatter_LoadConfig io' (fresh\<lparr>scFile := scFile sc1\<rparr>) = (Inr (), sc2)" "mset (configs sc2) = mset (configs sc)" by blast
  have f: "map fst (configs s) = map fst (scBackends s)" for s by (auto simp: comp_def)
  have d: "distinct (map fst (configs sc))" using assms(1) unfolding f scatter_inv_def distinct_keys_def by blast
  have "map_of (configs sc2) = map_of (configs sc)"
    by (rule map_of_inject_set [THEN iffD2, OF mset_distinct_map [OF l(3) d] d mset_eq_setD [OF l(3)]])
  moreover have "mset (map fst (configs sc2)) = mset (map fst (configs sc))" unfolding mset_map [of fst] l(3) ..
  then have "mset (map fst (scBackends sc2)) = mset (map fst (scBackends sc))" unfolding f .
  then have "AllBackends sc2 = AllBackends sc"
    unfolding AllBackends_def sorted_list_of_multiset_mset [symmetric] by (rule arg_cong)
  ultimately show ?thesis using l(1,2) by blast
qed

subsection \<open>A concrete scatter\<close>

definition demo_conf :: "string \<Rightarrow> BackendConfig" where
  "demo_conf name = pzConf (demo_poolz name 0)"

definition demo_io :: scatter_io where
  "demo_io = \<lparr>siWrite = None, siVersion = True, siRead = True, siTs = 7, siVisit = rev\<rparr>"

definition demo_empty :: Scatter where
  "demo_empty = NewScatter (mgXaCheck demo_mgr) \<lparr>woTrace = [], woPools = []\<rparr> BackendsAbsent"

definition demo_scatter :: Scatter where
  "demo_scatter = snd (scatter_add (demo_conf ''b1'') (snd (scatter_add (demo_conf ''b0'') demo_empty)))"

lemma demo_scatter_step: "(scatter_step env)\<^sup>*\<^sup>* demo_empty demo_scatter"
proof -
  have "scatter_step env sc (snd (scatter_add c sc))" for c sc by (rule scatter_step.Add) (rule surjective_pairing)
  then show ?thesis unfolding demo_scatter_def by (blast intro: rtranclp.rtrancl_refl rtranclp.rtrancl_into_rtrancl)
qed

lemma demo_scatter_backends: "AllBackends demo_scatter = [''b0'', ''b1'']" "map fst (configs demo_scatter) = [''b0'', ''b1'']"
  by code_simp+

theorem scatter_reachable_witness: "scatter_inv {#} demo_scatter \<and> AllBackends demo_scatter = [''b0'', ''b1'']"
  using scatter_reachable [OF demo_scatter_step [unfolded demo_empty_def]] demo_scatter_backends by simp

lemma demo_scatter_inv: "scatter_inv {#} demo_scatter" "scatter_inv {#} demo_empty"
  using scatter_history_inv [OF demo_scatter_step] NewScatter_inv by (simp_all add: demo_empty_def)

theorem backends_file_roundtrip_witness:
  "\<exists>sc1 sc2. scatter_FlushConfig demo_io demo_scatter = (Inr (), sc1)
    \<and> scatter_LoadConfig demo_io (demo_empty\<lparr>scFile := scFile sc1\<rparr>) = (Inr (), sc2)
    \<and> map_of (configs sc2) = map_of (configs demo_scatter) \<and> AllBackends sc2 = [''b0'', ''b1'']"
  using backends_file_roundtrip [OF demo_scatter_inv(1) _ _ _ demo_scatter_inv(2), of demo_io demo_io] demo_scatter_backends
  by (simp add: demo_io_def)

end
