(* ===== verification/Radon_XaCheck.thy ===== *)
theory Radon_XaCheck
  imports Radon_Scatter
begin

section \<open>The checker of unfinished commits\<close>

text \<open>
  \<open>src/src/backend/xacheck.go\<close>: the list of transactions whose commit or rollback was not acknowledged by all
  participants, the file it is kept in, and the rounds that try them again. The ticker that starts a round and
  the lock around it are left out. Transaction names are ASCII, so that \<open>strings.EqualFold\<close> folds letters only.
\<close>

abbreviation retrys :: "Scatter \<Rightarrow> (string \<times> XaCommitErr) list" where
  "retrys sc \<equiv> xcRetrys (mgXaCheck (scMgr sc))"

definition upd_xacheck :: "(XaCheck \<Rightarrow> XaCheck) \<Rightarrow> Scatter \<Rightarrow> Scatter" where
  "upd_xacheck f sc = sc\<lparr>scMgr := (scMgr sc)\<lparr>mgXaCheck := f (mgXaCheck (scMgr sc))\<rparr>\<rparr>"

subsection \<open>One transaction\<close>

text \<open>The backend is needed once for every row of \<open>xa recover\<close> that names the transaction.\<close>

definition needs_commit :: "string \<Rightarrow> string \<Rightarrow> Result \<Rightarrow> string list res" where
  "needs_commit xaid backend result =
     (if 0 < rsRowsAffected result \<and> length (rsFields result) = 4
      then fold_res (\<lambda>row need. rbind (slice_get row 3) (\<lambda>v.
             Inr (if equal_fold (raw v) xaid then need @ [backend] else need))) (rsRows result) []
      else Inr [])"

fun xa_recover :: "backend_env \<Rightarrow> string \<Rightarrow> string list \<Rightarrow> sys \<Rightarrow> (sys, string list) outcome" where
  "xa_recover env xaid [] s = (Inr [], s)"
| "xa_recover env xaid (backend # backends) s =
     sbind (ExecuteOnThisBackend env backend ''xa recover'' s) (\<lambda>result s1.
       case needs_commit xaid backend result of
         Inl e \<Rightarrow> (Inl e, s1)
       | Inr need \<Rightarrow> sbind (xa_recover env xaid backends s1) (\<lambda>needs s2. (Inr (need @ needs), s2)))"

text \<open>The number of backends that acknowledge the command; errors are only logged.\<close>

fun xa_commit_count :: "backend_env \<Rightarrow> string \<Rightarrow> string list \<Rightarrow> sys \<Rightarrow> (sys, nat) outcome" where
  "xa_commit_count env query [] s = (Inr 0, s)"
| "xa_commit_count env query (backend # backends) s =
     (case ExecuteOnThisBackend env backend query s of
        (Inl (GoPanic p), s1) \<Rightarrow> (Inl (GoPanic p), s1)
      | (Inl _, s1) \<Rightarrow> xa_commit_count env query backends s1
      | (Inr _, s1) \<Rightarrow> sbind (xa_commit_count env query backends s1) (\<lambda>n s2. (Inr (Suc n), s2)))"

definition retry_query :: "XaCommitErr \<Rightarrow> string" where
  "retry_query retry = ''xa '' @ xeState retry @ '' '' @ [CHR 0x27] @ xeXaid retry @ [CHR 0x27] @ '' ''"

text \<open>
  Whether the transaction is done or out of time, with its entry afterwards; \<open>appendOk\<close> is whether the file of
  the transactions out of time can be written, which panics otherwise.
\<close>

definition retry_result :: "bool \<Rightarrow> XaCommitErr \<Rightarrow> nat \<Rightarrow> nat \<Rightarrow> sys \<Rightarrow> (sys, bool \<times> XaCommitErr) outcome" where
  "retry_result appendOk retry needed committed s =
     (if 0 < committed \<and> committed = needed then (Inr (True, retry), s)
      else if xeTimes retry \<le> 0
      then if appendOk
           then (Inr (True, retry), s\<lparr>syMgr := (syMgr s)\<lparr>mgXaCheck :=
                   (mgXaCheck (syMgr s))\<lparr>xcTimesOut := xcTimesOut (mgXaCheck (syMgr s)) @ [retry]\<rparr>\<rparr>\<rparr>)
           else (Inl (GoPanic ''xacheck.flush.config.to.file''), s)
      else (Inr (False, retry\<lparr>xeTimes := xeTimes retry - 1\<rparr>), s))"

definition commitRetryBackends :: "backend_env \<Rightarrow> bool \<Rightarrow> XaCommitErr \<Rightarrow> Scatter \<Rightarrow> (Scatter, bool \<times> XaCommitErr) outcome" where
  "commitRetryBackends env appendOk retry sc =
     (let backends = AllBackends sc
      in if backends = [] then (Inl (GoError ''xacheck.backend.empty''), sc)
         else in_txn env (\<lambda>s.
           sbind (xa_recover env (xeXaid retry) backends s) (\<lambda>needCommitBackends s1.
           sbind (xa_commit_count env (retry_query retry) needCommitBackends s1) (\<lambda>committed s2.
             retry_result appendOk retry (length needCommitBackends) committed s2))) sc)"

subsection \<open>A round\<close>

text \<open>The entries are objects of the map: the count of an entry that stays is changed in place.\<close>

fun retry_loop :: "backend_env \<Rightarrow> bool \<Rightarrow> string list \<Rightarrow> Scatter \<Rightarrow> (Scatter, unit) outcome" where
  "retry_loop env appendOk [] sc = (Inr (), sc)"
| "retry_loop env appendOk (xaid # xaids) sc =
     (case map_of (retrys sc) xaid of
        None \<Rightarrow> retry_loop env appendOk xaids sc
      | Some retry \<Rightarrow>
          sbind (commitRetryBackends env appendOk retry sc) (\<lambda>(committedOrTimesout, retry') sc1.
            if committedOrTimesout
            then let sc2 = upd_xacheck (\<lambda>xc. xc\<lparr>xcRetrys := AList.delete (xeXaid retry) (xcRetrys xc)\<rparr>) sc1
                 in case flushXaCommitErrLog (mgXaCheck (scMgr sc2)) of
                      (Inl e, xc) \<Rightarrow> (Inl e, upd_xacheck (\<lambda>_. xc) sc2)
                    | (Inr _, xc) \<Rightarrow> retry_loop env appendOk xaids (upd_xacheck (\<lambda>_. xc) sc2)
            else retry_loop env appendOk xaids (upd_xacheck (\<lambda>xc. xc\<lparr>xcRetrys := AList.update xaid retry' (xcRetrys xc)\<rparr>) sc1)))"

text \<open>\<open>visit\<close> is the order in which \<open>range\<close> visits the map.\<close>

definition xaCommitsRetryMain :: "backend_env \<Rightarrow> bool \<times> (string list \<Rightarrow> string list) \<Rightarrow> Scatter \<Rightarrow> (Scatter, unit) outcome" where
  "xaCommitsRetryMain env = (\<lambda>(appendOk, visit) sc. retry_loop env appendOk (visit (map fst (retrys sc))) sc)"

subsection \<open>Requests keep the list\<close>

lemma on_world_mgr: "on_world f s = (r, s') \<Longrightarrow> syMgr s' = syMgr s"
  by (auto simp: on_world_def split: prod.splits)

lemma upd_mgr [simp]: "syMgr (upd_txn f s) = syMgr s" "syMgr (upd_world g s) = syMgr s" "syMgr (set_state st s) = syMgr s"
  "syMgr (incErrors s) = syMgr s"
  by (simp_all add: upd_txn_def upd_world_def set_state_def incErrors_def)

lemma connection_mgr:
  "twopcConnection env b s = (r, s') \<Longrightarrow> syMgr s' = syMgr s"
  "normalConnection env b s = (r, s') \<Longrightarrow> syMgr s' = syMgr s"
  "replicaConnection env b s = (r, s') \<Longrightarrow> syMgr s' = syMgr s"
  by (auto simp: twopcConnection_def normalConnection_def replicaConnection_def normal_Get_def sbind_def
    split: option.splits prod.splits sum.splits dest!: on_world_mgr)

lemma fetch_mgr: "fetchOneConnection env b s = (r, s') \<Longrightarrow> syMgr s' = syMgr s"
  by (auto simp: fetchOneConnection_def Let_def split: if_splits prod.splits sum.splits dest!: connection_mgr)

lemma shard_queries_mgr: "shard_queries env c qs (s, qr) = (r, (s', qr')) \<Longrightarrow> syMgr s' = syMgr s"
  by (induction qs arbitrary: s qr) (auto split: prod.splits sum.splits dest!: on_world_mgr)

lemma exec_shard_mgr: "exec_shard env x (s, qr) = (r, (s', qr')) \<Longrightarrow> syMgr s' = syMgr s"
  by (cases x) (auto simp: exec_shard_def split: prod.splits sum.splits dest!: fetch_mgr dest: shard_queries_mgr)

lemma run_all_mgr: "run_all (exec_shard env) xs (s, qr) = (r, (s', qr')) \<Longrightarrow> syMgr s' = syMgr s"
proof (induction xs arbitrary: s qr r)
  case (Cons x xs)
  obtain r1 s1 q1 where x: "exec_shard env x (s, qr) = (r1, (s1, q1))" by (metis surj_pair)
  obtain r2 s2 q2 where y: "run_all (exec_shard env) xs (s1, q1) = (r2, (s2, q2))" by (metis surj_pair)
  from Cons.prems x y have e: "s' = s2" "qr' = q2" by simp_all
  from Cons.IH [OF y [folded e]] exec_shard_mgr [OF x] show ?case by simp
qed simp

lemma txn_execute_mgr: "txn_execute env req s = (r, s') \<Longrightarrow> syMgr s' = syMgr s"
  by (auto simp: txn_execute_def Let_def split: prod.splits sum.splits dest!: run_all_mgr)

lemma ExecuteOnThisBackend_mgr:
  assumes "ExecuteOnThisBackend env b q s = (r, s')"
  shows "syMgr s' = syMgr s"
proof -
  let ?req = "NewRequestContext\<lparr>rcQuerys := [\<lparr>qtQuery = q, qtBackend = b, qtRange = []\<rparr>]\<rparr>"
  have m: "rcTxnMode ?req = TxnNone" by (simp add: NewRequestContext_def)
  define s0 where "s0 = (if txTwopc (syTxn s) then upd_txn (\<lambda>t. t\<lparr>txReq := Some ?req\<rparr>) s else s)"
  obtain r1 s1 where x: "txn_execute env ?req s0 = (r1, s1)" by force
  have "syMgr s0 = syMgr s" by (simp add: s0_def)
  moreover have "s' = s1 \<or> s' = incErrors s1"
    using assms m x by (cases r1) (auto simp: ExecuteOnThisBackend_def txn_Execute_def Let_def s0_def split: if_splits)
  ultimately show ?thesis using txn_execute_mgr [OF x] by auto
qed

lemma xa_recover_mgr: "xa_recover env xaid bs s = (r, s') \<Longrightarrow> syMgr s' = syMgr s"
proof (induction bs arbitrary: s r s')
  case (Cons b bs)
  obtain r1 s1 where x: "ExecuteOnThisBackend env b ''xa recover'' s = (r1, s1)" by force
  obtain r2 s2 where y: "xa_recover env xaid bs s1 = (r2, s2)" by force
  from Cons.prems x y have "s' = s1 \<or> s' = s2" by (cases r1; cases r2) (auto split: sum.splits)
  with Cons.IH [OF y] ExecuteOnThisBackend_mgr [OF x] show ?case by auto
qed simp

lemma xa_commit_count_mgr: "xa_commit_count env q bs s = (r, s') \<Longrightarrow> syMgr s' = syMgr s"
proof (induction bs arbitrary: s r s')
  case (Cons b bs)
  obtain r1 s1 where x: "ExecuteOnThisBackend env b q s = (r1, s1)" by force
  obtain r2 s2 where y: "xa_commit_count env q bs s1 = (r2, s2)" by force
  from Cons.prems x y have "s' = s1 \<or> s' = s2" by (cases r1; cases r2) (auto split: go_err.splits)
  with Cons.IH [OF y] ExecuteOnThisBackend_mgr [OF x] show ?case by auto
qed simp

abbreviation retrys_of :: "TxnManager \<Rightarrow> (string \<times> XaCommitErr) list" where
  "retrys_of m \<equiv> xcRetrys (mgXaCheck m)"

lemma in_txn_retrys:
  assumes "in_txn env f sc = (r, sc')" "\<And>s r s'. f s = (r, s') \<Longrightarrow> retrys_of (syMgr s') = retrys_of (syMgr s)"
  shows "retrys sc' = retrys sc" "r = Inr x \<Longrightarrow> \<exists>s s'. f s = (Inr x, s')"
proof -
  obtain r1 m where c: "CreateTransaction sc = (r1, m)" by force
  have m: "mgXaCheck m = mgXaCheck (scMgr sc)"
    using c by (auto simp: CreateTransaction_def CreateTxn_def mgr_GetID_def mgr_Add_def split: if_splits)
  have fin: "mgXaCheck (syMgr (txn_Finish env s)) = mgXaCheck (syMgr s)" for s
    by (simp add: txn_Finish_def Let_def mgr_Remove_def)
  have "retrys sc' = retrys sc \<and> (r = Inr x \<longrightarrow> (\<exists>s s'. f s = (Inr x, s')))"
  proof (cases r1)
    case (Inl e)
    with assms(1) c m show ?thesis by (auto simp: in_txn_def)
  next
    case (Inr t)
    obtain r2 s where x: "f \<lparr>syTxn = t, syMgr = m, syWorld = scWorld sc\<rparr> = (r2, s)" by force
    from assms(1) c Inr x have "r = r2" "sc' = sc\<lparr>scMgr := syMgr (txn_Finish env s), scWorld := syWorld (txn_Finish env s)\<rparr>"
      by (simp_all add: in_txn_def Let_def)
    with assms(2) [OF x] m fin x show ?thesis by auto
  qed
  then show "retrys sc' = retrys sc" "r = Inr x \<Longrightarrow> \<exists>s s'. f s = (Inr x, s')" by blast+
qed

lemma retry_result_retrys:
  assumes "retry_result ok retry n k s = (r, s')"
  shows "retrys_of (syMgr s') = retrys_of (syMgr s)"
    and "r = Inr (False, retry') \<Longrightarrow> 0 < xeTimes retry \<and> retry' = retry\<lparr>xeTimes := xeTimes retry - 1\<rparr>"
  using assms by (auto simp: retry_result_def split: if_splits)

lemma commitRetry_retrys:
  assumes "commitRetryBackends env ok retry sc = (r, sc')"
  shows "retrys sc' = retrys sc"
    and "r = Inr (False, retry') \<Longrightarrow> 0 < xeTimes retry \<and> retry' = retry\<lparr>xeTimes := xeTimes retry - 1\<rparr>"
proof -
  let ?f = "\<lambda>s. sbind (xa_recover env (xeXaid retry) (AllBackends sc) s) (\<lambda>need s1.
    sbind (xa_commit_count env (retry_query retry) need s1) (\<lambda>n s2. retry_result ok retry (length need) n s2))"
  have f: "retrys_of (syMgr s') = retrys_of (syMgr s)
    \<and> (r = Inr (False, retry') \<longrightarrow> 0 < xeTimes retry \<and> retry' = retry\<lparr>xeTimes := xeTimes retry - 1\<rparr>)" if "?f s = (r, s')" for s r s'
  proof -
    obtain r1 s1 where a: "xa_recover env (xeXaid retry) (AllBackends sc) s = (r1, s1)" by force
    show ?thesis
    proof (cases r1)
      case (Inl e)
      with that a xa_recover_mgr [OF a] show ?thesis by auto
    next
      case need: (Inr need)
      obtain r2 s2 where b: "xa_commit_count env (retry_query retry) need s1 = (r2, s2)" by force
      show ?thesis
      proof (cases r2)
        case (Inl e)
        with that a b need xa_recover_mgr [OF a] xa_commit_count_mgr [OF b] show ?thesis by auto
      next
        case (Inr n)
        with that a b need have x: "retry_result ok retry (length need) n s2 = (r, s')" by simp
        from retry_result_retrys [OF x] xa_recover_mgr [OF a] xa_commit_count_mgr [OF b] show ?thesis by simp
      qed
    qed
  qed
  have d: "commitRetryBackends env ok retry sc =
      (if AllBackends sc = [] then (Inl (GoError ''xacheck.backend.empty''), sc) else in_txn env ?f sc)"
    by (simp add: commitRetryBackends_def Let_def)
  show "retrys sc' = retrys sc"
    using assms f in_txn_retrys(1) [of env ?f sc r sc'] unfolding d by (auto split: if_splits)
  show "0 < xeTimes retry \<and> retry' = retry\<lparr>xeTimes := xeTimes retry - 1\<rparr>" if r: "r = Inr (False, retry')"
  proof -
    have "in_txn env ?f sc = (Inr (False, retry'), sc')" using assms r unfolding d by (simp split: if_splits)
    from in_txn_retrys(2) [OF this] f obtain s s' where "?f s = (Inr (False, retry'), s')" by blast
    from f [OF this] show ?thesis by simp
  qed
qed

subsection \<open>Every entry leaves the list\<close>

text \<open>The entries are stored under their names.\<close>

definition retrys_ok :: "(string \<times> XaCommitErr) list \<Rightarrow> bool" where
  "retrys_ok m \<longleftrightarrow> distinct_keys m \<and> (\<forall>k e. map_of m k = Some e \<longrightarrow> xeXaid e = k)"

lemma retrys_ok_delete: "retrys_ok m \<Longrightarrow> retrys_ok (AList.delete k m)"
  by (auto simp: retrys_ok_def)

lemma retrys_ok_update: "retrys_ok m \<Longrightarrow> xeXaid e = k \<Longrightarrow> retrys_ok (AList.update k e m)"
  by (auto simp: retrys_ok_def)

lemma retrys_upd [simp]:
  "retrys (upd_xacheck f sc) = xcRetrys (f (mgXaCheck (scMgr sc)))" "mgXaCheck (scMgr (upd_xacheck f sc)) = f (mgXaCheck (scMgr sc))"
  by (simp_all add: upd_xacheck_def)

lemma flush_retrys: "flushXaCommitErrLog xc = (r, xc') \<Longrightarrow> xcRetrys xc' = xcRetrys xc"
  by (auto simp: flushXaCommitErrLog_def split: option.splits)

text \<open>One turn of the loop: the entry goes or its count goes down, and the other entries stay.\<close>

lemma retry_turn:
  assumes "retrys_ok (retrys sc)" "retry_loop env ok (x # xs) sc = (Inr (), sc')"
  obtains sc1 where "retry_loop env ok xs sc1 = (Inr (), sc')" "retrys_ok (retrys sc1)"
    "\<And>k. k \<noteq> x \<Longrightarrow> map_of (retrys sc1) k = map_of (retrys sc) k"
    "\<And>e'. map_of (retrys sc1) x = Some e' \<Longrightarrow>
       \<exists>e. map_of (retrys sc) x = Some e \<and> 0 < xeTimes e \<and> xeTimes e' = xeTimes e - 1"
proof (cases "map_of (retrys sc) x")
  case None
  with assms show thesis by (intro that [of sc]) simp_all
next
  case (Some e)
  have xe: "xeXaid e = x" using assms(1) Some by (simp add: retrys_ok_def)
  obtain r sc2 where c: "commitRetryBackends env ok e sc = (r, sc2)" by force
  note c' = commitRetry_retrys [OF c]
  from assms(2) Some c obtain b e' where r: "r = Inr (b, e')" by (cases r) auto
  show thesis
  proof (cases b)
    case True
    let ?d = "upd_xacheck (\<lambda>xc. xc\<lparr>xcRetrys := AList.delete (xeXaid e) (xcRetrys xc)\<rparr>) sc2"
    obtain r3 xc where f: "flushXaCommitErrLog (mgXaCheck (scMgr ?d)) = (r3, xc)" by force
    from assms(2) Some c r True f have "retry_loop env ok xs (upd_xacheck (\<lambda>_. xc) ?d) = (Inr (), sc')"
      by (cases r3) (simp_all add: Let_def)
    moreover have "retrys (upd_xacheck (\<lambda>_. xc) ?d) = AList.delete x (retrys sc)" using flush_retrys [OF f] c'(1) xe by simp
    ultimately show thesis using assms(1) by (intro that [of "upd_xacheck (\<lambda>_. xc) ?d"]) (simp_all add: retrys_ok_delete)
  next
    case False
    let ?sc1 = "upd_xacheck (\<lambda>xc. xc\<lparr>xcRetrys := AList.update x e' (xcRetrys xc)\<rparr>) sc2"
    from r False have d: "0 < xeTimes e" "e' = e\<lparr>xeTimes := xeTimes e - 1\<rparr>" using c'(2) by simp_all
    from assms(2) Some c r False have "retry_loop env ok xs ?sc1 = (Inr (), sc')" by simp
    then show thesis using assms(1) Some d c'(1) xe by (intro that [of ?sc1]) (auto simp: retrys_ok_update)
  qed
qed

text \<open>A loop over distinct names, and with it a round over the whole list.\<close>

lemma retry_loop_result:
  assumes "retrys_ok (retrys sc)" "distinct xs" "retry_loop env ok xs sc = (Inr (), sc')"
  shows "retrys_ok (retrys sc') \<and> (\<forall>k. k \<notin> set xs \<longrightarrow> map_of (retrys sc') k = map_of (retrys sc) k)
    \<and> (\<forall>k \<in> set xs. \<forall>e'. map_of (retrys sc') k = Some e' \<longrightarrow>
         (\<exists>e. map_of (retrys sc) k = Some e \<and> 0 < xeTimes e \<and> xeTimes e' = xeTimes e - 1))"
  using assms
proof (induction xs arbitrary: sc)
  case Nil
  then show ?case by simp
next
  case (Cons x xs)
  obtain sc1 where t: "retry_loop env ok xs sc1 = (Inr (), sc')" "retrys_ok (retrys sc1)"
    "\<And>k. k \<noteq> x \<Longrightarrow> map_of (retrys sc1) k = map_of (retrys sc) k"
    "\<And>e'. map_of (retrys sc1) x = Some e' \<Longrightarrow> \<exists>e. map_of (retrys sc) x = Some e \<and> 0 < xeTimes e \<and> xeTimes e' = xeTimes e - 1"
    by (rule retry_turn [OF Cons.prems(1,3)]) (rule that)
  have x: "distinct xs" "x \<notin> set xs" using Cons.prems(2) by simp_all
  note IH = Cons.IH [OF t(2) x(1) t(1)]
  show ?case
  proof (intro conjI allI impI ballI)
    show "retrys_ok (retrys sc')" using IH by blast
    show "map_of (retrys sc') k = map_of (retrys sc) k" if "k \<notin> set (x # xs)" for k
      using that IH t(3) [of k] by auto
    show "\<exists>e. map_of (retrys sc) k = Some e \<and> 0 < xeTimes e \<and> xeTimes e' = xeTimes e - 1"
      if "k \<in> set (x # xs)" "map_of (retrys sc') k = Some e'" for k e'
    proof (cases "k = x")
      case True
      have "map_of (retrys sc') x = map_of (retrys sc1) x" using IH x(2) by blast
      with t(4) [of e'] that(2) True show ?thesis by simp
    next
      case False
      with that(1) have "k \<in> set xs" by simp
      with IH that(2) t(3) [OF False] show ?thesis by metis
    qed
  qed
qed

definition visits :: "(string list \<Rightarrow> string list) \<Rightarrow> bool" where
  "visits visit \<longleftrightarrow> (\<forall>xs. mset (visit xs) = mset xs)"

lemma round_result:
  assumes "retrys_ok (retrys sc)" "visits visit" "xaCommitsRetryMain env (ok, visit) sc = (Inr (), sc')"
  shows "retrys_ok (retrys sc')"
    and "map_of (retrys sc') k = Some e' \<Longrightarrow> \<exists>e. map_of (retrys sc) k = Some e \<and> 0 < xeTimes e \<and> xeTimes e' = xeTimes e - 1"
proof -
  let ?ks = "visit (map fst (retrys sc))"
  have m: "mset ?ks = mset (map fst (retrys sc))" using assms(2) by (simp add: visits_def)
  have d: "distinct ?ks" using assms(1) mset_eq_imp_distinct_iff [OF m] by (simp add: retrys_ok_def distinct_keys_def)
  have s: "set ?ks = keys (retrys sc)" using mset_eq_setD [OF m] by simp
  have l: "retry_loop env ok ?ks sc = (Inr (), sc')" using assms(3) by (simp add: xaCommitsRetryMain_def)
  note r = retry_loop_result [OF assms(1) d l]
  show "retrys_ok (retrys sc')" using r by blast
  show "\<exists>e. map_of (retrys sc) k = Some e \<and> 0 < xeTimes e \<and> xeTimes e' = xeTimes e - 1" if "map_of (retrys sc') k = Some e'"
  proof -
    have "k \<in> set ?ks"
    proof (rule ccontr)
      assume n: "k \<notin> set ?ks"
      with r that have "map_of (retrys sc) k = Some e'" by metis
      then have "k \<in> keys (retrys sc)" by (auto simp: keys_map_of)
      with n s show False by simp
    qed
    with r that show ?thesis by blast
  qed
qed

lemma rounds_result:
  assumes "retrys_ok (retrys sc)" "\<forall>(ok, visit) \<in> set rs. visits visit" "sfold (xaCommitsRetryMain env) rs sc = (Inr (), sc')"
    and "map_of (retrys sc') k = Some e'"
  shows "\<exists>e. map_of (retrys sc) k = Some e \<and> xeTimes e' = xeTimes e - int (length rs) \<and> (rs \<noteq> [] \<longrightarrow> int (length rs) \<le> xeTimes e)"
  using assms
proof (induction rs arbitrary: sc)
  case (Cons x rs)
  obtain ok visit where x: "x = (ok, visit)" by force
  obtain r1 sc1 where m: "xaCommitsRetryMain env x sc = (r1, sc1)" by force
  from Cons.prems(3) m have r1: "r1 = Inr ()" "sfold (xaCommitsRetryMain env) rs sc1 = (Inr (), sc')" by (cases r1; simp)+
  have v: "visits visit" using Cons.prems(2) x by simp
  note rr = round_result [OF Cons.prems(1) v m [unfolded r1(1) x]]
  from Cons.IH [OF rr(1) _ r1(2) Cons.prems(4)] Cons.prems(2) obtain e1 where
    e1: "map_of (retrys sc1) k = Some e1" "xeTimes e' = xeTimes e1 - int (length rs)" "rs \<noteq> [] \<longrightarrow> int (length rs) \<le> xeTimes e1" by auto
  from rr(2) [OF e1(1)] obtain e where e: "map_of (retrys sc) k = Some e" "0 < xeTimes e" "xeTimes e1 = xeTimes e - 1" by blast
  with e1 show ?case by (cases rs) auto
qed simp

text \<open>C7: Every transaction in the list is settled: when the rounds of the checker run to their end, in
  whatever order they visit the list and whatever the backends answer to the commands, the entry has left the
  list after one round more than its count.
\<close>

theorem retry_settles:
  assumes "retrys_ok (retrys sc)" "map_of (retrys sc) xid = Some e" "\<forall>(ok, visit) \<in> set rs. visits visit"
    and "sfold (xaCommitsRetryMain env) rs sc = (Inr (), sc')" "nat (xeTimes e) < length rs"
  shows "map_of (retrys sc') xid = None"
proof (rule ccontr)
  assume "map_of (retrys sc') xid \<noteq> None"
  then obtain e' where "map_of (retrys sc') xid = Some e'" by blast
  from rounds_result [OF assms(1,3,4) this] assms(2,5) show False by auto
qed

subsection \<open>The file of the list\<close>

lemma load_adds:
  assumes "distinct (map xeXaid logs)" "\<forall>e \<in> set logs. map_of (xcRetrys xc) (xeXaid e) = None"
  shows "sfold addXaCommitErrLog logs xc = (Inr (), xc\<lparr>xcRetrys := xcRetrys xc @ map (\<lambda>e. (xeXaid e, e)) logs\<rparr>)"
  using assms
proof (induction logs arbitrary: xc)
  case (Cons e logs)
  let ?xc = "xc\<lparr>xcRetrys := xcRetrys xc @ [(xeXaid e, e)]\<rparr>"
  have a: "addXaCommitErrLog e xc = (Inr (), ?xc)" using Cons.prems(2) by (simp add: addXaCommitErrLog_def update_new)
  have "sfold addXaCommitErrLog logs ?xc = (Inr (), ?xc\<lparr>xcRetrys := xcRetrys ?xc @ map (\<lambda>e. (xeXaid e, e)) logs\<rparr>)"
  proof (rule Cons.IH)
    show "distinct (map xeXaid logs)" using Cons.prems(1) by simp
    have "xeXaid e' \<noteq> xeXaid e" if "e' \<in> set logs" for e' using Cons.prems(1) that by (metis distinct.simps(2) image_eqI list.map(2) list.set_map)
    with Cons.prems(2) show "\<forall>e' \<in> set logs. map_of (xcRetrys ?xc) (xeXaid e') = None" by simp
  qed
  with a show ?case by simp
qed simp

lemma retrys_ok_names: "retrys_ok m \<Longrightarrow> map (\<lambda>e. (xeXaid e, e)) (map snd m) = m"
  by (auto simp: retrys_ok_def map_of_in_set intro!: map_idI)

lemma load_flushed:
  assumes "retrys_ok (xcRetrys xc)" "flushXaCommitErrLog xc = (Inr (), xc1)" "xcRetrys fresh = []"
  shows "\<exists>xc2. LoadXaCommitErrLogs (fresh\<lparr>xcFile := xcFile xc1\<rparr>) = (Inr (), xc2) \<and> xcRetrys xc2 = xcRetrys xc"
proof -
  let ?logs = "map snd (xcRetrys xc)"
  note n = retrys_ok_names [OF assms(1)]
  have f: "xcFile xc1 = XaLogs ?logs" using assms(2) by (auto simp: flushXaCommitErrLog_def split: option.splits)
  have "map xeXaid ?logs = map fst (map (\<lambda>e. (xeXaid e, e)) ?logs)" by (simp add: comp_def)
  then have e: "map xeXaid ?logs = map fst (xcRetrys xc)" unfolding n .
  have "distinct (map xeXaid ?logs)" unfolding e using assms(1) by (simp add: retrys_ok_def distinct_keys_def)
  from load_adds [OF this, of "fresh\<lparr>xcFile := xcFile xc1\<rparr>"] assms(3) show ?thesis
    unfolding n by (simp add: LoadXaCommitErrLogs_def f)
qed

lemma Write_result:
  assumes "retrys_ok (xcRetrys xc)" "XaCheck_Write stamp xid state xc = (Inr (), xc1)"
  defines "xc' \<equiv> xc\<lparr>xcRetrys := xcRetrys xc @ [(xid, \<lparr>xeTime = stamp, xeXaid = xid, xeState = state, xeTimes = xcTimes xc\<rparr>)]\<rparr>"
  shows "flushXaCommitErrLog xc' = (Inr (), xc1)" "retrys_ok (xcRetrys xc')" "map_of (xcRetrys xc) xid = None"
proof -
  show n: "map_of (xcRetrys xc) xid = None"
    using assms(2) by (auto simp: XaCheck_Write_def addXaCommitErrLog_def split: if_splits)
  with assms(2) show "flushXaCommitErrLog xc' = (Inr (), xc1)"
    by (simp add: XaCheck_Write_def addXaCommitErrLog_def xc'_def update_new)
  have "retrys_ok (AList.update xid \<lparr>xeTime = stamp, xeXaid = xid, xeState = state, xeTimes = xcTimes xc\<rparr> (xcRetrys xc))"
    by (rule retrys_ok_update [OF assms(1)]) simp
  with n show "retrys_ok (xcRetrys xc')" by (simp add: xc'_def update_new)
qed

text \<open>C8: A recorded transaction survives a restart: once its entry is written, a new checker that loads the
  file has the same list, with the entry, and will try the transaction again.
\<close>

theorem recorded_survives_restart:
  assumes "retrys_ok (xcRetrys xc)" "XaCheck_Write stamp xid state xc = (Inr (), xc1)" "xcRetrys fresh = []"
  shows "\<exists>xc2. LoadXaCommitErrLogs (fresh\<lparr>xcFile := xcFile xc1\<rparr>) = (Inr (), xc2) \<and> xcRetrys xc2 = xcRetrys xc1
    \<and> map_of (xcRetrys xc2) xid = Some \<lparr>xeTime = stamp, xeXaid = xid, xeState = state, xeTimes = xcTimes xc\<rparr>"
proof -
  note w = Write_result [OF assms(1,2)]
  from load_flushed [OF w(2,1) assms(3)] flush_retrys [OF w(1)] w(3) show ?thesis by (auto simp: map_add_def)
qed

subsection \<open>A concrete list\<close>

text \<open>Two backends; the second one still has the branch of the transaction \<open>X\<close>, and cannot commit it.\<close>

definition demo_entry :: XaCommitErr where
  "demo_entry = \<lparr>xeTime = ''t'', xeXaid = ''X'', xeState = ''commit'', xeTimes = 1\<rparr>"

definition demo_check :: Scatter where
  "demo_check = upd_xacheck (\<lambda>xc. xc\<lparr>xcRetrys := [(''X'', demo_entry)]\<rparr>) demo_scatter"

definition demo_rounds :: "(bool \<times> (string list \<Rightarrow> string list)) list" where
  "demo_rounds = [(True, rev), (True, rev)]"

definition prepared_row :: Result where
  "prepared_row = empty_Result\<lparr>rsFields := replicate 4 \<lparr>fName = [], fTable = [], fType = TOther, fDecimals = 0, fColumnLength = 0\<rparr>, rsRowsAffected := 1,
     rsRows := [[VSigned 1, VSigned 1, VSigned 0, VText ''X'']]\<rparr>"

definition answer_prepared :: "nat \<Rightarrow> string \<Rightarrow> fetch" where
  "answer_prepared p q =
     (if q = ''xa recover'' then Fetched (if p = 1 then prepared_row else empty_Result) else FetchErr (SQLError 1399))"

lemma demo_check_runs:
  "fst (sfold (xaCommitsRetryMain (cluster_env answer_prepared)) demo_rounds demo_check) = Inr ()"
  "xcTimesOut (mgXaCheck (scMgr (snd (sfold (xaCommitsRetryMain (cluster_env answer_prepared)) demo_rounds demo_check))))
     = [demo_entry\<lparr>xeTimes := 0\<rparr>]"
  by code_simp+

lemma demo_check_ok: "retrys_ok (retrys demo_check)" "map_of (retrys demo_check) ''X'' = Some demo_entry"
  by (auto simp: demo_check_def upd_xacheck_def retrys_ok_def distinct_keys_def demo_entry_def split: if_splits)

theorem retry_settles_witness:
  "let sc' = snd (sfold (xaCommitsRetryMain (cluster_env answer_prepared)) demo_rounds demo_check)
   in xcTimesOut (mgXaCheck (scMgr sc')) = [demo_entry\<lparr>xeTimes := 0\<rparr>] \<and> map_of (retrys sc') ''X'' = None"
proof -
  let ?run = "sfold (xaCommitsRetryMain (cluster_env answer_prepared)) demo_rounds demo_check"
  have r: "?run = (Inr (), snd ?run)" using demo_check_runs(1) by (metis prod.collapse)
  have "map_of (retrys (snd ?run)) ''X'' = None"
    by (rule retry_settles [OF demo_check_ok _ r]) (simp_all add: demo_rounds_def visits_def demo_entry_def)
  with demo_check_runs(2) show ?thesis by (simp add: Let_def)
qed

theorem recorded_survives_restart_witness:
  "\<exists>xc2. LoadXaCommitErrLogs ((mgXaCheck demo_mgr)\<lparr>xcFile := xcFile (snd (XaCheck_Write ''t'' ''X'' ''commit'' (mgXaCheck demo_mgr)))\<rparr>) = (Inr (), xc2)
    \<and> map_of (xcRetrys xc2) ''X'' = Some \<lparr>xeTime = ''t'', xeXaid = ''X'', xeState = ''commit'', xeTimes = 3\<rparr>"
proof -
  have w: "XaCheck_Write ''t'' ''X'' ''commit'' (mgXaCheck demo_mgr) = (Inr (), snd (XaCheck_Write ''t'' ''X'' ''commit'' (mgXaCheck demo_mgr)))"
    by (simp add: XaCheck_Write_def addXaCommitErrLog_def flushXaCommitErrLog_def demo_mgr_def)
  have "retrys_ok (xcRetrys (mgXaCheck demo_mgr))" "xcRetrys (mgXaCheck demo_mgr) = []" "xcTimes (mgXaCheck demo_mgr) = 3"
    by (simp_all add: demo_mgr_def retrys_ok_def)
  with recorded_survives_restart [OF _ w] show ?thesis by auto
qed

end
