(* ===== verification/Radon_Privilege.thy ===== *)
theory Radon_Privilege
  imports Radon_Scatter
begin

section \<open>Privileges\<close>

text \<open>
  \<open>src/src/plugins/privilege/privilege.go\<close>: loading the privileges from a backend and checking a statement
  against them. Of a statement the check reads its kind and the table names that \<open>sqlparser.Walk\<close> visits
  outside of column names, in that order.
\<close>

record privilege =
  pvSelect :: bool
  pvInsert :: bool
  pvUpdate :: bool
  pvDelete :: bool
  pvCreate :: bool
  pvDrop :: bool
  pvGrant :: bool
  pvAlter :: bool
  pvIndex :: bool
  pvShowDB :: bool
  pvSuper :: bool

record dbPriv =
  dpHost :: string
  dpUser :: string
  dpDb :: string
  dpPriv :: privilege

record userPriv =
  upHost :: string
  upUser :: string
  upPriv :: privilege
  upDbPrivs :: "(string \<times> dbPriv) list"

type_synonym userPrivs = "(string \<times> userPriv) list"

datatype stmt_kind = StChecksum | StUnion | StSelect | StInsert | StUpdate | StDelete | StShow | StDDL | StOther

text \<open>A table name: its qualifier, empty when it has none, and its name.\<close>

record Statement =
  stKind :: stmt_kind
  stTables :: "(string \<times> string) list"

subsection \<open>Checking\<close>

text \<open>The entry of a map for a missing key is the zero value.\<close>

definition zero_privilege :: privilege where
  "zero_privilege = \<lparr>pvSelect = False, pvInsert = False, pvUpdate = False, pvDelete = False, pvCreate = False, pvDrop = False,
     pvGrant = False, pvAlter = False, pvIndex = False, pvShowDB = False, pvSuper = False\<rparr>"

definition user_entry :: "userPrivs \<Rightarrow> string \<Rightarrow> userPriv" where
  "user_entry p user =
     (case map_of p user of None \<Rightarrow> \<lparr>upHost = [], upUser = [], upPriv = zero_privilege, upDbPrivs = []\<rparr> | Some u \<Rightarrow> u)"

definition db_privilege :: "userPriv \<Rightarrow> string \<Rightarrow> privilege" where
  "db_privilege u db = (case map_of (upDbPrivs u) db of None \<Rightarrow> zero_privilege | Some d \<Rightarrow> dpPriv d)"

definition all_ddl :: "privilege \<Rightarrow> bool" where
  "all_ddl p \<longleftrightarrow> pvCreate p \<and> pvDrop p \<and> pvAlter p \<and> pvIndex p"

definition CheckPrivilege :: "userPrivs \<Rightarrow> string \<Rightarrow> string \<Rightarrow> stmt_kind option \<Rightarrow> bool" where
  "CheckPrivilege p db user node =
     (let u = user_entry p user; up = upPriv u; dp = db_privilege u db
      in case node of
           None \<Rightarrow> pvSuper up
         | Some StChecksum \<Rightarrow> pvSuper up \<or> pvSelect up \<or> pvSelect dp
         | Some StUnion \<Rightarrow> pvSuper up \<or> pvSelect up \<or> pvSelect dp
         | Some StSelect \<Rightarrow> pvSuper up \<or> pvSelect up \<or> pvSelect dp
         | Some StInsert \<Rightarrow> pvSuper up \<or> pvInsert up \<or> pvInsert dp
         | Some StUpdate \<Rightarrow> pvSuper up \<or> pvUpdate up \<or> pvUpdate dp
         | Some StDelete \<Rightarrow> pvSuper up \<or> pvDelete up \<or> pvDelete dp
         | Some StShow \<Rightarrow> pvSuper up \<or> pvShowDB up \<or> pvShowDB dp
         | Some StDDL \<Rightarrow> pvSuper up \<or> all_ddl up \<or> all_ddl dp
         | Some StOther \<Rightarrow> False)"

text \<open>The walk: the database of the last qualifier stays, and a failed table does not end it.\<close>

fun check_tables :: "userPrivs \<Rightarrow> string \<Rightarrow> stmt_kind \<Rightarrow> (string \<times> string) list \<Rightarrow> bool \<Rightarrow> string \<Rightarrow> bool \<times> string" where
  "check_tables p user kind [] ok db = (ok, db)"
| "check_tables p user kind ((qualifier, name) # tables) ok db =
     (let db' = (if qualifier \<noteq> [] then qualifier else db)
      in check_tables p user kind tables (ok \<and> CheckPrivilege p db' user (Some kind)) db')"

abbreviation ER_ACCESS_DENIED_ERROR :: go_err where "ER_ACCESS_DENIED_ERROR \<equiv> SQLError 1045"

definition Check :: "userPrivs \<Rightarrow> string \<Rightarrow> string \<Rightarrow> Statement option \<Rightarrow> unit res" where
  "Check p database user node =
     (let (ok, db) = (case node of None \<Rightarrow> (True, database) | Some st \<Rightarrow> check_tables p user (stKind st) (stTables st) True database);
          ok' = (ok \<and> CheckPrivilege p db user (map_option stKind node))
      in if ok' then Inr () else Inl ER_ACCESS_DENIED_ERROR)"

definition IsSuperPriv :: "userPrivs \<Rightarrow> string \<Rightarrow> bool" where
  "IsSuperPriv p user = pvSuper (upPriv (user_entry p user))"

definition CheckUserPrivilegeIsSet :: "userPrivs \<Rightarrow> string \<Rightarrow> bool" where
  "CheckUserPrivilegeIsSet p user =
     (let up = upPriv (user_entry p user)
      in pvSelect up \<or> pvInsert up \<or> pvUpdate up \<or> pvDelete up \<or> pvCreate up \<or> pvDrop up \<or> pvGrant up \<or> pvAlter up
         \<or> pvIndex up \<or> pvShowDB up \<or> pvSuper up)"

definition GetUserPrivilegeDBS :: "userPrivs \<Rightarrow> string \<Rightarrow> string set" where
  "GetUserPrivilegeDBS p user = set (map fst (upDbPrivs (user_entry p user)))"

definition CheckDBinUserPrivilege :: "userPrivs \<Rightarrow> string \<Rightarrow> string \<Rightarrow> bool" where
  "CheckDBinUserPrivilege p user db \<longleftrightarrow> map_of (upDbPrivs (user_entry p user)) db \<noteq> None"

subsection \<open>Loading\<close>

definition flag :: "row \<Rightarrow> int \<Rightarrow> bool res" where
  "flag r i = rbind (slice_get r i) (\<lambda>v. Inr (raw v = ''Y''))"

definition column :: "row \<Rightarrow> int \<Rightarrow> string res" where
  "column r i = rbind (slice_get r i) (\<lambda>v. Inr (raw v))"

definition quoted :: "string \<Rightarrow> string" where
  "quoted s = [CHR 0x27] @ s @ [CHR 0x27]"

definition db_query :: "string \<Rightarrow> string \<Rightarrow> string" where
  "db_query host user =
     ''select Host, User, Select_priv, Insert_priv, Update_priv, Delete_priv, Create_priv, Drop_priv, Grant_priv, Alter_priv, Index_priv, db from mysql.db where Host=''
       @ quoted host @ '' and User='' @ quoted user"

definition user_query :: string where
  "user_query = ''select Host, User, Select_priv, Insert_priv, Update_priv, Delete_priv, Create_priv, Drop_priv, Alter_priv, Index_priv, Show_db_priv, Super_priv from mysql.user''"

text \<open>The columns of \<open>mysql.db\<close>: it has no flags for showing databases and for the super user.\<close>

definition db_row :: "row \<Rightarrow> dbPriv res" where
  "db_row r =
     rbind (column r 0) (\<lambda>host. rbind (column r 1) (\<lambda>user.
     rbind (flag r 2) (\<lambda>sel. rbind (flag r 3) (\<lambda>ins. rbind (flag r 4) (\<lambda>upd. rbind (flag r 5) (\<lambda>del.
     rbind (flag r 6) (\<lambda>create. rbind (flag r 7) (\<lambda>drp. rbind (flag r 8) (\<lambda>grant. rbind (flag r 9) (\<lambda>alter.
     rbind (flag r 10) (\<lambda>index. rbind (column r 11) (\<lambda>db.
       Inr \<lparr>dpHost = host, dpUser = user, dpDb = db, dpPriv = zero_privilege\<lparr>pvSelect := sel, pvInsert := ins, pvUpdate := upd,
         pvDelete := del, pvCreate := create, pvDrop := drp, pvGrant := grant, pvAlter := alter, pvIndex := index\<rparr>\<rparr>))))))))))))"

definition user_row :: "row \<Rightarrow> privilege res" where
  "user_row r =
     rbind (flag r 2) (\<lambda>sel. rbind (flag r 3) (\<lambda>ins. rbind (flag r 4) (\<lambda>upd. rbind (flag r 5) (\<lambda>del.
     rbind (flag r 6) (\<lambda>create. rbind (flag r 7) (\<lambda>drp. rbind (flag r 8) (\<lambda>alter. rbind (flag r 9) (\<lambda>index.
     rbind (flag r 10) (\<lambda>showdb. rbind (flag r 11) (\<lambda>super.
       Inr (zero_privilege\<lparr>pvSelect := sel, pvInsert := ins, pvUpdate := upd, pvDelete := del, pvCreate := create, pvDrop := drp,
         pvAlter := alter, pvIndex := index, pvShowDB := showdb, pvSuper := super\<rparr>)))))))))))"

definition loadDBPrivileges :: "backend_env \<Rightarrow> string \<Rightarrow> string \<Rightarrow> Scatter \<Rightarrow> (Scatter, (string \<times> dbPriv) list) outcome" where
  "loadDBPrivileges env host user sc =
     sbind (spanner_ExecuteSingle env (db_query host user) sc) (\<lambda>qr sc1.
       (fold_res (\<lambda>r m. rbind (db_row r) (\<lambda>d. Inr (AList.update (dpDb d) d m))) (rsRows qr) [], sc1))"

fun load_users :: "backend_env \<Rightarrow> row list \<Rightarrow> userPrivs \<Rightarrow> Scatter \<Rightarrow> (Scatter, userPrivs) outcome" where
  "load_users env [] p sc = (Inr p, sc)"
| "load_users env (r # rows) p sc =
     (case (column r 0, column r 1) of
        (Inr host, Inr user) \<Rightarrow>
          sbind (loadDBPrivileges env host user sc) (\<lambda>dbs sc1.
            case user_row r of
              Inl e \<Rightarrow> (Inl e, sc1)
            | Inr up \<Rightarrow> load_users env rows (AList.update user \<lparr>upHost = host, upUser = user, upPriv = up, upDbPrivs = dbs\<rparr> p) sc1)
      | (Inl e, _) \<Rightarrow> (Inl e, sc)
      | (_, Inl e) \<Rightarrow> (Inl e, sc))"

definition loadUserPrivileges :: "backend_env \<Rightarrow> Scatter \<Rightarrow> (Scatter, userPrivs) outcome" where
  "loadUserPrivileges env sc =
     sbind (spanner_ExecuteSingle env user_query sc) (\<lambda>qr sc1. load_users env (rsRows qr) [] sc1)"

record Privilege =
  prUserPrivs :: userPrivs
  prScatter :: Scatter

definition UpdatePrivileges :: "backend_env \<Rightarrow> Privilege \<Rightarrow> (Privilege, unit) outcome" where
  "UpdatePrivileges env pr =
     (case loadUserPrivileges env (prScatter pr) of
        (Inl e, sc) \<Rightarrow> (Inl e, pr\<lparr>prScatter := sc\<rparr>)
      | (Inr p, sc) \<Rightarrow> (Inr (), pr\<lparr>prUserPrivs := p, prScatter := sc\<rparr>))"

subsection \<open>What a check means\<close>

text \<open>The databases a walk checks, and the database each table is really in.\<close>

fun walked :: "string \<Rightarrow> (string \<times> string) list \<Rightarrow> string list" where
  "walked db [] = []"
| "walked db ((q, t) # ts) = (let db' = (if q \<noteq> [] then q else db) in db' # walked db' ts)"

definition table_db :: "string \<Rightarrow> string \<times> string \<Rightarrow> string" where
  "table_db database = (\<lambda>(q, t). if q \<noteq> [] then q else database)"

lemma check_tables_eq:
  "check_tables p user kind ts ok db =
     (ok \<and> (\<forall>d \<in> set (walked db ts). CheckPrivilege p d user (Some kind)), last (db # walked db ts))"
  by (induction ts arbitrary: ok db) (auto simp: Let_def)

lemma walked_empty [simp]: "walked db ts = [] \<longleftrightarrow> ts = []"
  by (cases ts) (auto simp: Let_def)

lemma Check_eq:
  "Check p database user (Some st) = Inr () \<longleftrightarrow>
     (\<forall>d \<in> set (walked database (stTables st)). CheckPrivilege p d user (Some (stKind st)))
     \<and> (stTables st = [] \<longrightarrow> CheckPrivilege p database user (Some (stKind st)))"
  by (cases "stTables st = []") (auto simp: Check_def check_tables_eq Let_def)

lemma walked_qualified: "\<forall>y \<in> set ts. fst y \<noteq> [] \<Longrightarrow> walked d ts = map (table_db database) ts"
  by (induction ts arbitrary: d) (auto simp: table_db_def Let_def)

text \<open>The walk is right as long as no table without a qualifier follows one that has a foreign one.\<close>

lemma walked_own:
  assumes "\<forall>i < length ts. \<forall>j < i. fst (ts ! i) = [] \<longrightarrow> fst (ts ! j) = []"
  shows "walked database ts = map (table_db database) ts"
  using assms
proof (induction ts)
  case (Cons x ts)
  obtain q t where x: "x = (q, t)" by force
  have tl: "\<forall>i < length ts. \<forall>j < i. fst (ts ! i) = [] \<longrightarrow> fst (ts ! j) = []"
    using Cons.prems by (metis Suc_less_eq length_Cons nth_Cons_Suc)
  show ?case
  proof (cases "q = []")
    case True
    with Cons.IH [OF tl] show ?thesis by (simp add: x table_db_def)
  next
    case False
    have "fst y \<noteq> []" if "y \<in> set ts" for y
    proof -
      from that obtain i where "i < length ts" "y = ts ! i" by (auto simp: in_set_conv_nth)
      with Cons.prems False show ?thesis by (metis Suc_less_eq fst_conv length_Cons nth_Cons_0 nth_Cons_Suc x zero_less_Suc)
    qed
    with False walked_qualified [of ts q database] show ?thesis by (simp add: x table_db_def)
  qed
qed simp

text \<open>C11: A statement that passes the check is allowed on the database of every one of its tables, as long as no
  table without a qualifier comes after one with a qualifier.
\<close>

theorem Check_sound:
  assumes "Check p database user (Some st) = Inr ()" "table \<in> set (stTables st)"
    and "\<forall>i < length (stTables st). \<forall>j < i. fst (stTables st ! i) = [] \<longrightarrow> fst (stTables st ! j) = []"
  shows "CheckPrivilege p (table_db database table) user (Some (stKind st))"
  using assms(1,2) unfolding Check_eq walked_own [OF assms(3)] by simp

text \<open>A user that may read the database \<open>mine\<close> and nothing else.\<close>

definition demo_privs :: userPrivs where
  "demo_privs = [(''u'', \<lparr>upHost = ''%'', upUser = ''u'', upPriv = zero_privilege,
     upDbPrivs = [(''mine'', \<lparr>dpHost = ''%'', dpUser = ''u'', dpDb = ''mine'', dpPriv = zero_privilege\<lparr>pvSelect := True\<rparr>\<rparr>)]\<rparr>)]"

definition demo_stmt :: "(string \<times> string) list \<Rightarrow> Statement" where
  "demo_stmt ts = \<lparr>stKind = StSelect, stTables = ts\<rparr>"

theorem Check_sound_witness:
  "CheckPrivilege demo_privs (table_db ''mine'' (''mine'', ''b'')) ''u'' (Some (stKind (demo_stmt [([], ''a''), (''mine'', ''b'')])))"
  by (rule Check_sound [of demo_privs "''mine''" "''u''"])
    (auto simp: demo_stmt_def demo_privs_def Check_def CheckPrivilege_def user_entry_def db_privilege_def less_Suc_eq numeral_2_eq_2 Let_def)

text \<open>C40: The check of a table without a qualifier that comes after one with a qualifier does not look at the
  database of the session: a user who may read the database of the qualifier passes with a table of a database
  on which they have no privilege.
\<close>

theorem Check_skips_session_database:
  "(\<forall>p database user kind q t u. q \<noteq> [] \<longrightarrow>
      (Check p database user (Some \<lparr>stKind = kind, stTables = [(q, t), ([], u)]\<rparr>) = Inr () \<longleftrightarrow> CheckPrivilege p q user (Some kind)))
   \<and> Check demo_privs ''other'' ''u'' (Some (demo_stmt [(''mine'', ''t''), ([], ''secret'')])) = Inr ()
   \<and> \<not> CheckPrivilege demo_privs ''other'' ''u'' (Some StSelect)"
  by (auto simp: Check_eq Let_def demo_stmt_def demo_privs_def CheckPrivilege_def user_entry_def db_privilege_def zero_privilege_def)

theorem Check_skips_session_database_witness:
  "Check demo_privs ''other'' ''u'' (Some \<lparr>stKind = StSelect, stTables = [(''mine'', ''t''), ([], ''secret'')]\<rparr>) = Inr ()"
  using Check_skips_session_database by (simp add: demo_privs_def CheckPrivilege_def user_entry_def db_privilege_def)

text \<open>A failed load keeps the privileges; a load keeps the last row of a user, whatever its host is.\<close>

lemma UpdatePrivileges_failure:
  "UpdatePrivileges env pr = (Inl e, pr') \<Longrightarrow> prUserPrivs pr' = prUserPrivs pr"
  by (auto simp: UpdatePrivileges_def split: prod.splits sum.splits)

end
