(* ===== verification/Spec2Isabelle.thy ===== *)
theory Spec2Isabelle
  imports Radon_Catalog Radon_Shape Radon_XaCheck Radon_Privilege
begin

text \<open>
  Radon is a MySQL proxy: it shards tables over backends, plans SQL over the shards and merges the
  results. This development models the parts that decide where a row lives and what a client sees.

  \<^item> \<open>Radon_Prelude\<close>: errors as values, association lists for Go maps, decimal text.
  \<^item> \<open>Radon_Jump\<close>: the jump consistent hash.
  \<^item> \<open>Radon_Config\<close>, \<open>Radon_Sql\<close>: configuration records and the syntax trees the router reads.
  \<^item> \<open>Radon_Partition\<close>: the four partition methods of \<open>src/src/router\<close>.
  \<^item> \<open>Radon_Compute\<close>: the placement of a new table on the backends.
\<close>

end
